(* ===== verification/Unf_Prelude.thy ===== *)
theory Unf_Prelude
  imports Main "HOL-Library.Word" "HOL-Library.Char_ord" "HOL-Library.List_Lexorder"
    "HOL-Library.Product_Lexorder" "HOL-Library.Option_ord"
begin

text \<open>
  Shared vocabulary of the development: the machine integers of the Rust sources, results with an
  error side, the ordered containers of the standard library (\<open>BTreeMap\<close>, \<open>BTreeSet\<close>) as strictly
  sorted lists, and address prefixes on words.  A container is used through the interface its
  locale states (what a lookup returns after an insertion or a removal, and that two maps with the
  same lookups are the same map); the sorted lists are the interpretation.
\<close>

unbundle bit_operations_syntax

section \<open>Machine integers and results\<close>

type_synonym u8 = "8 word"
type_synonym u16 = "16 word"
type_synonym u32 = "32 word"
type_synonym u64 = "64 word"
type_synonym u128 = "128 word"

type_synonym ('e, 'a) res = "'e + 'a"

abbreviation Err :: "'e \<Rightarrow> ('e, 'a) res" where
  "Err \<equiv> Inl"

abbreviation Ok :: "'a \<Rightarrow> ('e, 'a) res" where
  "Ok \<equiv> Inr"

named_theorems res_simps \<open>unfolding the error-propagating combinators\<close>

text \<open>The question-mark operator: continue with the value, return early with the error.\<close>

definition rbind :: "('e, 'a) res \<Rightarrow> ('a \<Rightarrow> ('e, 'b) res) \<Rightarrow> ('e, 'b) res" where
  "rbind r f = (case r of Inl e \<Rightarrow> Inl e | Inr x \<Rightarrow> f x)"

lemma rbind_Inl [simp]: "rbind (Inl e) f = Inl e"
  by (simp add: rbind_def)

lemma rbind_Inr [simp]: "rbind (Inr x) f = f x"
  by (simp add: rbind_def)

lemma rbind_eq_Inr [res_simps]: "rbind r f = Inr y \<longleftrightarrow> (\<exists>x. r = Inr x \<and> f x = Inr y)"
  by (cases r) auto

lemma rbind_eq_Inl [res_simps]:
  "rbind r f = Inl e \<longleftrightarrow> r = Inl e \<or> (\<exists>x. r = Inr x \<and> f x = Inl e)"
  by (cases r) auto

lemma if_Err_eq [res_simps]: "(if c then Inl e else r) = Inr x \<longleftrightarrow> \<not> c \<and> r = Inr x"
  by simp

text \<open>A loop over a list that threads an accumulator and stops at the first error.\<close>

fun try_fold :: "('s \<Rightarrow> 'a \<Rightarrow> ('e, 's) res) \<Rightarrow> 's \<Rightarrow> 'a list \<Rightarrow> ('e, 's) res" where
  "try_fold f s [] = Inr s"
| "try_fold f s (x # xs) = rbind (f s x) (\<lambda>s'. try_fold f s' xs)"

text \<open>Collecting an iterator of results into one result.\<close>

fun try_map :: "('a \<Rightarrow> ('e, 'b) res) \<Rightarrow> 'a list \<Rightarrow> ('e, 'b list) res" where
  "try_map f [] = Inr []"
| "try_map f (x # xs) = rbind (f x) (\<lambda>y. rbind (try_map f xs) (\<lambda>ys. Inr (y # ys)))"

lemma try_fold_append:
  "try_fold f s (xs @ ys) = rbind (try_fold f s xs) (\<lambda>s'. try_fold f s' ys)"
proof (induction xs arbitrary: s)
  case (Cons x xs)
  then show ?case by (cases "f s x") auto
qed simp

lemma try_fold_invariant:
  assumes "try_fold f s xs = Inr s'" and "P s"
    and "\<And>t x t'. P t \<Longrightarrow> x \<in> set xs \<Longrightarrow> f t x = Inr t' \<Longrightarrow> P t'"
  shows "P s'"
  using assms
proof (induction xs arbitrary: s)
  case (Cons x xs)
  from Cons.prems(1) obtain t where t: "f s x = Inr t" and rest: "try_fold f t xs = Inr s'"
    by (auto simp: res_simps)
  have "P t" by (rule Cons.prems(3) [OF Cons.prems(2) list.set_intros(1) t])
  then show ?case
    by (rule Cons.IH [OF rest]) (rule Cons.prems(3) [OF _ list.set_intros(2)])
qed simp

lemma try_map_eq_Inr:
  "try_map f xs = Inr ys \<longleftrightarrow> list_all2 (\<lambda>x y. f x = Inr y) xs ys"
proof (induction xs arbitrary: ys)
  case (Cons x xs)
  then show ?case by (cases ys) (auto simp: res_simps)
qed auto

lemma try_map_all_Inr: "(\<And>x. x \<in> set xs \<Longrightarrow> f x = Inr (g x)) \<Longrightarrow> try_map f xs = Inr (map g xs)"
  by (induction xs) auto

lemma find_SomeD: "find P xs = Some x \<Longrightarrow> x \<in> set xs \<and> P x"
  by (induction xs) (auto split: if_splits)

lemma map_of_filter_key: "map_of (filter (\<lambda>e. fst e \<noteq> k) m) = (map_of m)(k := None)"
  by (induction m) auto

text \<open>The first of two optional values, as in \<open>Option::or_else\<close>.\<close>

definition or_else :: "'a option \<Rightarrow> 'a option \<Rightarrow> 'a option" where
  "or_else x y = (case x of None \<Rightarrow> y | Some v \<Rightarrow> Some v)"

lemma or_else_simps [simp]: "or_else None y = y" "or_else (Some v) y = Some v" "or_else x None = x"
  by (simp_all add: or_else_def split: option.split)

lemma or_else_absorb [simp]: "or_else x (or_else x y) = or_else x y"
  by (cases x) simp_all

section \<open>Ordered maps\<close>

text \<open>The contract of \<open>BTreeMap\<close> its clients rely on.\<close>

locale ordered_map =
  fixes empty :: "'m" and get :: "'m \<Rightarrow> 'k::linorder \<Rightarrow> 'v option"
    and insert :: "'k \<Rightarrow> 'v \<Rightarrow> 'm \<Rightarrow> 'm" and remove :: "'k \<Rightarrow> 'm \<Rightarrow> 'm"
    and invar :: "'m \<Rightarrow> bool"
  assumes get_empty: "get empty k = None"
    and get_insert: "invar m \<Longrightarrow> get (insert k v m) = (get m)(k \<mapsto> v)"
    and get_remove: "invar m \<Longrightarrow> get (remove k m) = (get m)(k := None)"
    and invar_empty: "invar empty"
    and invar_insert: "invar m \<Longrightarrow> invar (insert k v m)"
    and invar_remove: "invar m \<Longrightarrow> invar (remove k m)"
    and get_ext: "invar m \<Longrightarrow> invar n \<Longrightarrow> get m = get n \<Longrightarrow> m = n"
begin

text \<open>Undoing a change of one key: the map that agrees with \<open>m\<close> off \<open>k\<close> becomes \<open>m\<close> again.\<close>

lemma reinsert:
  assumes "invar m" "invar n" "get m k = Some v" "\<And>j. j \<noteq> k \<Longrightarrow> get n j = get m j"
  shows "insert k v n = m"
  using assms by (intro get_ext) (auto simp: get_insert invar_insert fun_eq_iff)

lemma reremove:
  assumes "invar m" "invar n" "get m k = None" "\<And>j. j \<noteq> k \<Longrightarrow> get n j = get m j"
  shows "remove k n = m"
  using assms by (intro get_ext) (auto simp: get_remove invar_remove fun_eq_iff)

lemma insert_same: "invar m \<Longrightarrow> get m k = Some v \<Longrightarrow> insert k v m = m"
  by (rule reinsert) auto

lemma remove_absent: "invar m \<Longrightarrow> get m k = None \<Longrightarrow> remove k m = m"
  by (rule reremove) auto

end

type_synonym ('k, 'v) btree = "('k \<times> 'v) list"

definition bt_ok :: "('k::linorder, 'v) btree \<Rightarrow> bool" where
  "bt_ok m \<longleftrightarrow> sorted_wrt (<) (map fst m)"

definition bt_get :: "('k, 'v) btree \<Rightarrow> 'k \<Rightarrow> 'v option" where
  "bt_get m k = map_of m k"

fun bt_insert :: "'k::linorder \<Rightarrow> 'v \<Rightarrow> ('k, 'v) btree \<Rightarrow> ('k, 'v) btree" where
  "bt_insert k v [] = [(k, v)]"
| "bt_insert k v (e # m) =
     (if k < fst e then (k, v) # e # m
      else if fst e < k then e # bt_insert k v m
      else (k, v) # m)"

definition bt_remove :: "'k \<Rightarrow> ('k, 'v) btree \<Rightarrow> ('k, 'v) btree" where
  "bt_remove k m = filter (\<lambda>e. fst e \<noteq> k) m"

definition bt_values :: "('k, 'v) btree \<Rightarrow> 'v list" where
  "bt_values m = map snd m"

lemma set_bt_insert_keys: "fst ` set (bt_insert k v m) = insert k (fst ` set m)"
  by (induction m) (auto simp: insert_commute)

lemma bt_ok_Nil [simp]: "bt_ok []"
  by (simp add: bt_ok_def)

lemma bt_ok_Cons:
  "bt_ok (e # m) \<longleftrightarrow> (\<forall>k \<in> fst ` set m. fst e < k) \<and> bt_ok m"
  by (auto simp: bt_ok_def)

lemma bt_ok_insert: "bt_ok m \<Longrightarrow> bt_ok (bt_insert k v m)"
proof (induction m)
  case (Cons e m)
  then show ?case
    by (cases "fst e" k rule: linorder_cases)
      (auto simp: bt_ok_Cons set_bt_insert_keys simp del: split_paired_All)
qed (simp add: bt_ok_def)

lemma bt_ok_filter: "bt_ok m \<Longrightarrow> bt_ok (filter P m)"
  by (induction m) (auto simp: bt_ok_Cons)

lemma bt_get_insert: "bt_ok m \<Longrightarrow> bt_get (bt_insert k v m) = (bt_get m)(k \<mapsto> v)"
proof (induction m)
  case (Cons e m)
  then show ?case
    by (cases e; cases "fst e" k rule: linorder_cases)
      (auto simp: bt_ok_Cons bt_get_def fun_eq_iff)
qed (simp add: bt_get_def fun_eq_iff)

lemma bt_get_remove: "bt_get (bt_remove k m) = (bt_get m)(k := None)"
  by (induction m) (auto simp: bt_get_def bt_remove_def fun_eq_iff)

lemma bt_ok_distinct: "bt_ok m \<Longrightarrow> distinct (map fst m)"
  by (simp add: bt_ok_def strict_sorted_iff)

lemma bt_get_eq_Some: "bt_ok m \<Longrightarrow> bt_get m k = Some v \<longleftrightarrow> (k, v) \<in> set m"
  by (simp add: bt_get_def bt_ok_distinct)

lemma bt_get_eq_None: "bt_get m k = None \<longleftrightarrow> k \<notin> fst ` set m"
  by (simp add: bt_get_def map_of_eq_None_iff)

lemma bt_ext:
  assumes m: "bt_ok m" and n: "bt_ok n" and eq: "bt_get m = bt_get n"
  shows "m = n"
proof -
  have "e \<in> set m \<longleftrightarrow> e \<in> set n" for e
    using bt_get_eq_Some [OF m, of "fst e" "snd e"] bt_get_eq_Some [OF n, of "fst e" "snd e"] eq
    by simp
  then have "set m = set n" by blast
  moreover have "inj_on fst (set m)"
    using bt_ok_distinct [OF m] by (simp add: distinct_map)
  ultimately show ?thesis
    using m n bt_ok_distinct [OF m] bt_ok_distinct [OF n]
    by (intro map_sorted_distinct_set_unique [where f = fst])
      (simp_all add: bt_ok_def strict_sorted_iff)
qed

interpretation btm: ordered_map "[]" bt_get bt_insert bt_remove bt_ok
proof
  show "bt_ok (bt_remove k m)" if "bt_ok m" for k :: 'a and m :: "('a \<times> 'b) list"
    using that by (simp add: bt_remove_def bt_ok_filter)
  show "m = n" if "bt_ok m" "bt_ok n" "bt_get m = bt_get n" for m n :: "('a \<times> 'b) list"
    using that by (rule bt_ext)
qed (simp_all add: bt_get_def [of "[]"] bt_get_insert bt_get_remove bt_ok_insert)

end
