(* ===== verification/Addr_Prefix.thy ===== *)
theory Addr_Prefix
  imports Unf_Prelude
begin

text \<open>
  Address prefixes on words.  A CIDR of length \<open>p\<close> fixes the upper \<open>p\<close> bits; the sources test
  membership with a mask, and the lemmas here turn the mask test into the interval
  \<open>[network, network + 2 ^ n)\<close> of natural numbers with \<open>n\<close> host bits, where counting and
  disjointness are linear arithmetic.
\<close>

definition net_mask :: "nat \<Rightarrow> 'a::len word" where
  "net_mask n = NOT (mask n)"

lemma shifted_ones_net_mask: "push_bit n (- 1) = (net_mask n :: 'a::len word)"
  by (simp add: net_mask_def push_bit_minus_one_eq_not_mask)

lemma unat_and_net_mask:
  fixes x :: "'a::len word"
  shows "unat (x AND net_mask n) = unat x div 2 ^ n * 2 ^ n"
proof -
  have "uint (x AND net_mask n) = push_bit n (drop_bit n (uint x))"
    by (rule bit_eqI) (auto simp: net_mask_def bit_simps dest: bit_imp_le_length)
  then have "uint (x AND net_mask n) = uint x div 2 ^ n * 2 ^ n"
    by (simp add: push_bit_eq_mult drop_bit_eq_div)
  then have "int (unat (x AND net_mask n)) = int (unat x div 2 ^ n * 2 ^ n)"
    by (simp add: of_nat_div)
  then show ?thesis by (simp only: of_nat_eq_iff)
qed

lemma net_mask_full: "LENGTH('a) \<le> n \<Longrightarrow> (net_mask n :: 'a::len word) = 0"
  by (simp add: net_mask_def bit_eq_iff bit_simps not_le)

lemma and_net_mask_eq_iff:
  fixes x y :: "'a::len word"
  shows "x AND net_mask n = y AND net_mask n \<longleftrightarrow> unat x div 2 ^ n = unat y div 2 ^ n"
  by (simp add: word_unat_eq_iff unat_and_net_mask)

lemma in_prefix_iff:
  fixes a net :: "'a::len word"
  assumes "net AND net_mask n = net"
  shows "a AND net_mask n = net \<longleftrightarrow> unat net \<le> unat a \<and> unat a < unat net + 2 ^ n"
proof -
  from assms have net: "unat net = unat net div 2 ^ n * 2 ^ n"
    by (metis unat_and_net_mask)
  have "a AND net_mask n = net \<longleftrightarrow> unat a div 2 ^ n = unat net div 2 ^ n"
    using assms and_net_mask_eq_iff [of a n net] by simp
  also have "\<dots> \<longleftrightarrow> unat net \<le> unat a \<and> unat a < unat net + 2 ^ n"
  proof
    assume eq: "unat a div 2 ^ n = unat net div 2 ^ n"
    have "unat a = unat a div 2 ^ n * 2 ^ n + unat a mod 2 ^ n"
      by (rule div_mult_mod_eq [symmetric])
    with eq net have "unat a = unat net + unat a mod 2 ^ n" by simp
    moreover have "unat a mod 2 ^ n < 2 ^ n" by simp
    ultimately show "unat net \<le> unat a \<and> unat a < unat net + 2 ^ n" by linarith
  next
    assume bounds: "unat net \<le> unat a \<and> unat a < unat net + 2 ^ n"
    define q where "q = unat net div 2 ^ n"
    have "unat a div 2 ^ n = q"
      using bounds net by (intro div_nat_eqI) (simp_all add: q_def algebra_simps)
    then show "unat a div 2 ^ n = unat net div 2 ^ n" by (simp add: q_def)
  qed
  finally show ?thesis .
qed

lemma prefix_fits:
  fixes net :: "'a::len word"
  assumes "net AND net_mask n = net" and "n \<le> LENGTH('a)"
  shows "unat net + 2 ^ n \<le> 2 ^ LENGTH('a)"
proof -
  from assms(1) have net: "unat net = unat net div 2 ^ n * 2 ^ n"
    by (metis unat_and_net_mask)
  have "unat net < 2 ^ (LENGTH('a) - n) * 2 ^ n"
    using assms(2) unsigned_less [of net, where ?'a = nat] by (simp flip: power_add)
  then have "unat net div 2 ^ n < 2 ^ (LENGTH('a) - n)"
    by (simp add: less_mult_imp_div_less)
  then have "(unat net div 2 ^ n + 1) * 2 ^ n \<le> 2 ^ (LENGTH('a) - n) * 2 ^ n"
    by (intro mult_right_mono) auto
  then show ?thesis
    using assms(2) net by (simp add: algebra_simps flip: power_add)
qed

lemma unat_add_offset:
  fixes net :: "'a::len word"
  assumes "net AND net_mask n = net" "n \<le> LENGTH('a)" "k < 2 ^ n"
  shows "unat (net + of_nat k) = unat net + k"
proof -
  have "unat net + k < 2 ^ LENGTH('a)" using prefix_fits [OF assms(1,2)] assms(3) by linarith
  moreover from this have "unat (of_nat k :: 'a word) = k"
    by (simp add: unsigned_of_nat take_bit_nat_eq_self)
  ultimately show ?thesis by (metis unat_add_lem)
qed


text \<open>Two canonical prefixes share an address exactly when they agree above the longer host part.\<close>

lemma prefixes_meet_iff:
  fixes a b :: "'a::len word"
  assumes a: "a AND net_mask m = a" and b: "b AND net_mask n = b"
    and m: "m \<le> LENGTH('a)" and n: "n \<le> LENGTH('a)"
  shows "(\<exists>x. x AND net_mask m = a \<and> x AND net_mask n = b) \<longleftrightarrow>
         a AND net_mask (max m n) = b AND net_mask (max m n)"
proof -
  have coarser: "unat x div 2 ^ max m n = unat y div 2 ^ max m n"
    if "unat x div 2 ^ k = unat y div 2 ^ k" "k \<le> max m n" for x y :: "'a word" and k
  proof -
    have "max m n = k + (max m n - k)" using that(2) by simp
    then show ?thesis using that(1) by (metis div_mult2_eq power_add)
  qed
  show ?thesis
  proof
    assume "\<exists>x. x AND net_mask m = a \<and> x AND net_mask n = b"
    then obtain x where "x AND net_mask m = a AND net_mask m" "x AND net_mask n = b AND net_mask n"
      using a b by auto
    then have "unat x div 2 ^ max m n = unat a div 2 ^ max m n"
      "unat x div 2 ^ max m n = unat b div 2 ^ max m n"
      by (auto simp: and_net_mask_eq_iff intro: coarser)
    then show "a AND net_mask (max m n) = b AND net_mask (max m n)"
      by (simp add: and_net_mask_eq_iff)
  next
    assume eq: "a AND net_mask (max m n) = b AND net_mask (max m n)"
    show "\<exists>x. x AND net_mask m = a \<and> x AND net_mask n = b"
    proof (cases "m \<le> n")
      case True
      then have "a AND net_mask n = b" using eq b by (simp add: max_def)
      then show ?thesis using a by blast
    next
      case False
      then have "b AND net_mask m = a" using eq a by (simp add: max_def)
      then show ?thesis using b by blast
    qed
  qed
qed

end
