(* ===== verification/Ip_Text.thy ===== *)
theory Ip_Text
  imports Addr_Prefix
begin

text \<open>
  Text forms of numbers and addresses as the standard library reads and prints them: decimal numerals,
  \<open>str::split_once\<close>, the integer parser, and the address parsers with their rules on digits, leading
  zeros, separators and the double colon.  Strings are their UTF-8 bytes.
\<close>

section \<open>Numerals\<close>

fun decimal :: "nat \<Rightarrow> string" where
  "decimal n = (if n < 10 then [char_of (48 + n)] else decimal (n div 10) @ [char_of (48 + n mod 10)])"

declare decimal.simps [simp del]

definition digit_value :: "nat \<Rightarrow> char \<Rightarrow> nat option" where
  "digit_value radix c = (let n = of_char c :: nat;
     v = (if 48 \<le> n \<and> n \<le> 57 then n - 48 else if 97 \<le> n \<and> n \<le> 122 then n - 87
          else if 65 \<le> n \<and> n \<le> 90 then n - 55 else radix)
   in if v < radix then Some v else None)"

definition is_digit :: "nat \<Rightarrow> char \<Rightarrow> bool" where
  "is_digit radix c \<longleftrightarrow> digit_value radix c \<noteq> None"

definition digits_value :: "nat \<Rightarrow> string \<Rightarrow> nat" where
  "digits_value radix = foldl (\<lambda>n c. n * radix + the (digit_value radix c)) 0"

definition split_once :: "char \<Rightarrow> string \<Rightarrow> (string \<times> string) option" where
  "split_once c s = (case dropWhile (\<lambda>x. x \<noteq> c) s of [] \<Rightarrow> None | _ # rest \<Rightarrow> Some (takeWhile (\<lambda>x. x \<noteq> c) s, rest))"

definition parse_u8 :: "string \<Rightarrow> u8 option" where
  "parse_u8 s = (let ds = (case s of [] \<Rightarrow> [] | c # rest \<Rightarrow> if c = CHR ''+'' then rest else s) in
     if ds = [] \<or> \<not> list_all (is_digit 10) ds \<or> digits_value 10 ds \<ge> 256 then None else Some (of_nat (digits_value 10 ds)))"

section \<open>Addresses\<close>

definition read_number :: "nat \<Rightarrow> nat \<Rightarrow> nat \<Rightarrow> bool \<Rightarrow> string \<Rightarrow> (nat \<times> string) option" where
  "read_number radix max_digits bound allow_zero_prefix s =
     (let ds = takeWhile (is_digit radix) s in
      if ds = [] \<or> length ds > max_digits \<or> \<not> allow_zero_prefix \<and> hd ds = CHR ''0'' \<and> length ds > 1 \<or>
         digits_value radix ds \<ge> bound
      then None else Some (digits_value radix ds, drop (length ds) s))"

definition read_separator :: "char \<Rightarrow> nat \<Rightarrow> (string \<Rightarrow> ('a \<times> string) option) \<Rightarrow> string \<Rightarrow> ('a \<times> string) option" where
  "read_separator c index inner s = (if index = 0 then inner s else
     case s of [] \<Rightarrow> None | x # rest \<Rightarrow> if x = c then inner rest else None)"

definition read_octet :: "nat \<Rightarrow> string \<Rightarrow> (nat \<times> string) option" where
  "read_octet index = read_separator (CHR ''.'') index (read_number 10 3 256 False)"

definition read_ipv4_addr :: "string \<Rightarrow> (u32 \<times> string) option" where
  "read_ipv4_addr s =
     Option.bind (read_octet 0 s) (\<lambda>(a, s). Option.bind (read_octet 1 s) (\<lambda>(b, s).
     Option.bind (read_octet 2 s) (\<lambda>(c, s). Option.bind (read_octet 3 s) (\<lambda>(d, s).
     Some (of_nat (((a * 256 + b) * 256 + c) * 256 + d), s)))))"

definition parse_ipv4 :: "string \<Rightarrow> u32 option" where
  "parse_ipv4 s = (if length s > 15 then None else case read_ipv4_addr s of Some (a, []) \<Rightarrow> Some a | _ \<Rightarrow> None)"

text \<open>The groups of one side of an address; the flag says that the last two came from an IPv4 address.\<close>

function read_groups :: "nat \<Rightarrow> nat \<Rightarrow> string \<Rightarrow> nat list \<times> bool \<times> string" where
  "read_groups limit i s = (if i \<ge> limit then ([], False, s) else
     case (if i + 1 < limit then read_separator (CHR '':'') i read_ipv4_addr s else None) of
       Some (a, rest) \<Rightarrow> ([unat a div 65536, unat a mod 65536], True, rest)
     | None \<Rightarrow>
       (case read_separator (CHR '':'') i (read_number 16 4 65536 True) s of
          None \<Rightarrow> ([], False, s)
        | Some (g, rest) \<Rightarrow> let (gs, ipv4, rest) = read_groups limit (i + 1) rest in (g # gs, ipv4, rest)))"
  by pat_completeness auto
termination by (relation "measure (\<lambda>(limit, i, s). limit - i)") auto

definition of_groups :: "nat list \<Rightarrow> u128" where
  "of_groups gs = of_nat (foldl (\<lambda>n g. n * 65536 + g) 0 gs)"

definition read_ipv6_addr :: "string \<Rightarrow> (u128 \<times> string) option" where
  "read_ipv6_addr s =
     (let (head, head_ipv4, s) = read_groups 8 0 s in
      if length head = 8 then Some (of_groups head, s) else if head_ipv4 then None else
      case s of a # b # s \<Rightarrow>
          if a \<noteq> CHR '':'' \<or> b \<noteq> CHR '':'' then None else
          let (tail, _, s) = read_groups (8 - (length head + 1)) 0 s
          in Some (of_groups (head @ replicate (8 - length head - length tail) 0 @ tail), s)
      | _ \<Rightarrow> None)"

definition parse_ipv6 :: "string \<Rightarrow> u128 option" where
  "parse_ipv6 s = (case read_ipv6_addr s of Some (a, []) \<Rightarrow> Some a | _ \<Rightarrow> None)"

text \<open>The display form of an IPv4 address.\<close>

definition show_ipv4 :: "u32 \<Rightarrow> string" where
  "show_ipv4 a = (let n = unat a in decimal (n div 16777216) @ ''.'' @ decimal (n div 65536 mod 256) @ ''.'' @
     decimal (n div 256 mod 256) @ ''.'' @ decimal (n mod 256))"

section \<open>Numerals are read back\<close>

lemma digit_char:
  assumes "m < 10"
  shows "digit_value 10 (char_of (48 + m)) = Some m" "is_digit 10 (char_of (48 + m))" "char_of (48 + m) = CHR ''0'' \<longleftrightarrow> m = 0"
proof -
  have n: "(of_char (char_of (48 + m) :: char) :: nat) = 48 + m" using assms by simp
  show "digit_value 10 (char_of (48 + m)) = Some m" using assms by (simp add: digit_value_def n Let_def)
  then show "is_digit 10 (char_of (48 + m))" by (simp add: is_digit_def)
  have "char_of (48 + m) = CHR ''0'' \<longleftrightarrow> (of_char (char_of (48 + m) :: char) :: nat) = of_char (CHR ''0'')"
    by (simp only: of_char_eq_iff)
  then show "char_of (48 + m) = CHR ''0'' \<longleftrightarrow> m = 0" unfolding n by simp
qed

lemma decimal_digits: "list_all (is_digit 10) (decimal n)" "decimal n \<noteq> []" "digits_value 10 (decimal n) = n"
proof (induction n rule: decimal.induct)
  case (1 n)
  {
    case 1
    show ?case using \<open>\<not> n < 10 \<Longrightarrow> list_all (is_digit 10) (decimal (n div 10))\<close> digit_char(2) [of n] digit_char(2) [of "n mod 10"]
      by (simp add: decimal.simps [of n])
  next
    case 2
    show ?case by (simp add: decimal.simps [of n])
  next
    case 3
    show ?case using \<open>\<not> n < 10 \<Longrightarrow> digits_value 10 (decimal (n div 10)) = n div 10\<close> digit_char(1) [of n] digit_char(1) [of "n mod 10"]
      by (simp add: decimal.simps [of n] digits_value_def)
  }
qed

lemma decimal_head: "1 < length (decimal n) \<Longrightarrow> hd (decimal n) \<noteq> CHR ''0''"
proof (induction n rule: decimal.induct)
  case (1 n)
  then have n: "\<not> n < 10" by (auto simp: decimal.simps [of n] split: if_splits)
  then have "hd (decimal n) = hd (decimal (n div 10))" using decimal_digits(2) by (simp add: decimal.simps [of n])
  moreover have "hd (decimal (n div 10)) \<noteq> CHR ''0''"
  proof (cases "n div 10 < 10")
    case True
    then show ?thesis using n digit_char(3) [OF True] by (simp add: decimal.simps [of "n div 10"])
  next
    case False
    then show ?thesis using 1(1) [OF n] decimal_digits(2) [of "n div 10 div 10"] by (simp add: decimal.simps [of "n div 10"])
  qed
  ultimately show ?case by simp
qed

lemma decimal_octet_length: "n < 256 \<Longrightarrow> length (decimal n) \<le> 3"
  by (simp add: decimal.simps [of n] decimal.simps [of "n div 10"] decimal.simps [of "n div 10 div 10"])

lemma digit_step: "digits_value radix (ds @ [c]) = digits_value radix ds * radix + the (digit_value radix c)"
  by (simp add: digits_value_def)

lemma digit_char_of:
  assumes "digit_value 10 c = Some v"
  shows "c = char_of (48 + v)" "v < 10"
proof -
  have "of_char c = 48 + v \<and> v < 10" using assms by (simp add: digit_value_def Let_def split: if_splits)
  then show "c = char_of (48 + v)" "v < 10" by (metis char_of_char, simp)
qed

lemma digits_pos: "list_all (is_digit 10) ds \<Longrightarrow> ds \<noteq> [] \<Longrightarrow> hd ds \<noteq> CHR ''0'' \<Longrightarrow> 0 < digits_value 10 ds"
proof (induction ds rule: rev_induct)
  case (snoc c ds)
  obtain v where v: "digit_value 10 c = Some v" using snoc.prems(1) by (auto simp: is_digit_def)
  show ?case
  proof (cases ds)
    case Nil
    then show ?thesis using snoc.prems(3) v digit_char_of [OF v] digit_char(3) [of v] by (auto simp: digits_value_def)
  next
    case (Cons d es)
    then have "0 < digits_value 10 ds" using snoc by simp
    then show ?thesis by (simp add: digit_step)
  qed
qed simp

lemma decimal_unique:
  assumes "list_all (is_digit 10) ds" "ds \<noteq> []" "hd ds \<noteq> CHR ''0'' \<or> length ds = 1"
  shows "decimal (digits_value 10 ds) = ds"
  using assms
proof (induction ds rule: rev_induct)
  case (snoc c ds)
  obtain v where v: "digit_value 10 c = Some v" using snoc.prems(1) by (auto simp: is_digit_def)
  note c = digit_char_of [OF v]
  show ?case
  proof (cases "ds = []")
    case True
    then show ?thesis using c v by (simp add: digits_value_def decimal.simps)
  next
    case False
    then have head: "hd ds \<noteq> CHR ''0''" using snoc.prems(3) by simp
    have pos: "0 < digits_value 10 ds" by (rule digits_pos) (use snoc.prems False head in simp_all)
    have ds: "decimal (digits_value 10 ds) = ds" by (rule snoc.IH) (use snoc.prems False head in simp_all)
    have "decimal (digits_value 10 ds * 10 + v) = decimal (digits_value 10 ds) @ [char_of (48 + v)]"
      using pos c(2) by (subst decimal.simps) simp
    then show ?thesis by (simp add: digit_step v ds flip: c(1))
  qed
qed simp

section \<open>Addresses are read back\<close>

definition ends_number :: "string \<Rightarrow> bool" where
  "ends_number s \<longleftrightarrow> (case s of [] \<Rightarrow> True | c # _ \<Rightarrow> \<not> is_digit 10 c)"

lemma take_digits:
  assumes "list_all (is_digit 10) ds" "ends_number rest"
  shows "takeWhile (is_digit 10) (ds @ rest) = ds"
  using assms by (induction ds) (auto simp: ends_number_def split: list.splits)

lemma read_octet_decimal:
  assumes "n < 256" "ends_number rest"
  shows "read_number 10 3 256 False (decimal n @ rest) = Some (n, rest)"
  using take_digits [OF decimal_digits(1) assms(2)] decimal_digits(2,3) decimal_head [of n] decimal_octet_length [OF assms(1)] assms(1)
  by (auto simp: read_number_def Let_def)

lemma read_octet_unique:
  assumes "read_number 10 3 256 False s = Some (n, rest)"
  shows "s = decimal n @ rest" "n < 256" "ends_number rest"
proof -
  let ?ds = "takeWhile (is_digit 10) s"
  have ds: "?ds \<noteq> []" "hd ?ds \<noteq> CHR ''0'' \<or> length ?ds = 1" "n = digits_value 10 ?ds" "n < 256" "rest = drop (length ?ds) s"
    using assms by (auto simp: read_number_def Let_def not_less le_Suc_eq split: if_splits)
  have "list_all (is_digit 10) ?ds" by (auto simp: list_all_iff dest: set_takeWhileD)
  note u = decimal_unique [OF this ds(1,2)]
  have rest: "rest = dropWhile (is_digit 10) s" unfolding ds(5) by (simp add: dropWhile_eq_drop)
  then show "s = decimal n @ rest" using u by (simp add: ds(3))
  show "n < 256" by (rule ds(4))
  show "ends_number rest" by (auto simp: rest ends_number_def dropWhile_eq_Cons_conv split: list.split)
qed

lemma ends_dot: "ends_number (CHR ''.'' # s)" "ends_number (CHR ''/'' # s)" "ends_number []"
  by (simp_all add: ends_number_def is_digit_def digit_value_def)

lemma quarters: "(n :: nat) div 65536 = n div 256 div 256" "n div 16777216 = n div 256 div 256 div 256"
  by (simp_all add: div_mult2_eq [symmetric])

lemma octets:
  assumes "a < 256" "b < 256" "c < 256" "d < 256" "n = ((a * 256 + b) * 256 + c) * 256 + d"
  shows "unat (of_nat n :: u32) = n" "n div 16777216 = a" "n div 65536 mod 256 = b" "n div 256 mod 256 = c" "n mod 256 = d"
proof -
  have "n < 2 ^ 32" using assms by simp
  then show "unat (of_nat n :: u32) = n" by (simp add: unsigned_of_nat take_bit_nat_eq_self)
  have join: "(m * 256 + k) div 256 = m" "(m * 256 + k) mod 256 = k" if "k < 256" for m k :: nat using that by simp_all
  have c: "n div 256 = (a * 256 + b) * 256 + c" "n mod 256 = d" unfolding assms(5) by (rule join [OF assms(4)])+
  have b: "n div 256 div 256 = a * 256 + b" "n div 256 mod 256 = c" unfolding c(1) by (rule join [OF assms(3)])+
  show "n div 16777216 = a" "n div 65536 mod 256 = b" unfolding quarters b(1) by (rule join [OF assms(2)])+
  show "n div 256 mod 256 = c" "n mod 256 = d" by (rule b c)+
qed

lemma high_octet: "unat (a :: u32) div 16777216 < 256"
  using unsigned_less [of a, where ?'a = nat] by simp

lemma read_ipv4_show:
  assumes "ends_number rest"
  shows "read_ipv4_addr (show_ipv4 a @ rest) = Some (a, rest)"
proof -
  have sum: "((unat a div 16777216 * 256 + unat a div 65536 mod 256) * 256 + unat a div 256 mod 256) * 256 + unat a mod 256 = unat a"
    using quarters [of "unat a"] div_mult_mod_eq [of "unat a" 256] div_mult_mod_eq [of "unat a div 256" 256]
      div_mult_mod_eq [of "unat a div 256 div 256" 256] by simp
  then have "(of_nat (((unat a div 16777216 * 256 + unat a div 65536 mod 256) * 256 + unat a div 256 mod 256) * 256 + unat a mod 256) :: u32) = a"
    by (simp only:) simp
  then show ?thesis
    using high_octet [of a] assms
    by (simp add: read_ipv4_addr_def show_ipv4_def Let_def read_octet_def read_separator_def read_octet_decimal ends_dot)
qed

lemma read_ipv4_unique:
  assumes "read_ipv4_addr s = Some (a, rest)"
  shows "s = show_ipv4 a @ rest"
proof -
  from assms obtain w x y z r1 r2 r3 where
    r: "read_octet 0 s = Some (w, r1)" "read_octet 1 r1 = Some (x, r2)" "read_octet 2 r2 = Some (y, r3)" "read_octet 3 r3 = Some (z, rest)"
    and a: "a = of_nat (((w * 256 + x) * 256 + y) * 256 + z)"
    by (auto simp: read_ipv4_addr_def split: Option.bind_splits)
  have next_octet: "\<exists>q. r = CHR ''.'' # q \<and> read_number 10 3 256 False q = Some (n, t)"
    if "read_octet i r = Some (n, t)" "i \<noteq> 0" for i r n t
    using that by (auto simp: read_octet_def read_separator_def split: list.splits if_splits)
  obtain q1 q2 q3 where q: "r1 = CHR ''.'' # q1" "read_number 10 3 256 False q1 = Some (x, r2)"
    "r2 = CHR ''.'' # q2" "read_number 10 3 256 False q2 = Some (y, r3)"
    "r3 = CHR ''.'' # q3" "read_number 10 3 256 False q3 = Some (z, rest)"
    using next_octet [OF r(2)] next_octet [OF r(3)] next_octet [OF r(4)] by auto
  have "read_number 10 3 256 False s = Some (w, r1)" using r(1) by (simp add: read_octet_def read_separator_def)
  note u = read_octet_unique [OF this] read_octet_unique [OF q(2)] read_octet_unique [OF q(4)] read_octet_unique [OF q(6)]
  note n = octets [OF u(2,5,8,11) refl]
  have "unat a = ((w * 256 + x) * 256 + y) * 256 + z" unfolding a by (rule n)
  then have "unat a div 16777216 = w" "unat a div 65536 mod 256 = x" "unat a div 256 mod 256 = y" "unat a mod 256 = z"
    using n(2-5) by simp_all
  then show ?thesis using u(1,4,7,10) q(1,3,5) by (simp add: show_ipv4_def Let_def)
qed

lemma show_ipv4_length: "length (show_ipv4 a) \<le> 15"
proof -
  from decimal_octet_length [OF high_octet, of a] decimal_octet_length [of "unat a div 65536 mod 256"]
    decimal_octet_length [of "unat a div 256 mod 256"] decimal_octet_length [of "unat a mod 256"]
  show ?thesis by (simp add: show_ipv4_def Let_def)
qed

text \<open>An IPv4 address has exactly one text form.\<close>

lemma parse_ipv4_iff: "parse_ipv4 s = Some a \<longleftrightarrow> s = show_ipv4 a"
proof
  assume "parse_ipv4 s = Some a"
  then have "read_ipv4_addr s = Some (a, [])" by (auto simp: parse_ipv4_def split: if_splits option.splits list.splits)
  then show "s = show_ipv4 a" using read_ipv4_unique by fastforce
next
  assume "s = show_ipv4 a"
  then show "parse_ipv4 s = Some a"
    using read_ipv4_show [OF ends_dot(3), of a] show_ipv4_length [of a] by (simp add: parse_ipv4_def)
qed

lemma parse_u8_decimal: "n < 256 \<Longrightarrow> parse_u8 (decimal n) = Some (of_nat n)"
proof -
  assume n: "n < 256"
  have "hd (decimal n) \<noteq> CHR ''+''"
    using decimal_digits(1,2) [of n] by (cases "decimal n") (auto simp: is_digit_def digit_value_def)
  then show ?thesis using n decimal_digits [of n] by (cases "decimal n") (auto simp: parse_u8_def Let_def)
qed

lemma split_once_iff: "split_once c s = Some (a, b) \<longleftrightarrow> s = a @ c # b \<and> c \<notin> set a"
proof
  assume "split_once c s = Some (a, b)"
  then obtain x where x: "dropWhile (\<lambda>x. x \<noteq> c) s = x # b" "a = takeWhile (\<lambda>x. x \<noteq> c) s"
    by (auto simp: split_once_def split: list.splits)
  then have "x = c" by (auto simp: dropWhile_eq_Cons_conv)
  moreover have "s = a @ x # b" using x takeWhile_dropWhile_id [of "\<lambda>x. x \<noteq> c" s] by simp
  moreover have "c \<notin> set a" unfolding x(2) by (auto dest: set_takeWhileD)
  ultimately show "s = a @ c # b \<and> c \<notin> set a" by simp
next
  assume "s = a @ c # b \<and> c \<notin> set a"
  then show "split_once c s = Some (a, b)" by (auto simp: split_once_def takeWhile_append dropWhile_append)
qed

lemma slash_not_shown: "CHR ''/'' \<notin> set (show_ipv4 a)" "CHR ''/'' \<notin> set (decimal n)"
proof -
  have d: "CHR ''/'' \<notin> set (decimal n)" for n
    using decimal_digits(1) [of n] by (auto simp: list_all_iff is_digit_def digit_value_def)
  then show "CHR ''/'' \<notin> set (decimal n)" "CHR ''/'' \<notin> set (show_ipv4 a)" by (auto simp: show_ipv4_def Let_def)
qed

end
