(* ===== verification/Ipam.thy ===== *)
theory Ipam
  imports Ip_Text
begin

text \<open>
  The node-block address manager of \<^verbatim>\<open>crates/unf-ipam/src/lib.rs\<close>: canonical IPv4 and IPv6 node
  blocks, the usage snapshot \<open>UsedAddresses\<close>, and the provider that selects and validates
  dual-stack leases.  Addresses are words of their width, so the sums of the source wrap here as
  they would there; \<open>unat_candidate\<close> and its companions show that no sum of a well-formed block
  wraps.  An error carries the values its message is formatted from.  The sets of the snapshot are
  only tested for membership and size, so they are sets.
\<close>

section \<open>Data\<close>

definition MAX_NODE_LEASES :: nat where
  "MAX_NODE_LEASES = 65536"

datatype AddressFamily = Ipv4 | Ipv6

datatype IpAddr = V4 u32 | V6 u128

text \<open>The text an error message quotes: as given, or formatted from an address and a prefix length.\<close>

datatype cidr_text = CidrText string | CidrV4 u32 u8 | CidrV6 u128 u8

record Ipv4Lease =
  v4_address :: u32
  v4_gateway :: u32
  v4_prefix_len :: u8

record Ipv6Lease =
  v6_address :: u128
  v6_gateway :: u128
  v6_prefix_len :: u8

record DualStackLease =
  lease_ipv4 :: Ipv4Lease
  lease_ipv6 :: Ipv6Lease

record Ipv4NodeBlock =
  v4_network :: u32
  v4_block_len :: u8

record Ipv6NodeBlock =
  v6_network :: u128
  v6_block_len :: u8

datatype IpamError =
    InvalidBlock AddressFamily cidr_text string
  | Exhausted AddressFamily nat
  | DuplicateLease AddressFamily IpAddr
  | MissingLease
  | ForeignLease u32 u128 Ipv4NodeBlock Ipv6NodeBlock

record UsedAddresses =
  used_leases :: "DualStackLease set"
  used_ipv4 :: "u32 set"
  used_ipv6 :: "u128 set"

record NodeBlockProvider =
  ipv4_block :: Ipv4NodeBlock
  ipv6_block :: Ipv6NodeBlock

abbreviation addr4 :: "DualStackLease \<Rightarrow> u32" where
  "addr4 l \<equiv> v4_address (lease_ipv4 l)"

abbreviation addr6 :: "DualStackLease \<Rightarrow> u128" where
  "addr6 l \<equiv> v6_address (lease_ipv6 l)"

section \<open>IPv4 node blocks\<close>

definition prefix_mask_v4 :: "u8 \<Rightarrow> u32" where
  "prefix_mask_v4 prefix_len =
     (if prefix_len = 0 then 0 else push_bit (32 - unat prefix_len) (- 1))"

definition Ipv4NodeBlock_new :: "u32 \<Rightarrow> u8 \<Rightarrow> (IpamError, Ipv4NodeBlock) res" where
  "Ipv4NodeBlock_new network prefix_len =
     (if prefix_len > 30 then
        Err (InvalidBlock Ipv4 (CidrV4 network prefix_len) ''prefix must be between /0 and /30'')
      else let msk = prefix_mask_v4 prefix_len in
      if network AND msk \<noteq> network then
        Err (InvalidBlock Ipv4 (CidrV4 network prefix_len)
          ''address is not the canonical network boundary'')
      else Ok \<lparr>v4_network = network, v4_block_len = prefix_len\<rparr>)"

definition v4_block_gateway :: "Ipv4NodeBlock \<Rightarrow> u32" where
  "v4_block_gateway b = v4_network b + 1"

definition v4_proof_beacon :: "Ipv4NodeBlock \<Rightarrow> u32" where
  "v4_proof_beacon b =
     (let host_mask = NOT (prefix_mask_v4 (v4_block_len b)) in (v4_network b OR host_mask) - 1)"

definition v4_bounded_capacity :: "Ipv4NodeBlock \<Rightarrow> nat" where
  "v4_bounded_capacity b =
     (let addresses = 2 ^ (32 - unat (v4_block_len b)) in min (addresses - 4) MAX_NODE_LEASES)"

definition v4_overlaps :: "Ipv4NodeBlock \<Rightarrow> Ipv4NodeBlock \<Rightarrow> bool" where
  "v4_overlaps b c =
     (let msk = prefix_mask_v4 (min (v4_block_len b) (v4_block_len c))
      in v4_network b AND msk = v4_network c AND msk)"

definition v4_contains :: "Ipv4NodeBlock \<Rightarrow> u32 \<Rightarrow> bool" where
  "v4_contains b address \<longleftrightarrow> address AND prefix_mask_v4 (v4_block_len b) = v4_network b"

definition v4_candidate :: "Ipv4NodeBlock \<Rightarrow> nat \<Rightarrow> u32" where
  "v4_candidate b index = v4_network b + (of_nat index + 2)"

definition v4_contains_workload :: "Ipv4NodeBlock \<Rightarrow> u32 \<Rightarrow> bool" where
  "v4_contains_workload b address =
     (let network = v4_network b;
          total = (2::nat) ^ (32 - unat (v4_block_len b));
          offset = unat address - unat network
      in v4_contains b address \<and> network \<le> address \<and> 2 \<le> offset \<and> offset < total - 1)"

section \<open>IPv6 node blocks\<close>

definition prefix_mask_v6 :: "u8 \<Rightarrow> u128" where
  "prefix_mask_v6 prefix_len =
     (if prefix_len = 0 then 0 else push_bit (128 - unat prefix_len) (- 1))"

definition Ipv6NodeBlock_new :: "u128 \<Rightarrow> u8 \<Rightarrow> (IpamError, Ipv6NodeBlock) res" where
  "Ipv6NodeBlock_new network prefix_len =
     (if prefix_len > 126 then
        Err (InvalidBlock Ipv6 (CidrV6 network prefix_len) ''prefix must be between /0 and /126'')
      else let msk = prefix_mask_v6 prefix_len in
      if network AND msk \<noteq> network then
        Err (InvalidBlock Ipv6 (CidrV6 network prefix_len)
          ''address is not the canonical network boundary'')
      else Ok \<lparr>v6_network = network, v6_block_len = prefix_len\<rparr>)"

definition v6_block_gateway :: "Ipv6NodeBlock \<Rightarrow> u128" where
  "v6_block_gateway b = v6_network b + 1"

definition v6_proof_beacon :: "Ipv6NodeBlock \<Rightarrow> u128" where
  "v6_proof_beacon b = v6_network b"

definition v6_bounded_capacity :: "Ipv6NodeBlock \<Rightarrow> nat" where
  "v6_bounded_capacity b =
     (if v6_block_len b \<le> 111 then MAX_NODE_LEASES
      else 2 ^ (128 - unat (v6_block_len b)) - 2)"

definition v6_overlaps :: "Ipv6NodeBlock \<Rightarrow> Ipv6NodeBlock \<Rightarrow> bool" where
  "v6_overlaps b c =
     (let msk = prefix_mask_v6 (min (v6_block_len b) (v6_block_len c))
      in v6_network b AND msk = v6_network c AND msk)"

definition v6_contains :: "Ipv6NodeBlock \<Rightarrow> u128 \<Rightarrow> bool" where
  "v6_contains b address \<longleftrightarrow> address AND prefix_mask_v6 (v6_block_len b) = v6_network b"

definition v6_candidate :: "Ipv6NodeBlock \<Rightarrow> nat \<Rightarrow> u128" where
  "v6_candidate b index = v6_network b + (of_nat index + 2)"

definition v6_contains_workload :: "Ipv6NodeBlock \<Rightarrow> u128 \<Rightarrow> bool" where
  "v6_contains_workload b address \<longleftrightarrow>
     v6_network b \<le> address \<and> v6_contains b address \<and> 2 \<le> unat address - unat (v6_network b)"

section \<open>The usage snapshot\<close>

definition used_empty :: UsedAddresses where
  "used_empty = \<lparr>used_leases = {}, used_ipv4 = {}, used_ipv6 = {}\<rparr>"

definition used_insert :: "UsedAddresses \<Rightarrow> DualStackLease \<Rightarrow> (IpamError, UsedAddresses) res" where
  "used_insert used lease =
     (if addr4 lease \<in> used_ipv4 used then Err (DuplicateLease Ipv4 (V4 (addr4 lease)))
      else if addr6 lease \<in> used_ipv6 used then Err (DuplicateLease Ipv6 (V6 (addr6 lease)))
      else Ok \<lparr>used_leases = insert lease (used_leases used),
               used_ipv4 = insert (addr4 lease) (used_ipv4 used),
               used_ipv6 = insert (addr6 lease) (used_ipv6 used)\<rparr>)"

definition used_remove :: "UsedAddresses \<Rightarrow> DualStackLease \<Rightarrow> (IpamError, UsedAddresses) res" where
  "used_remove used lease =
     (if lease \<notin> used_leases used then Err MissingLease
      else Ok \<lparr>used_leases = used_leases used - {lease},
               used_ipv4 = used_ipv4 used - {addr4 lease},
               used_ipv6 = used_ipv6 used - {addr6 lease}\<rparr>)"

definition used_from_leases :: "DualStackLease list \<Rightarrow> (IpamError, UsedAddresses) res" where
  "used_from_leases leases = try_fold used_insert used_empty leases"

definition used_len :: "UsedAddresses \<Rightarrow> nat" where
  "used_len used = card (used_leases used)"

section \<open>The node-block provider\<close>

definition allocate :: "NodeBlockProvider \<Rightarrow> UsedAddresses \<Rightarrow> (IpamError, DualStackLease) res" where
  "allocate p used =
     (let b4 = ipv4_block p; b6 = ipv6_block p in
      if MAX_NODE_LEASES \<le> used_len used then Err (Exhausted Ipv4 MAX_NODE_LEASES)
      else case find (\<lambda>c. c \<notin> used_ipv4 used) (map (v4_candidate b4) [0..<v4_bounded_capacity b4]) of
        None \<Rightarrow> Err (Exhausted Ipv4 (v4_bounded_capacity b4))
      | Some ipv4 \<Rightarrow>
        (case find (\<lambda>c. c \<notin> used_ipv6 used) (map (v6_candidate b6) [0..<v6_bounded_capacity b6]) of
           None \<Rightarrow> Err (Exhausted Ipv6 (v6_bounded_capacity b6))
         | Some ipv6 \<Rightarrow> Ok \<lparr>
             lease_ipv4 = \<lparr>v4_address = ipv4, v4_gateway = v4_block_gateway b4,
                           v4_prefix_len = v4_block_len b4\<rparr>,
             lease_ipv6 = \<lparr>v6_address = ipv6, v6_gateway = v6_block_gateway b6,
                           v6_prefix_len = v6_block_len b6\<rparr>\<rparr>))"

definition validate :: "NodeBlockProvider \<Rightarrow> DualStackLease \<Rightarrow> (IpamError, unit) res" where
  "validate p lease =
     (let b4 = ipv4_block p; b6 = ipv6_block p;
          valid = (v4_prefix_len (lease_ipv4 lease) = v4_block_len b4
            \<and> v4_gateway (lease_ipv4 lease) = v4_block_gateway b4
            \<and> v4_contains_workload b4 (addr4 lease)
            \<and> v6_prefix_len (lease_ipv6 lease) = v6_block_len b6
            \<and> v6_gateway (lease_ipv6 lease) = v6_block_gateway b6
            \<and> v6_contains_workload b6 (addr6 lease))
      in if valid then Ok () else Err (ForeignLease (addr4 lease) (addr6 lease) b4 b6))"

section \<open>Text forms\<close>

definition split_cidr :: "string \<Rightarrow> AddressFamily \<Rightarrow> (IpamError, string \<times> string) res" where
  "split_cidr value family = (case split_once (CHR ''/'') value of
       None \<Rightarrow> Err (InvalidBlock family (CidrText value) ''CIDR must contain one slash'')
     | Some (address, prefix) \<Rightarrow>
         if address = [] \<or> prefix = [] \<or> CHR ''/'' \<in> set prefix
         then Err (InvalidBlock family (CidrText value) ''CIDR must contain exactly one address and prefix'')
         else Ok (address, prefix))"

definition parse_prefix :: "string \<Rightarrow> string \<Rightarrow> AddressFamily \<Rightarrow> (IpamError, u8) res" where
  "parse_prefix prefix value family = (case parse_u8 prefix of
       None \<Rightarrow> Err (InvalidBlock family (CidrText value) ''invalid prefix'') | Some p \<Rightarrow> Ok p)"

definition Ipv4NodeBlock_from_str :: "string \<Rightarrow> (IpamError, Ipv4NodeBlock) res" where
  "Ipv4NodeBlock_from_str value =
     rbind (split_cidr value Ipv4) (\<lambda>(address, prefix).
     rbind (case parse_ipv4 address of None \<Rightarrow> Err (InvalidBlock Ipv4 (CidrText value) ''invalid address'') | Some a \<Rightarrow> Ok a) (\<lambda>address.
     rbind (parse_prefix prefix value Ipv4) (\<lambda>prefix.
     Ipv4NodeBlock_new address prefix)))"

definition Ipv6NodeBlock_from_str :: "string \<Rightarrow> (IpamError, Ipv6NodeBlock) res" where
  "Ipv6NodeBlock_from_str value =
     rbind (split_cidr value Ipv6) (\<lambda>(address, prefix).
     rbind (case parse_ipv6 address of None \<Rightarrow> Err (InvalidBlock Ipv6 (CidrText value) ''invalid address'') | Some a \<Rightarrow> Ok a) (\<lambda>address.
     rbind (parse_prefix prefix value Ipv6) (\<lambda>prefix.
     Ipv6NodeBlock_new address prefix)))"

definition Ipv4NodeBlock_show :: "Ipv4NodeBlock \<Rightarrow> string" where
  "Ipv4NodeBlock_show b = show_ipv4 (v4_network b) @ ''/'' @ decimal (unat (v4_block_len b))"

section \<open>Well-formed blocks\<close>

definition v4_block_ok :: "Ipv4NodeBlock \<Rightarrow> bool" where
  "v4_block_ok b \<longleftrightarrow> Ipv4NodeBlock_new (v4_network b) (v4_block_len b) = Ok b"

definition v6_block_ok :: "Ipv6NodeBlock \<Rightarrow> bool" where
  "v6_block_ok b \<longleftrightarrow> Ipv6NodeBlock_new (v6_network b) (v6_block_len b) = Ok b"

definition provider_ok :: "NodeBlockProvider \<Rightarrow> bool" where
  "provider_ok p \<longleftrightarrow> v4_block_ok (ipv4_block p) \<and> v6_block_ok (ipv6_block p)"

abbreviation v4_bits :: "Ipv4NodeBlock \<Rightarrow> nat" where
  "v4_bits b \<equiv> 32 - unat (v4_block_len b)"

abbreviation v6_bits :: "Ipv6NodeBlock \<Rightarrow> nat" where
  "v6_bits b \<equiv> 128 - unat (v6_block_len b)"

lemma prefix_mask_v4_net_mask: "prefix_mask_v4 len = net_mask (32 - unat len)"
  by (auto simp: prefix_mask_v4_def net_mask_full) (simp add: net_mask_def)

lemma prefix_mask_v6_net_mask: "prefix_mask_v6 len = net_mask (128 - unat len)"
  by (auto simp: prefix_mask_v6_def net_mask_full) (simp add: net_mask_def)

lemma v4_block_okD:
  assumes "v4_block_ok b"
  shows "2 \<le> v4_bits b" "v4_bits b \<le> 32" "v4_network b AND net_mask (v4_bits b) = v4_network b"
  using assms
  by (auto simp: v4_block_ok_def Ipv4NodeBlock_new_def Let_def prefix_mask_v4_net_mask
      word_less_nat_alt split: if_splits)

lemma v6_block_okD:
  assumes "v6_block_ok b"
  shows "2 \<le> v6_bits b" "v6_bits b \<le> 128" "v6_network b AND net_mask (v6_bits b) = v6_network b"
  using assms
  by (auto simp: v6_block_ok_def Ipv6NodeBlock_new_def Let_def prefix_mask_v6_net_mask
      word_less_nat_alt split: if_splits)

lemma v4_contains_iff:
  "v4_block_ok b \<Longrightarrow> v4_contains b a \<longleftrightarrow>
     unat (v4_network b) \<le> unat a \<and> unat a < unat (v4_network b) + 2 ^ v4_bits b"
  using in_prefix_iff [OF v4_block_okD(3)] by (simp add: v4_contains_def prefix_mask_v4_net_mask Let_def)

lemma v6_contains_iff:
  "v6_block_ok b \<Longrightarrow> v6_contains b a \<longleftrightarrow>
     unat (v6_network b) \<le> unat a \<and> unat a < unat (v6_network b) + 2 ^ v6_bits b"
  using in_prefix_iff [OF v6_block_okD(3)] by (simp add: v6_contains_def prefix_mask_v6_net_mask Let_def)

lemma v4_bits_pow: "v4_block_ok b \<Longrightarrow> (4::nat) \<le> 2 ^ v4_bits b"
  using power_increasing [of 2 "v4_bits b" "2::nat"] v4_block_okD(1) by simp

lemma v6_bits_pow: "v6_block_ok b \<Longrightarrow> (4::nat) \<le> 2 ^ v6_bits b"
  using power_increasing [of 2 "v6_bits b" "2::nat"] v6_block_okD(1) by simp

lemma unat_v4_gateway: "v4_block_ok b \<Longrightarrow> unat (v4_block_gateway b) = unat (v4_network b) + 1"
  using unat_add_offset [OF v4_block_okD(3), of b 1] v4_block_okD(2) v4_bits_pow [of b]
  by (simp add: v4_block_gateway_def)

lemma unat_v6_gateway: "v6_block_ok b \<Longrightarrow> unat (v6_block_gateway b) = unat (v6_network b) + 1"
  using unat_add_offset [OF v6_block_okD(3), of b 1] v6_block_okD(2) v6_bits_pow [of b]
  by (simp add: v6_block_gateway_def)

lemma v4_bounded_capacity_fits: "v4_bounded_capacity b + 4 \<le> max 4 (2 ^ v4_bits b)"
  by (simp add: v4_bounded_capacity_def Let_def)

lemma v6_bounded_capacity_fits:
  assumes "v6_block_ok b"
  shows "v6_bounded_capacity b + 2 \<le> 2 ^ v6_bits b"
proof (cases "v6_block_len b \<le> 111")
  case True
  then have "17 \<le> v6_bits b" by (simp add: word_le_nat_alt)
  then have "(2::nat) ^ 17 \<le> 2 ^ v6_bits b" by (intro power_increasing) auto
  then show ?thesis using True by (simp add: v6_bounded_capacity_def MAX_NODE_LEASES_def)
next
  case False
  then show ?thesis using v6_bits_pow [OF assms] by (simp add: v6_bounded_capacity_def)
qed

lemma unat_v4_candidate:
  assumes "v4_block_ok b" "i < v4_bounded_capacity b"
  shows "unat (v4_candidate b i) = unat (v4_network b) + i + 2"
proof -
  have "i + 2 < 2 ^ v4_bits b"
    using assms v4_bounded_capacity_fits [of b] v4_bits_pow [of b] by simp
  then have "unat (v4_network b + of_nat (i + 2)) = unat (v4_network b) + (i + 2)"
    using v4_block_okD [OF assms(1)] by (intro unat_add_offset) auto
  then show ?thesis by (simp add: v4_candidate_def add.commute)
qed

lemma unat_v6_candidate:
  assumes "v6_block_ok b" "i < v6_bounded_capacity b"
  shows "unat (v6_candidate b i) = unat (v6_network b) + i + 2"
proof -
  have "i + 2 < 2 ^ v6_bits b"
    using assms v6_bounded_capacity_fits [of b] by simp
  then have "unat (v6_network b + of_nat (i + 2)) = unat (v6_network b) + (i + 2)"
    using v6_block_okD [OF assms(1)] by (intro unat_add_offset) auto
  then show ?thesis by (simp add: v6_candidate_def add.commute)
qed


lemma net_or_host_mask:
  fixes net :: "'a::len word"
  assumes "net AND net_mask n = net"
  shows "net OR NOT (net_mask n) = net + mask n"
proof -
  have "net AND mask n = (net AND net_mask n) AND mask n" using assms by simp
  also have "\<dots> = 0" by (simp add: net_mask_def bit_eq_iff bit_simps)
  finally show ?thesis by (simp add: net_mask_def disjunctive_add_eq_or)
qed

lemma unat_v4_proof_beacon:
  assumes "v4_block_ok b"
  shows "unat (v4_proof_beacon b) = unat (v4_network b) + 2 ^ v4_bits b - 2"
proof -
  have "v4_proof_beacon b = v4_network b + of_nat (2 ^ v4_bits b - 2)"
    using v4_bits_pow [OF assms] net_or_host_mask [OF v4_block_okD(3) [OF assms]]
    by (simp add: v4_proof_beacon_def prefix_mask_v4_net_mask mask_eq_exp_minus_1 of_nat_diff)
  moreover have "(2::nat) ^ v4_bits b - 2 < 2 ^ v4_bits b" using v4_bits_pow [OF assms] by simp
  ultimately show ?thesis
    using unat_add_offset [OF v4_block_okD(3) [OF assms], of "2 ^ v4_bits b - 2"]
      v4_block_okD(2) [OF assms] v4_bits_pow [OF assms] by simp
qed

lemma v4_contains_workload_iff:
  assumes "v4_block_ok b"
  shows "v4_contains_workload b a \<longleftrightarrow>
    unat (v4_network b) + 2 \<le> unat a \<and> unat a + 1 < unat (v4_network b) + 2 ^ v4_bits b"
  using v4_bits_pow [OF assms]
  by (auto simp: v4_contains_workload_def v4_contains_iff [OF assms] Let_def word_le_nat_alt)

lemma v6_contains_workload_iff:
  assumes "v6_block_ok b"
  shows "v6_contains_workload b a \<longleftrightarrow>
    unat (v6_network b) + 2 \<le> unat a \<and> unat a < unat (v6_network b) + 2 ^ v6_bits b"
  by (auto simp: v6_contains_workload_def v6_contains_iff [OF assms] word_le_nat_alt)

lemma find_upt_SomeD:
  assumes "find P (map f [0..<n]) = Some x"
  obtains i where "i < n" "x = f i" "P (f i)" "\<And>j. j < i \<Longrightarrow> \<not> P (f j)"
  using assms by (auto simp: find_Some_iff)

lemma allocateE:
  assumes "allocate p used = Ok l"
  obtains i j where "used_len used < MAX_NODE_LEASES"
    "i < v4_bounded_capacity (ipv4_block p)" "j < v6_bounded_capacity (ipv6_block p)"
    "v4_candidate (ipv4_block p) i \<notin> used_ipv4 used"
    "v6_candidate (ipv6_block p) j \<notin> used_ipv6 used"
    "\<And>k. k < i \<Longrightarrow> v4_candidate (ipv4_block p) k \<in> used_ipv4 used"
    "\<And>k. k < j \<Longrightarrow> v6_candidate (ipv6_block p) k \<in> used_ipv6 used"
    "l = \<lparr>lease_ipv4 = \<lparr>v4_address = v4_candidate (ipv4_block p) i,
            v4_gateway = v4_block_gateway (ipv4_block p),
            v4_prefix_len = v4_block_len (ipv4_block p)\<rparr>,
          lease_ipv6 = \<lparr>v6_address = v6_candidate (ipv6_block p) j,
            v6_gateway = v6_block_gateway (ipv6_block p),
            v6_prefix_len = v6_block_len (ipv6_block p)\<rparr>\<rparr>"
  using assms
  by (auto simp: allocate_def Let_def not_le split: if_splits option.splits elim!: find_upt_SomeD)

lemma allocate_valid:
  assumes "provider_ok p" "allocate p used = Ok l"
  shows "validate p l = Ok ()"
  using assms(2)
proof (rule allocateE)
  fix i j
  have b4: "v4_block_ok (ipv4_block p)" and b6: "v6_block_ok (ipv6_block p)"
    using assms(1) by (simp_all add: provider_ok_def)
  assume "i < v4_bounded_capacity (ipv4_block p)" and "j < v6_bounded_capacity (ipv6_block p)"
    and l: "l = \<lparr>lease_ipv4 = \<lparr>v4_address = v4_candidate (ipv4_block p) i,
            v4_gateway = v4_block_gateway (ipv4_block p),
            v4_prefix_len = v4_block_len (ipv4_block p)\<rparr>,
          lease_ipv6 = \<lparr>v6_address = v6_candidate (ipv6_block p) j,
            v6_gateway = v6_block_gateway (ipv6_block p),
            v6_prefix_len = v6_block_len (ipv6_block p)\<rparr>\<rparr>"
  then have "v4_contains_workload (ipv4_block p) (v4_candidate (ipv4_block p) i)"
    and "v6_contains_workload (ipv6_block p) (v6_candidate (ipv6_block p) j)"
    using v4_bounded_capacity_fits [of "ipv4_block p"] v6_bounded_capacity_fits [OF b6] v4_bits_pow [OF b4]
    by (simp_all add: v4_contains_workload_iff [OF b4] v6_contains_workload_iff [OF b6]
        unat_v4_candidate [OF b4] unat_v6_candidate [OF b6])
  then show ?thesis by (simp add: validate_def l)
qed


section \<open>The usage snapshot keeps one address per lease\<close>

definition used_ok :: "UsedAddresses \<Rightarrow> bool" where
  "used_ok u \<longleftrightarrow> finite (used_leases u) \<and> inj_on addr4 (used_leases u) \<and> inj_on addr6 (used_leases u)
     \<and> used_ipv4 u = addr4 ` used_leases u \<and> used_ipv6 u = addr6 ` used_leases u"

lemma used_ok_empty [simp]: "used_ok used_empty"
  by (simp add: used_ok_def used_empty_def)

lemma used_ok_insert: "used_ok u \<Longrightarrow> used_insert u l = Ok u' \<Longrightarrow> used_ok u'"
  by (auto simp: used_ok_def used_insert_def split: if_splits)

lemma used_ok_remove: "used_ok u \<Longrightarrow> used_remove u l = Ok u' \<Longrightarrow> used_ok u'"
  by (auto simp: used_ok_def used_remove_def inj_on_def split: if_splits)

lemma used_insert_OkD:
  assumes "used_insert u l = Ok u'"
  shows "used_leases u' = insert l (used_leases u)" "used_ipv4 u' = insert (addr4 l) (used_ipv4 u)"
    "used_ipv6 u' = insert (addr6 l) (used_ipv6 u)" "addr4 l \<notin> used_ipv4 u" "addr6 l \<notin> used_ipv6 u"
  using assms by (auto simp: used_insert_def split: if_splits)

lemma used_fold_Ok_iff:
  assumes "used_ok u"
  shows "(\<exists>u'. try_fold used_insert u ls = Ok u') \<longleftrightarrow>
    distinct (map addr4 ls) \<and> distinct (map addr6 ls)
    \<and> addr4 ` set ls \<inter> used_ipv4 u = {} \<and> addr6 ` set ls \<inter> used_ipv6 u = {}"
  using assms
proof (induction ls arbitrary: u)
  case (Cons l ls)
  show ?case
  proof (cases "used_insert u l")
    case (Inl e)
    then show ?thesis by (auto simp: used_insert_def split: if_splits)
  next
    case (Inr u')
    have "used_ok u'" by (rule used_ok_insert [OF Cons.prems Inr])
    from Cons.IH [OF this] show ?thesis
      using used_insert_OkD [OF Inr] by (auto simp: Inr)
  qed
qed simp

lemma used_fold_leases:
  "try_fold used_insert u ls = Ok u' \<Longrightarrow> used_leases u' = used_leases u \<union> set ls"
proof (induction ls arbitrary: u)
  case (Cons l ls)
  then show ?case by (fastforce simp: res_simps dest: used_insert_OkD(1))
qed simp

lemma used_from_leases_ok:
  assumes "used_from_leases ls = Ok u"
  shows "used_ok u" "used_leases u = set ls"
proof -
  from assms have fold: "try_fold used_insert used_empty ls = Ok u"
    by (simp add: used_from_leases_def)
  show "used_ok u" by (rule try_fold_invariant [OF fold]) (auto intro: used_ok_insert)
  show "used_leases u = set ls"
    using used_fold_leases [OF fold] by (simp add: used_empty_def)
qed

section \<open>The provider contract\<close>

locale ipam_provider =
  fixes ok :: "'p \<Rightarrow> bool"
    and alloc :: "'p \<Rightarrow> UsedAddresses \<Rightarrow> (IpamError, DualStackLease) res"
    and valid :: "'p \<Rightarrow> DualStackLease \<Rightarrow> (IpamError, unit) res"
  assumes alloc_valid: "ok p \<Longrightarrow> alloc p u = Ok l \<Longrightarrow> valid p l = Ok ()"
    and alloc_fresh4: "alloc p u = Ok l \<Longrightarrow> addr4 l \<notin> used_ipv4 u"
    and alloc_fresh6: "alloc p u = Ok l \<Longrightarrow> addr6 l \<notin> used_ipv6 u"
begin

lemma alloc_insertable:
  assumes "alloc p u = Ok l"
  obtains u' where "used_insert u l = Ok u'"
  using alloc_fresh4 [OF assms] alloc_fresh6 [OF assms] by (auto simp: used_insert_def)

lemma alloc_not_leased:
  assumes "used_from_leases ls = Ok u" "alloc p u = Ok l" "l' \<in> set ls"
  shows "addr4 l' \<noteq> addr4 l \<and> addr6 l' \<noteq> addr6 l"
  using alloc_fresh4 [OF assms(2)] alloc_fresh6 [OF assms(2)] used_from_leases_ok [OF assms(1)] assms(3)
  unfolding used_ok_def by (metis imageI)

end

interpretation nbp: ipam_provider provider_ok allocate validate
proof
  show "validate p l = Ok ()" if "provider_ok p" "allocate p u = Ok l" for p u l
    using that by (rule allocate_valid)
qed (auto elim: allocateE)

lemma card_le_find:
  assumes "find P xs = None" "distinct xs"
  shows "length xs \<le> card (set xs \<inter> {x. \<not> P x})"
proof -
  have "set xs \<inter> {x. \<not> P x} = set xs" using assms(1) by (auto simp: find_None_iff)
  then show ?thesis using assms(2) by (simp add: distinct_card)
qed

lemma v4_candidates_distinct:
  "v4_block_ok b \<Longrightarrow> distinct (map (v4_candidate b) [0..<v4_bounded_capacity b])"
  by (auto simp: distinct_map inj_on_def dest!: arg_cong [where f = unat] simp: unat_v4_candidate)

lemma v6_candidates_distinct:
  "v6_block_ok b \<Longrightarrow> distinct (map (v6_candidate b) [0..<v6_bounded_capacity b])"
  by (auto simp: distinct_map inj_on_def dest!: arg_cong [where f = unat] simp: unat_v6_candidate)

lemma exhausted_needs:
  assumes "find (\<lambda>c. c \<notin> U) xs = None" "distinct xs" "finite U"
  shows "length xs \<le> card U"
proof -
  have "length xs \<le> card (set xs \<inter> U)" using card_le_find [OF assms(1,2)] by simp
  also have "\<dots> \<le> card U" using assms(3) by (intro card_mono) auto
  finally show ?thesis .
qed

lemma used_card:
  assumes "used_ok u"
  shows "card (used_ipv4 u) = used_len u" "card (used_ipv6 u) = used_len u"
    "finite (used_ipv4 u)" "finite (used_ipv6 u)"
  using assms by (simp_all add: used_ok_def used_len_def card_image)


section \<open>Properties\<close>

text \<open>
  C37: a lease the provider allocates validates against the provider's own blocks, takes addresses
  that no retained lease holds in either family, and never hands out the gateway or the address
  reserved for the encrypted-path beacon.
\<close>

theorem allocate_sound:
  assumes "provider_ok p" and "allocate p used = Ok lease"
  shows "validate p lease = Ok () \<and>
    addr4 lease \<notin> used_ipv4 used \<and> addr6 lease \<notin> used_ipv6 used \<and>
    addr4 lease \<notin> {v4_network (ipv4_block p), v4_block_gateway (ipv4_block p),
      v4_proof_beacon (ipv4_block p)} \<and>
    addr6 lease \<notin> {v6_block_gateway (ipv6_block p), v6_proof_beacon (ipv6_block p)}"
proof (intro conjI)
  have b4: "v4_block_ok (ipv4_block p)" and b6: "v6_block_ok (ipv6_block p)"
    using assms(1) by (simp_all add: provider_ok_def)
  show "validate p lease = Ok ()" by (rule allocate_valid [OF assms])
  show "addr4 lease \<notin> used_ipv4 used" by (rule nbp.alloc_fresh4 [OF assms(2)])
  show "addr6 lease \<notin> used_ipv6 used" by (rule nbp.alloc_fresh6 [OF assms(2)])
  from assms(2) obtain i j where i: "i < v4_bounded_capacity (ipv4_block p)"
    "addr4 lease = v4_candidate (ipv4_block p) i" and j: "j < v6_bounded_capacity (ipv6_block p)"
    "addr6 lease = v6_candidate (ipv6_block p) j"
    by (auto elim!: allocateE)
  show "addr4 lease \<notin> {v4_network (ipv4_block p), v4_block_gateway (ipv4_block p),
      v4_proof_beacon (ipv4_block p)}"
    using i v4_bounded_capacity_fits [of "ipv4_block p"] v4_bits_pow [OF b4]
    by (auto simp: word_unat_eq_iff unat_v4_candidate [OF b4] unat_v4_gateway [OF b4]
        unat_v4_proof_beacon [OF b4])
  show "addr6 lease \<notin> {v6_block_gateway (ipv6_block p), v6_proof_beacon (ipv6_block p)}"
    using j by (auto simp: word_unat_eq_iff unat_v6_candidate [OF b6] unat_v6_gateway [OF b6]
        v6_proof_beacon_def)
qed

text \<open>
  C38: allocation is complete.  As long as fewer leases are retained than the node bound and than
  either family's bounded capacity, the provider finds a lease.
\<close>

theorem allocate_complete:
  assumes "provider_ok p" and "used_ok used"
    and "used_len used < MAX_NODE_LEASES"
    and "used_len used < v4_bounded_capacity (ipv4_block p)"
    and "used_len used < v6_bounded_capacity (ipv6_block p)"
  shows "\<exists>lease. allocate p used = Ok lease"
proof -
  have b4: "v4_block_ok (ipv4_block p)" and b6: "v6_block_ok (ipv6_block p)"
    using assms(1) by (simp_all add: provider_ok_def)
  let ?c4 = "map (v4_candidate (ipv4_block p)) [0..<v4_bounded_capacity (ipv4_block p)]"
  let ?c6 = "map (v6_candidate (ipv6_block p)) [0..<v6_bounded_capacity (ipv6_block p)]"
  have "find (\<lambda>c. c \<notin> used_ipv4 used) ?c4 \<noteq> None"
    using exhausted_needs [OF _ v4_candidates_distinct [OF b4], of "used_ipv4 used"]
      used_card [OF assms(2)] assms(4) by auto
  moreover have "find (\<lambda>c. c \<notin> used_ipv6 used) ?c6 \<noteq> None"
    using exhausted_needs [OF _ v6_candidates_distinct [OF b6], of "used_ipv6 used"]
      used_card [OF assms(2)] assms(5) by auto
  ultimately show ?thesis using assms(3) by (auto simp: allocate_def Let_def)
qed

text \<open>
  C39: allocation is deterministic first fit.  Every workload address of the block below the one
  allocated is already retained, in both families.
\<close>

theorem allocate_first_fit:
  assumes "provider_ok p" and "allocate p used = Ok lease"
  shows "(\<forall>a. v4_contains_workload (ipv4_block p) a \<and> a < addr4 lease \<longrightarrow> a \<in> used_ipv4 used) \<and>
    (\<forall>c. v6_contains_workload (ipv6_block p) c \<and> c < addr6 lease \<longrightarrow> c \<in> used_ipv6 used)"
proof (intro conjI allI impI; elim conjE)
  have b4: "v4_block_ok (ipv4_block p)" and b6: "v6_block_ok (ipv6_block p)"
    using assms(1) by (simp_all add: provider_ok_def)
  from assms(2) obtain i j where i: "i < v4_bounded_capacity (ipv4_block p)"
    "addr4 lease = v4_candidate (ipv4_block p) i"
    "\<And>k. k < i \<Longrightarrow> v4_candidate (ipv4_block p) k \<in> used_ipv4 used"
    and j: "j < v6_bounded_capacity (ipv6_block p)" "addr6 lease = v6_candidate (ipv6_block p) j"
    "\<And>k. k < j \<Longrightarrow> v6_candidate (ipv6_block p) k \<in> used_ipv6 used"
    by (elim allocateE) auto
  show "a \<in> used_ipv4 used" if "v4_contains_workload (ipv4_block p) a" "a < addr4 lease" for a
  proof -
    define k where "k = unat a - unat (v4_network (ipv4_block p)) - 2"
    have "k < i" and "unat a = unat (v4_network (ipv4_block p)) + k + 2"
      using that i by (auto simp: k_def v4_contains_workload_iff [OF b4] word_less_nat_alt
          unat_v4_candidate [OF b4])
    then have "a = v4_candidate (ipv4_block p) k"
      using i(1) by (simp add: word_unat_eq_iff unat_v4_candidate [OF b4])
    with i(3) \<open>k < i\<close> show ?thesis by simp
  qed
  show "c \<in> used_ipv6 used" if "v6_contains_workload (ipv6_block p) c" "c < addr6 lease" for c
  proof -
    define k where "k = unat c - unat (v6_network (ipv6_block p)) - 2"
    have "k < j" and "unat c = unat (v6_network (ipv6_block p)) + k + 2"
      using that j by (auto simp: k_def v6_contains_workload_iff [OF b6] word_less_nat_alt
          unat_v6_candidate [OF b6])
    then have "c = v6_candidate (ipv6_block p) k"
      using j(1) by (simp add: word_unat_eq_iff unat_v6_candidate [OF b6])
    with j(3) \<open>k < j\<close> show ?thesis by simp
  qed
qed

text \<open>
  The mask comparison of \<open>overlaps\<close> decides exactly whether two node blocks share an address,
  for both families.
\<close>

lemma overlaps_iff_share:
  assumes "v4_block_ok b" and "v4_block_ok c" and "v6_block_ok d" and "v6_block_ok e"
  shows "(v4_overlaps b c \<longleftrightarrow> (\<exists>x. v4_contains b x \<and> v4_contains c x)) \<and>
    (v6_overlaps d e \<longleftrightarrow> (\<exists>y. v6_contains d y \<and> v6_contains e y))"
proof
  show "v4_overlaps b c \<longleftrightarrow> (\<exists>x. v4_contains b x \<and> v4_contains c x)"
  proof -
    have "32 - unat (min (v4_block_len b) (v4_block_len c)) = max (v4_bits b) (v4_bits c)"
      by (auto simp: min_def max_def word_le_nat_alt)
    then show ?thesis
      using prefixes_meet_iff [OF v4_block_okD(3) [OF assms(1)] v4_block_okD(3) [OF assms(2)]]
        v4_block_okD(2) [OF assms(1)] v4_block_okD(2) [OF assms(2)]
      by (simp add: v4_overlaps_def v4_contains_def prefix_mask_v4_net_mask Let_def)
  qed
  show "v6_overlaps d e \<longleftrightarrow> (\<exists>y. v6_contains d y \<and> v6_contains e y)"
  proof -
    have "128 - unat (min (v6_block_len d) (v6_block_len e)) = max (v6_bits d) (v6_bits e)"
      by (auto simp: min_def max_def word_le_nat_alt)
    then show ?thesis
      using prefixes_meet_iff [OF v6_block_okD(3) [OF assms(3)] v6_block_okD(3) [OF assms(4)]]
        v6_block_okD(2) [OF assms(3)] v6_block_okD(2) [OF assms(4)]
      by (simp add: v6_overlaps_def v6_contains_def prefix_mask_v6_net_mask Let_def)
  qed
qed

text \<open>
  The usage snapshot is rebuilt from durable leases exactly when no address repeats in either
  family, it then holds precisely those leases, and releasing a lease just inserted restores it.
\<close>

lemma used_snapshot_roundtrip:
  assumes "used_ok u" and "used_insert u lease = Ok u'"
  shows "used_remove u' lease = Ok u \<and>
    ((\<exists>u. used_from_leases ls = Ok u \<and> used_ok u \<and> used_leases u = set ls) \<longleftrightarrow>
      distinct (map addr4 ls) \<and> distinct (map addr6 ls))"
proof
  show "(\<exists>u. used_from_leases ls = Ok u \<and> used_ok u \<and> used_leases u = set ls) \<longleftrightarrow>
      distinct (map addr4 ls) \<and> distinct (map addr6 ls)"
    using used_fold_Ok_iff [OF used_ok_empty, of ls] used_from_leases_ok [of ls]
    by (auto simp: used_from_leases_def used_empty_def)
  show "used_remove u' lease = Ok u"
    using assms used_insert_OkD [OF assms(2)]
    by (auto simp: used_remove_def used_ok_def intro!: UsedAddresses.equality)
qed

definition sample_provider :: NodeBlockProvider where
  "sample_provider = \<lparr>ipv4_block = \<lparr>v4_network = 0x0A000000, v4_block_len = 29\<rparr>,
     ipv6_block = \<lparr>v6_network = 0xFD000000000000000000000000000000, v6_block_len = 125\<rparr>\<rparr>"

definition sample_lease :: "nat \<Rightarrow> DualStackLease" where
  "sample_lease i = \<lparr>lease_ipv4 = \<lparr>v4_address = v4_candidate (ipv4_block sample_provider) i,
       v4_gateway = 0x0A000001, v4_prefix_len = 29\<rparr>,
     lease_ipv6 = \<lparr>v6_address = v6_candidate (ipv6_block sample_provider) i,
       v6_gateway = 0xFD000000000000000000000000000001, v6_prefix_len = 125\<rparr>\<rparr>"

lemma sample_provider_ok: "provider_ok sample_provider"
  by (simp add: provider_ok_def v4_block_ok_def v6_block_ok_def sample_provider_def
      Ipv4NodeBlock_new_def Ipv6NodeBlock_new_def prefix_mask_v4_def prefix_mask_v6_def mask_eq_exp_minus_1)

lemma sample_allocate: "allocate sample_provider used_empty = Ok (sample_lease 0)"
  by (simp add: allocate_def sample_provider_def used_empty_def used_len_def MAX_NODE_LEASES_def
      v4_bounded_capacity_def v6_bounded_capacity_def upt_rec sample_lease_def v4_candidate_def
      v6_candidate_def v4_block_gateway_def v6_block_gateway_def)

theorem allocate_sound_witness:
  "validate sample_provider (sample_lease 0) = Ok () \<and> addr4 (sample_lease 0) = 0x0A000002"
  using allocate_sound [OF sample_provider_ok sample_allocate]
  by (simp add: sample_lease_def v4_candidate_def sample_provider_def)


definition sample_used :: UsedAddresses where
  "sample_used = \<lparr>used_leases = {sample_lease 0}, used_ipv4 = {0x0A000002},
     used_ipv6 = {0xFD000000000000000000000000000002}\<rparr>"

lemma sample_used_insert: "used_insert used_empty (sample_lease 0) = Ok sample_used"
  by (simp add: used_insert_def used_empty_def sample_used_def sample_lease_def v4_candidate_def
      v6_candidate_def sample_provider_def)

lemma sample_used_ok: "used_ok sample_used"
  by (rule used_ok_insert [OF used_ok_empty sample_used_insert])

lemma sample_allocate_next: "allocate sample_provider sample_used = Ok (sample_lease 1)"
  by (simp add: allocate_def sample_provider_def sample_used_def used_len_def MAX_NODE_LEASES_def
      v4_bounded_capacity_def v6_bounded_capacity_def upt_rec sample_lease_def v4_candidate_def
      v6_candidate_def v4_block_gateway_def v6_block_gateway_def)

theorem allocate_complete_witness: "\<exists>lease. allocate sample_provider sample_used = Ok lease"
  by (rule allocate_complete [OF sample_provider_ok sample_used_ok])
    (simp_all add: sample_used_def used_len_def MAX_NODE_LEASES_def sample_provider_def
      v4_bounded_capacity_def v6_bounded_capacity_def)

theorem allocate_first_fit_witness:
  "0x0A000002 \<in> used_ipv4 sample_used \<and> 0xFD000000000000000000000000000002 \<in> used_ipv6 sample_used"
proof
  show "0x0A000002 \<in> used_ipv4 sample_used"
    by (rule allocate_first_fit
          [OF sample_provider_ok sample_allocate_next, THEN conjunct1, rule_format])
      (simp_all add: sample_lease_def v4_candidate_def sample_provider_def v4_contains_workload_def
        v4_contains_def prefix_mask_v4_def mask_eq_exp_minus_1 v4_block_gateway_def
        v4_proof_beacon_def)
  show "0xFD000000000000000000000000000002 \<in> used_ipv6 sample_used"
    by (rule allocate_first_fit
          [OF sample_provider_ok sample_allocate_next, THEN conjunct2, rule_format])
      (simp_all add: sample_lease_def v6_candidate_def sample_provider_def v6_contains_workload_def
        v6_contains_def prefix_mask_v6_def mask_eq_exp_minus_1 v6_block_gateway_def
        v6_proof_beacon_def)
qed

section \<open>Blocks from text\<close>

lemma v4_new_ok: "Ipv4NodeBlock_new network prefix_len = Ok b \<Longrightarrow> v4_block_ok b \<and> v4_network b = network \<and> v4_block_len b = prefix_len"
  by (auto simp: Ipv4NodeBlock_new_def v4_block_ok_def Let_def split: if_splits)

lemma v6_new_ok: "Ipv6NodeBlock_new network prefix_len = Ok b \<Longrightarrow> v6_block_ok b"
  by (auto simp: Ipv6NodeBlock_new_def v6_block_ok_def Let_def split: if_splits)

lemma from_str_ok:
  "Ipv4NodeBlock_from_str s = Ok b \<Longrightarrow> v4_block_ok b" "Ipv6NodeBlock_from_str s = Ok c \<Longrightarrow> v6_block_ok c"
  by (auto simp: Ipv4NodeBlock_from_str_def Ipv6NodeBlock_from_str_def res_simps dest: v4_new_ok v6_new_ok)

text \<open>
  C40: the text form of an IPv4 block round-trips.  Reading what a block prints gives the block back, and
  whatever text is accepted yields a canonical block whose network is the address written there.
\<close>

theorem node_block_text:
  "(v4_block_ok b \<longrightarrow> Ipv4NodeBlock_from_str (Ipv4NodeBlock_show b) = Ok b) \<and>
   (Ipv4NodeBlock_from_str s = Ok c \<longrightarrow> v4_block_ok c \<and> (\<exists>p. s = show_ipv4 (v4_network c) @ ''/'' @ p \<and> parse_u8 p = Some (v4_block_len c)))"
proof (intro conjI impI)
  assume ok: "v4_block_ok b"
  have "split_once (CHR ''/'') (Ipv4NodeBlock_show b) = Some (show_ipv4 (v4_network b), decimal (unat (v4_block_len b)))"
    by (simp add: split_once_iff Ipv4NodeBlock_show_def slash_not_shown)
  moreover have "show_ipv4 (v4_network b) \<noteq> []" by (simp add: show_ipv4_def Let_def)
  moreover have "parse_ipv4 (show_ipv4 (v4_network b)) = Some (v4_network b)" by (simp add: parse_ipv4_iff)
  moreover have "parse_u8 (decimal (unat (v4_block_len b))) = Some (v4_block_len b)"
    using parse_u8_decimal [of "unat (v4_block_len b)"] unsigned_less [of "v4_block_len b", where ?'a = nat] by simp
  ultimately show "Ipv4NodeBlock_from_str (Ipv4NodeBlock_show b) = Ok b"
    using ok decimal_digits(2) slash_not_shown(2)
    by (simp add: Ipv4NodeBlock_from_str_def split_cidr_def parse_prefix_def v4_block_ok_def)
next
  assume s: "Ipv4NodeBlock_from_str s = Ok c"
  then show "v4_block_ok c" by (rule from_str_ok)
  from s obtain address prefix a p where "split_once (CHR ''/'') s = Some (address, prefix)" "parse_ipv4 address = Some a"
    "parse_u8 prefix = Some p" "Ipv4NodeBlock_new a p = Ok c"
    by (auto simp: Ipv4NodeBlock_from_str_def split_cidr_def parse_prefix_def res_simps split: option.splits if_splits)
  then show "\<exists>p. s = show_ipv4 (v4_network c) @ ''/'' @ p \<and> parse_u8 p = Some (v4_block_len c)"
    using v4_new_ok [of a p c] by (auto simp: split_once_iff parse_ipv4_iff)
qed

theorem node_block_text_witness:
  "Ipv4NodeBlock_from_str (Ipv4NodeBlock_show (ipv4_block sample_provider)) = Ok (ipv4_block sample_provider)"
  using node_block_text sample_provider_ok by (simp add: provider_ok_def)

end
