(* ===== verification/Policy_Ir.thy ===== *)
theory Policy_Ir
  imports Addr_Prefix
begin

text \<open>
  The policy intermediate representation of \<^verbatim>\<open>crates/unf-policy/src/lib.rs\<close>: identity selectors and
  address blocks, endpoints, rules, policies, flows and decisions, with the matching functions of
  the selectors, and the domain primitives of \<^verbatim>\<open>crates/unf-common/src/lib.rs\<close> they use.  Record fields
  carry a prefix for their record where several Rust structs share a field name.  Label maps are
  sorted association lists, and numeric identifiers are the 32-bit words they wrap.
\<close>

section \<open>Domain primitives\<close>

datatype Protocol = Icmp | Tcp | Udp | Sctp

fun protocol_number :: "Protocol \<Rightarrow> u8" where
  "protocol_number Icmp = 1"
| "protocol_number Tcp = 6"
| "protocol_number Udp = 17"
| "protocol_number Sctp = 132"

datatype PolicyDirection = Ingress | Egress

datatype PolicyAction = AllowAction | DenyAction | AuditAction

datatype Verdict = UnknownVerdict | AllowVerdict | DenyVerdict | AuditVerdict

datatype PolicyReason = NoApplicablePolicy | ExplicitRule | DefaultAction

lemma protocol_number_inj [simp]: "protocol_number p = protocol_number q \<longleftrightarrow> p = q"
  by (cases p; cases q) simp_all

lemma protocol_number_nonzero [simp]: "protocol_number p \<noteq> 0" "0 \<noteq> protocol_number p"
  by (cases p; simp)+

text \<open>The derived order of the enum is the order of its discriminants.\<close>

instantiation Protocol :: linorder
begin

definition less_eq_Protocol :: "Protocol \<Rightarrow> Protocol \<Rightarrow> bool" where
  "less_eq_Protocol p q \<longleftrightarrow> protocol_number p \<le> protocol_number q"

definition less_Protocol :: "Protocol \<Rightarrow> Protocol \<Rightarrow> bool" where
  "less_Protocol p q \<longleftrightarrow> protocol_number p < protocol_number q"

instance
  by standard (auto simp: less_eq_Protocol_def less_Protocol_def order_less_le)

end

section \<open>Address blocks\<close>

datatype Ipv4Cidr = Ipv4Cidr (network4: u32) (prefix_len4: u8)

datatype Ipv6Cidr = Ipv6Cidr (network6: u128) (prefix_len6: u8)

text \<open>The derived orders compare the network first and the length second.\<close>

instantiation Ipv4Cidr :: linorder
begin

definition less_eq_Ipv4Cidr :: "Ipv4Cidr \<Rightarrow> Ipv4Cidr \<Rightarrow> bool" where
  "less_eq_Ipv4Cidr c d \<longleftrightarrow> (network4 c, prefix_len4 c) \<le> (network4 d, prefix_len4 d)"

definition less_Ipv4Cidr :: "Ipv4Cidr \<Rightarrow> Ipv4Cidr \<Rightarrow> bool" where
  "less_Ipv4Cidr c d \<longleftrightarrow> (network4 c, prefix_len4 c) < (network4 d, prefix_len4 d)"

instance
  by standard (auto simp: less_eq_Ipv4Cidr_def less_Ipv4Cidr_def Ipv4Cidr.expand)

end

instantiation Ipv6Cidr :: linorder
begin

definition less_eq_Ipv6Cidr :: "Ipv6Cidr \<Rightarrow> Ipv6Cidr \<Rightarrow> bool" where
  "less_eq_Ipv6Cidr c d \<longleftrightarrow> (network6 c, prefix_len6 c) \<le> (network6 d, prefix_len6 d)"

definition less_Ipv6Cidr :: "Ipv6Cidr \<Rightarrow> Ipv6Cidr \<Rightarrow> bool" where
  "less_Ipv6Cidr c d \<longleftrightarrow> (network6 c, prefix_len6 c) < (network6 d, prefix_len6 d)"

instance
  by standard (auto simp: less_eq_Ipv6Cidr_def less_Ipv6Cidr_def Ipv6Cidr.expand)

end

record Ipv4Block =
  block4_cidr :: Ipv4Cidr
  block4_except :: "Ipv4Cidr list"

record Ipv6Block =
  block6_cidr :: Ipv6Cidr
  block6_except :: "Ipv6Cidr list"

definition cidr4_contains :: "Ipv4Cidr \<Rightarrow> u32 \<Rightarrow> bool" where
  "cidr4_contains c address =
     (if prefix_len4 c > 32 then False
      else let msk = (if prefix_len4 c = 0 then 0 else push_bit (32 - unat (prefix_len4 c)) (- 1))
           in address AND msk = network4 c)"

definition cidr4_address_count :: "Ipv4Cidr \<Rightarrow> nat" where
  "cidr4_address_count c =
     (if prefix_len4 c > 32 then 2 ^ 64 - 1 else 2 ^ (32 - unat (prefix_len4 c)))"

definition cidr4_contains_cidr :: "Ipv4Cidr \<Rightarrow> Ipv4Cidr \<Rightarrow> bool" where
  "cidr4_contains_cidr c other \<longleftrightarrow>
     prefix_len4 c \<le> prefix_len4 other \<and> cidr4_contains c (network4 other)"

definition cidr4_addresses :: "Ipv4Cidr \<Rightarrow> u32 list" where
  "cidr4_addresses c =
     (let start = network4 c;
          count = (if cidr4_address_count c < 2 ^ 32 then cidr4_address_count c else 2 ^ 32 - 1)
      in map (\<lambda>offset. start + of_nat offset) [0..<count])"

definition block4_contains :: "Ipv4Block \<Rightarrow> u32 \<Rightarrow> bool" where
  "block4_contains b address \<longleftrightarrow>
     cidr4_contains (block4_cidr b) address \<and>
     \<not> list_ex (\<lambda>except. cidr4_contains except address) (block4_except b)"

definition block4_addresses :: "Ipv4Block \<Rightarrow> u32 list" where
  "block4_addresses b = filter (block4_contains b) (cidr4_addresses (block4_cidr b))"

definition cidr6_contains :: "Ipv6Cidr \<Rightarrow> u128 \<Rightarrow> bool" where
  "cidr6_contains c address =
     (if prefix_len6 c > 128 then False
      else let msk = (if prefix_len6 c = 0 then 0 else push_bit (128 - unat (prefix_len6 c)) (- 1))
           in address AND msk = network6 c)"

definition cidr6_contains_cidr :: "Ipv6Cidr \<Rightarrow> Ipv6Cidr \<Rightarrow> bool" where
  "cidr6_contains_cidr c other \<longleftrightarrow>
     prefix_len6 c \<le> prefix_len6 other \<and> cidr6_contains c (network6 other)"

definition block6_contains :: "Ipv6Block \<Rightarrow> u128 \<Rightarrow> bool" where
  "block6_contains b address \<longleftrightarrow>
     cidr6_contains (block6_cidr b) address \<and>
     \<not> list_ex (\<lambda>except. cidr6_contains except address) (block6_except b)"

section \<open>Selectors and endpoints\<close>

type_synonym labels = "(string, string) btree"

datatype LabelExpressionOperator = In | NotIn | Exists | DoesNotExist

record LabelExpression =
  expr_key :: string
  expr_operator :: LabelExpressionOperator
  expr_values :: "string set"

record IdentitySelector =
  sel_namespace :: "string option"
  sel_namespace_match_labels :: labels
  sel_namespace_match_expressions :: "LabelExpression list"
  sel_service_account :: "string option"
  sel_application :: "string option"
  sel_match_labels :: labels
  sel_match_expressions :: "LabelExpression list"
  sel_ipv4_blocks :: "Ipv4Block list"
  sel_ipv6_blocks :: "Ipv6Block list"

datatype NamedPort = NamedPort (port_name: string) (port_protocol: Protocol)

instantiation NamedPort :: linorder
begin

definition less_eq_NamedPort :: "NamedPort \<Rightarrow> NamedPort \<Rightarrow> bool" where
  "less_eq_NamedPort p q \<longleftrightarrow> (port_name p, port_protocol p) \<le> (port_name q, port_protocol q)"

definition less_NamedPort :: "NamedPort \<Rightarrow> NamedPort \<Rightarrow> bool" where
  "less_NamedPort p q \<longleftrightarrow> (port_name p, port_protocol p) < (port_name q, port_protocol q)"

instance
  by standard (auto simp: less_eq_NamedPort_def less_NamedPort_def NamedPort.expand)

end

record Endpoint =
  ep_identity :: u32
  ep_namespace :: string
  ep_namespace_labels :: labels
  ep_service_account :: string
  ep_application :: "string option"
  ep_labels :: labels
  ep_named_ports :: "(NamedPort, u16) btree"

record Ipv4Endpoint =
  ep4_address :: u32
  ep4_endpoint :: Endpoint

record Ipv6Endpoint =
  ep6_address :: u128
  ep6_endpoint :: Endpoint

definition resolve_named_port :: "Endpoint \<Rightarrow> string \<Rightarrow> Protocol \<Rightarrow> u16 option" where
  "resolve_named_port ep name protocol =
     map_option snd (find (\<lambda>(named_port, _).
       port_name named_port = name \<and> port_protocol named_port = protocol) (ep_named_ports ep))"

definition expression_matches :: "LabelExpression \<Rightarrow> labels \<Rightarrow> bool" where
  "expression_matches e labels =
     (case expr_operator e of
        In \<Rightarrow> (case bt_get labels (expr_key e) of None \<Rightarrow> False | Some v \<Rightarrow> v \<in> expr_values e)
      | NotIn \<Rightarrow> (case bt_get labels (expr_key e) of None \<Rightarrow> True | Some v \<Rightarrow> v \<notin> expr_values e)
      | Exists \<Rightarrow> bt_get labels (expr_key e) \<noteq> None
      | DoesNotExist \<Rightarrow> bt_get labels (expr_key e) = None)"

definition labels_match :: "labels \<Rightarrow> labels \<Rightarrow> bool" where
  "labels_match required labels = list_all (\<lambda>(k, v). bt_get labels k = Some v) required"

definition selector_matches :: "IdentitySelector \<Rightarrow> Endpoint \<Rightarrow> bool" where
  "selector_matches s ep \<longleftrightarrow>
     (case sel_namespace s of None \<Rightarrow> True | Some expected \<Rightarrow> expected = ep_namespace ep) \<and>
     labels_match (sel_namespace_match_labels s) (ep_namespace_labels ep) \<and>
     list_all (\<lambda>e. expression_matches e (ep_namespace_labels ep))
       (sel_namespace_match_expressions s) \<and>
     (case sel_service_account s of None \<Rightarrow> True
      | Some expected \<Rightarrow> expected = ep_service_account ep) \<and>
     (case sel_application s of None \<Rightarrow> True
      | Some expected \<Rightarrow> ep_application ep = Some expected) \<and>
     labels_match (sel_match_labels s) (ep_labels ep) \<and>
     list_all (\<lambda>e. expression_matches e (ep_labels ep)) (sel_match_expressions s)"

definition is_unconstrained :: "IdentitySelector \<Rightarrow> bool" where
  "is_unconstrained s \<longleftrightarrow>
     sel_namespace s = None \<and> sel_namespace_match_labels s = [] \<and>
     sel_namespace_match_expressions s = [] \<and> sel_service_account s = None \<and>
     sel_application s = None \<and> sel_match_labels s = [] \<and> sel_match_expressions s = []"

definition matches_addressed ::
  "IdentitySelector \<Rightarrow> Endpoint \<Rightarrow> u32 option \<Rightarrow> u128 option \<Rightarrow> bool" where
  "matches_addressed s ep ipv4 ipv6 =
     (let external_endpoint_matches =
        ep_identity ep \<noteq> 0 \<or> sel_ipv4_blocks s \<noteq> [] \<or> sel_ipv6_blocks s \<noteq> [] \<or> is_unconstrained s
      in external_endpoint_matches \<and> selector_matches s ep \<and>
        (case (ipv4, ipv6) of
           (Some address, None) \<Rightarrow> sel_ipv6_blocks s = [] \<and>
             (sel_ipv4_blocks s = [] \<or>
              list_ex (\<lambda>block. block4_contains block address) (sel_ipv4_blocks s))
         | (None, Some address) \<Rightarrow> sel_ipv4_blocks s = [] \<and>
             (sel_ipv6_blocks s = [] \<or>
              list_ex (\<lambda>block. block6_contains block address) (sel_ipv6_blocks s))
         | (None, None) \<Rightarrow> sel_ipv4_blocks s = [] \<and> sel_ipv6_blocks s = []
         | (Some _, Some _) \<Rightarrow> False))"

record DestinationAddresses =
  dest_ipv4 :: "u32 option"
  dest_ipv6 :: "u128 option"

definition no_addresses :: DestinationAddresses where
  "no_addresses = \<lparr>dest_ipv4 = None, dest_ipv6 = None\<rparr>"

definition matches_source ::
  "IdentitySelector \<Rightarrow> Endpoint \<Rightarrow> u32 option \<Rightarrow> u128 option \<Rightarrow> bool" where
  "matches_source s ep source_ipv4 source_ipv6 = matches_addressed s ep source_ipv4 source_ipv6"

definition matches_destination ::
  "IdentitySelector \<Rightarrow> Endpoint \<Rightarrow> DestinationAddresses \<Rightarrow> bool" where
  "matches_destination s ep addresses =
     matches_addressed s ep (dest_ipv4 addresses) (dest_ipv6 addresses)"

section \<open>Policies, flows and decisions\<close>

datatype DestinationPort = AnyPort | Number u16 | Named string | Range u16 u16

record RuleProvenance =
  prov_policy_id :: u32
  prov_policy_name :: string
  prov_namespace :: string
  prov_rule_index :: u32

record PolicyRule =
  rule_id :: u32
  rule_source :: IdentitySelector
  rule_destination :: IdentitySelector
  rule_protocol :: "Protocol option"
  rule_destination_port :: DestinationPort
  rule_action :: PolicyAction
  rule_provenance :: RuleProvenance

datatype PolicyOrigin = Native | KubernetesNetworkPolicy

datatype PolicyEnforcementMode = Enforce | Shadow

record PolicyIr =
  pol_id :: u32
  pol_name :: string
  pol_namespace :: string
  pol_priority :: u32
  pol_origin :: PolicyOrigin
  pol_direction :: PolicyDirection
  pol_target :: IdentitySelector
  pol_default_action :: PolicyAction
  pol_enforcement_mode :: PolicyEnforcementMode
  pol_rules :: "PolicyRule list"

record Flow =
  flow_source :: Endpoint
  flow_destination :: Endpoint
  flow_protocol :: Protocol
  flow_destination_port :: u16
  flow_source_ipv4 :: "u32 option"
  flow_source_ipv6 :: "u128 option"

record PolicyDecision =
  dec_direction :: PolicyDirection
  dec_verdict :: Verdict
  dec_shadow_verdict :: "Verdict option"
  dec_shadow_reason :: "PolicyReason option"
  dec_shadow_policy_id :: "u32 option"
  dec_shadow_rule_id :: "u32 option"
  dec_reason :: PolicyReason
  dec_policy_id :: "u32 option"
  dec_rule_id :: "u32 option"
  dec_audits :: "RuleProvenance list"

record PolicyEnforcementDecision =
  enf_verdict :: Verdict
  enf_reason :: PolicyReason
  enf_policy_id :: "u32 option"

end
