(* ===== verification/Policy_Eval.thy ===== *)
theory Policy_Eval
  imports Policy_Ir "HOL-Library.Multiset"
begin

text \<open>
  Compilation of \<open>SecurityPolicy\<close> objects to the intermediate representation and the deterministic
  evaluator of \<^verbatim>\<open>crates/unf-policy/src/lib.rs\<close>.  The evaluator keeps the best candidate seen so far
  under \<open>compare_decisions\<close>; the inductive predicate \<open>candidate\<close> says which decisions compete, and the
  evaluator is shown to return the least of them, so its result depends neither on the order of the
  policies nor on policies that do not select the flow.
\<close>

section \<open>The API object and its compilation\<close>

datatype Action = ApiAllow | ApiDeny | ApiAudit

datatype EnforcementMode = ApiEnforce | ApiShadow

datatype TransportProtocol = TransportTcp | TransportUdp

record WorkloadSelector =
  api_namespace :: "string option"
  api_service_account :: "string option"
  api_application :: "string option"
  api_match_labels :: labels

record ProtocolPort =
  pp_protocol :: TransportProtocol
  pp_port :: u16

record IngressRule =
  in_from :: WorkloadSelector
  in_protocols :: "ProtocolPort list"
  in_action :: Action

record SecurityPolicySpec =
  spec_target :: WorkloadSelector
  spec_ingress :: "IngressRule list"
  spec_priority :: u32
  spec_default_action :: Action
  spec_enforcement_mode :: EnforcementMode

record SecurityPolicy =
  meta_name :: "string option"
  meta_namespace :: "string option"
  sp_spec :: SecurityPolicySpec

datatype PolicyCompileError = MissingName | MissingNamespace | InvalidPort nat | TooManyRules

definition selector_from_api :: "WorkloadSelector \<Rightarrow> IdentitySelector" where
  "selector_from_api s =
     \<lparr>sel_namespace = api_namespace s, sel_namespace_match_labels = [],
      sel_namespace_match_expressions = [], sel_service_account = api_service_account s,
      sel_application = api_application s, sel_match_labels = api_match_labels s,
      sel_match_expressions = [], sel_ipv4_blocks = [], sel_ipv6_blocks = []\<rparr>"

fun convert_action :: "Action \<Rightarrow> PolicyAction" where
  "convert_action ApiAllow = AllowAction"
| "convert_action ApiDeny = DenyAction"
| "convert_action ApiAudit = AuditAction"

definition u32_try_from :: "nat \<Rightarrow> u32 option" where
  "u32_try_from n = (if n < 2 ^ 32 then Some (of_nat n) else None)"

definition push_rule ::
  "PolicyRule list \<Rightarrow> u32 \<Rightarrow> string \<Rightarrow> string \<Rightarrow> IdentitySelector \<Rightarrow> IdentitySelector \<Rightarrow>
   Protocol option \<Rightarrow> DestinationPort \<Rightarrow> PolicyAction \<Rightarrow> nat \<Rightarrow>
   (PolicyCompileError, PolicyRule list) res" where
  "push_rule rules policy_id policy_name namespace source destination protocol destination_port
     action source_index =
     (case u32_try_from (length rules) of
        None \<Rightarrow> Err TooManyRules
      | Some i \<Rightarrow>
        (case u32_try_from source_index of
           None \<Rightarrow> Err TooManyRules
         | Some rule_index \<Rightarrow> Ok (rules @
             [\<lparr>rule_id = i, rule_source = source, rule_destination = destination,
               rule_protocol = protocol, rule_destination_port = destination_port,
               rule_action = action,
               rule_provenance = \<lparr>prov_policy_id = policy_id, prov_policy_name = policy_name,
                 prov_namespace = namespace, prov_rule_index = rule_index\<rparr>\<rparr>])))"

fun transport_protocol :: "TransportProtocol \<Rightarrow> Protocol" where
  "transport_protocol TransportTcp = Tcp"
| "transport_protocol TransportUdp = Udp"

definition compile_ingress_rule ::
  "u32 \<Rightarrow> string \<Rightarrow> string \<Rightarrow> IdentitySelector \<Rightarrow> PolicyRule list \<Rightarrow> nat \<times> IngressRule \<Rightarrow>
   (PolicyCompileError, PolicyRule list) res" where
  "compile_ingress_rule policy_id name namespace target rules = (\<lambda>(source_index, rule).
     if list_ex (\<lambda>item. pp_port item = 0) (in_protocols rule) then Err (InvalidPort source_index)
     else
       let source = selector_from_api (in_from rule); action = convert_action (in_action rule) in
       if in_protocols rule = [] then
         push_rule rules policy_id name namespace source target None AnyPort action source_index
       else try_fold (\<lambda>rules protocol_port.
         push_rule rules policy_id name namespace source target
           (Some (transport_protocol (pp_protocol protocol_port)))
           (Number (pp_port protocol_port)) action source_index) rules (in_protocols rule))"

definition compile :: "u32 \<Rightarrow> SecurityPolicy \<Rightarrow> (PolicyCompileError, PolicyIr) res" where
  "compile policy_id policy =
     (case meta_name policy of None \<Rightarrow> Err MissingName | Some name \<Rightarrow>
      (case meta_namespace policy of None \<Rightarrow> Err MissingNamespace | Some namespace \<Rightarrow>
       let spec = sp_spec policy;
           target0 = selector_from_api (spec_target spec);
           target = (case sel_namespace target0 of
             None \<Rightarrow> target0\<lparr>sel_namespace := Some namespace\<rparr> | Some _ \<Rightarrow> target0)
       in rbind (try_fold (compile_ingress_rule policy_id name namespace target) []
            (List.enumerate 0 (spec_ingress spec))) (\<lambda>rules.
          Ok \<lparr>pol_id = policy_id, pol_name = name, pol_namespace = namespace,
              pol_priority = spec_priority spec, pol_origin = Native, pol_direction = Ingress,
              pol_target = target,
              pol_default_action = convert_action (spec_default_action spec),
              pol_enforcement_mode = (case spec_enforcement_mode spec of
                ApiEnforce \<Rightarrow> Enforce | ApiShadow \<Rightarrow> Shadow),
              pol_rules = rules\<rparr>)))"

section \<open>Evaluation\<close>

definition KUBERNETES_NETWORK_POLICY_PRIORITY :: u32 where
  "KUBERNETES_NETWORK_POLICY_PRIORITY = 1000000"

type_synonym RankedDecision = "u32 \<times> PolicyAction \<times> u32 \<times> u32 option \<times> PolicyReason"

datatype Ordering = Less | Equal | Greater

definition cmp :: "'a::linorder \<Rightarrow> 'a \<Rightarrow> Ordering" where
  "cmp x y = (if x < y then Less else if x = y then Equal else Greater)"

fun ordering_then :: "Ordering \<Rightarrow> Ordering \<Rightarrow> Ordering" where
  "ordering_then Equal other = other"
| "ordering_then self other = self"

fun action_rank :: "PolicyAction \<Rightarrow> u8" where
  "action_rank DenyAction = 0"
| "action_rank AllowAction = 1"
| "action_rank AuditAction = 2"

fun action_verdict :: "PolicyAction \<Rightarrow> Verdict" where
  "action_verdict AllowAction = AllowVerdict"
| "action_verdict DenyAction = DenyVerdict"
| "action_verdict AuditAction = AuditVerdict"

fun compare_decisions :: "RankedDecision \<Rightarrow> RankedDecision \<Rightarrow> Ordering" where
  "compare_decisions (p, a, i, r, _) (p', a', i', r', _) =
     ordering_then (ordering_then (ordering_then
       (cmp p p') (cmp (action_rank a) (action_rank a'))) (cmp i i')) (cmp r r')"

definition rule_matches :: "PolicyRule \<Rightarrow> Flow \<Rightarrow> DestinationAddresses \<Rightarrow> bool" where
  "rule_matches rule flow addresses \<longleftrightarrow>
     matches_source (rule_source rule) (flow_source flow) (flow_source_ipv4 flow)
       (flow_source_ipv6 flow) \<and>
     matches_destination (rule_destination rule) (flow_destination flow) addresses \<and>
     (case rule_protocol rule of None \<Rightarrow> True | Some v \<Rightarrow> v = flow_protocol flow) \<and>
     (case rule_destination_port rule of
        AnyPort \<Rightarrow> True
      | Number port \<Rightarrow> port = flow_destination_port flow
      | Named name \<Rightarrow>
          (case resolve_named_port (flow_destination flow) name (flow_protocol flow) of
             None \<Rightarrow> False | Some port \<Rightarrow> port = flow_destination_port flow)
      | Range start end_port \<Rightarrow>
          start \<le> flow_destination_port flow \<and> flow_destination_port flow \<le> end_port)"

definition matching_audits ::
  "PolicyIr list \<Rightarrow> Flow \<Rightarrow> DestinationAddresses \<Rightarrow> RuleProvenance list" where
  "matching_audits policies flow addresses =
     map rule_provenance (filter (\<lambda>rule. rule_action rule = AuditAction \<and>
       rule_matches rule flow addresses) (concat (map pol_rules policies)))"

definition consider_candidate :: "RankedDecision option \<Rightarrow> RankedDecision \<Rightarrow> RankedDecision option" where
  "consider_candidate best candidate =
     (case best of None \<Rightarrow> Some candidate
      | Some current \<Rightarrow>
          if compare_decisions candidate current = Less then Some candidate else best)"

definition consider_native ::
  "Flow \<Rightarrow> DestinationAddresses \<Rightarrow> RankedDecision option \<Rightarrow> PolicyIr \<Rightarrow> RankedDecision option" where
  "consider_native flow addresses best policy =
     (let matched = filter (\<lambda>rule. rule_matches rule flow addresses) (pol_rules policy);
          enforcing_rules = filter (\<lambda>rule. rule_action rule \<noteq> AuditAction) matched
      in if enforcing_rules \<noteq> [] then
           foldl (\<lambda>best rule. consider_candidate best (pol_priority policy, rule_action rule, pol_id policy,
             Some (rule_id rule), ExplicitRule)) best enforcing_rules
         else if pol_default_action policy \<noteq> AuditAction then
           consider_candidate best (pol_priority policy, pol_default_action policy, pol_id policy, None,
             DefaultAction)
         else best)"

definition decide_for_mode ::
  "PolicyIr list \<Rightarrow> Flow \<Rightarrow> DestinationAddresses \<Rightarrow> PolicyEnforcementMode \<Rightarrow>
   (Verdict \<times> PolicyReason \<times> u32 option \<times> u32 option) option" where
  "decide_for_mode policies flow addresses mode =
     (let native = filter (\<lambda>p. pol_enforcement_mode p = mode \<and> pol_origin p = Native) policies;
          best1 = foldl (consider_native flow addresses) None native;
          compat = filter (\<lambda>p. pol_enforcement_mode p = mode \<and>
            pol_origin p = KubernetesNetworkPolicy) policies;
          matched = filter (\<lambda>rule. rule_matches rule flow addresses)
            (concat (map pol_rules compat));
          (compatibility_rule_matched, best2) = foldl (\<lambda>(_, best) rule.
            (True, consider_candidate best (KUBERNETES_NETWORK_POLICY_PRIORITY, rule_action rule,
              prov_policy_id (rule_provenance rule), Some (rule_id rule), ExplicitRule)))
            (False, best1) matched;
          best3 = (if compatibility_rule_matched then best2
            else foldl (\<lambda>best p. consider_candidate best (pol_priority p, pol_default_action p, pol_id p,
              None, DefaultAction)) best2
              (filter (\<lambda>p. pol_enforcement_mode p = mode \<and> pol_origin p = KubernetesNetworkPolicy \<and>
                pol_default_action p \<noteq> AuditAction) policies))
      in map_option (\<lambda>(_, action, policy_id, rule, reason).
           (action_verdict action, reason, Some policy_id, rule)) best3)"

definition selected_endpoint :: "PolicyDirection \<Rightarrow> Flow \<Rightarrow> Endpoint" where
  "selected_endpoint direction flow =
     (case direction of Ingress \<Rightarrow> flow_destination flow | Egress \<Rightarrow> flow_source flow)"

definition applicable :: "PolicyDirection \<Rightarrow> Flow \<Rightarrow> PolicyIr \<Rightarrow> bool" where
  "applicable direction flow policy \<longleftrightarrow> pol_direction policy = direction \<and>
     selector_matches (pol_target policy) (selected_endpoint direction flow)"

definition evaluate_for_direction_with_addresses ::
  "PolicyIr list \<Rightarrow> PolicyDirection \<Rightarrow> Flow \<Rightarrow> DestinationAddresses \<Rightarrow> PolicyDecision" where
  "evaluate_for_direction_with_addresses policies direction flow addresses =
     (let applicable_policies = filter (applicable direction flow) policies;
          audits = sort_key (\<lambda>p. (prov_policy_id p, prov_rule_index p))
            (matching_audits applicable_policies flow addresses);
          (verdict, reason, policy_id, rule) =
            (case decide_for_mode applicable_policies flow addresses Enforce of
               None \<Rightarrow> (AllowVerdict, NoApplicablePolicy, None, None) | Some d \<Rightarrow> d);
          (shadow_verdict, shadow_reason, shadow_policy_id, shadow_rule_id) =
            (case decide_for_mode applicable_policies flow addresses Shadow of
               None \<Rightarrow> (None, None, None, None)
             | Some (v, why, i, r) \<Rightarrow> (Some v, Some why, i, r))
      in \<lparr>dec_direction = direction, dec_verdict = verdict, dec_shadow_verdict = shadow_verdict,
          dec_shadow_reason = shadow_reason, dec_shadow_policy_id = shadow_policy_id,
          dec_shadow_rule_id = shadow_rule_id, dec_reason = reason, dec_policy_id = policy_id,
          dec_rule_id = rule, dec_audits = audits\<rparr>)"

definition evaluate_for_direction ::
  "PolicyIr list \<Rightarrow> PolicyDirection \<Rightarrow> Flow \<Rightarrow> PolicyDecision" where
  "evaluate_for_direction policies direction flow =
     evaluate_for_direction_with_addresses policies direction flow no_addresses"

definition evaluate :: "PolicyIr list \<Rightarrow> Flow \<Rightarrow> PolicyDecision" where
  "evaluate policies flow = evaluate_for_direction policies Ingress flow"

definition evaluate_preselected_enforcement_with_addresses ::
  "PolicyIr list \<Rightarrow> PolicyDirection \<Rightarrow> Flow \<Rightarrow> DestinationAddresses \<Rightarrow>
   PolicyEnforcementDecision" where
  "evaluate_preselected_enforcement_with_addresses policies direction flow addresses =
     (let (verdict, reason, policy_id, _) =
        (case decide_for_mode policies flow addresses Enforce of
           None \<Rightarrow> (AllowVerdict, NoApplicablePolicy, None, None) | Some d \<Rightarrow> d)
      in \<lparr>enf_verdict = verdict, enf_reason = reason, enf_policy_id = policy_id\<rparr>)"

section \<open>The evaluator returns the least candidate\<close>

text \<open>The decisions that compete for a flow: enforcing rules of native policies, the default of a
  native policy none of whose enforcing rules match, matching compatibility rules, and the defaults
  of compatibility policies when no compatibility rule matches.\<close>

abbreviation in_mode :: "PolicyEnforcementMode \<Rightarrow> PolicyOrigin \<Rightarrow> PolicyIr \<Rightarrow> bool" where
  "in_mode mode origin p \<equiv> pol_enforcement_mode p = mode \<and> pol_origin p = origin"

inductive candidate ::
  "PolicyIr set \<Rightarrow> Flow \<Rightarrow> DestinationAddresses \<Rightarrow> PolicyEnforcementMode \<Rightarrow> RankedDecision \<Rightarrow> bool"
  for ps f a mode where
  native_rule: "p \<in> ps \<Longrightarrow> in_mode mode Native p \<Longrightarrow> r \<in> set (pol_rules p) \<Longrightarrow> rule_matches r f a \<Longrightarrow>
    rule_action r \<noteq> AuditAction \<Longrightarrow>
    candidate ps f a mode
      (pol_priority p, rule_action r, pol_id p, Some (rule_id r), ExplicitRule)"
| native_default: "p \<in> ps \<Longrightarrow> in_mode mode Native p \<Longrightarrow>
    (\<forall>r \<in> set (pol_rules p). rule_matches r f a \<longrightarrow> rule_action r = AuditAction) \<Longrightarrow>
    pol_default_action p \<noteq> AuditAction \<Longrightarrow>
    candidate ps f a mode (pol_priority p, pol_default_action p, pol_id p, None, DefaultAction)"
| compat_rule: "p \<in> ps \<Longrightarrow> in_mode mode KubernetesNetworkPolicy p \<Longrightarrow> r \<in> set (pol_rules p) \<Longrightarrow>
    rule_matches r f a \<Longrightarrow>
    candidate ps f a mode (KUBERNETES_NETWORK_POLICY_PRIORITY, rule_action r,
      prov_policy_id (rule_provenance r), Some (rule_id r), ExplicitRule)"
| compat_default: "p \<in> ps \<Longrightarrow> in_mode mode KubernetesNetworkPolicy p \<Longrightarrow>
    (\<forall>q \<in> ps. in_mode mode KubernetesNetworkPolicy q \<longrightarrow>
       (\<forall>r \<in> set (pol_rules q). \<not> rule_matches r f a)) \<Longrightarrow>
    pol_default_action p \<noteq> AuditAction \<Longrightarrow>
    candidate ps f a mode (pol_priority p, pol_default_action p, pol_id p, None, DefaultAction)"

fun decision_key :: "RankedDecision \<Rightarrow> u32 \<times> u8 \<times> u32 \<times> u32 option" where
  "decision_key (p, a, i, r, _) = (p, action_rank a, i, r)"

fun decision_outcome :: "RankedDecision \<Rightarrow> Verdict \<times> PolicyReason \<times> u32 option \<times> u32 option" where
  "decision_outcome (_, a, i, r, why) = (action_verdict a, why, Some i, r)"

lemma action_rank_inj [simp]: "action_rank a = action_rank b \<longleftrightarrow> a = b"
  by (cases a; cases b) simp_all

lemma compare_decisions_Less: "compare_decisions c d = Less \<longleftrightarrow> decision_key c < decision_key d"
proof -
  obtain p a i r w where c: "c = (p, a, i, r, w)" by (cases c) auto
  obtain p' a' i' r' w' where d: "d = (p', a', i', r', w')" by (cases d) auto
  show ?thesis unfolding c d by (auto simp: cmp_def less_prod_def' split: if_splits)
qed

lemma candidate_reason:
  "candidate ps f a mode (p, act, i, r, why) \<Longrightarrow> why = (if r = None then DefaultAction else ExplicitRule)"
  by (erule candidate.cases) auto

lemma candidate_key_inj:
  "candidate ps f a mode c \<Longrightarrow> candidate ps f a mode d \<Longrightarrow> decision_key c = decision_key d \<Longrightarrow> c = d"
  by (cases c; cases d) (auto dest: candidate_reason)

text \<open>Folding \<open>consider_candidate\<close> over a list keeps a least element of it.\<close>

definition least_of :: "RankedDecision set \<Rightarrow> RankedDecision option \<Rightarrow> bool" where
  "least_of S best = (case best of None \<Rightarrow> S = {}
     | Some c \<Rightarrow> c \<in> S \<and> (\<forall>d \<in> S. decision_key c \<le> decision_key d))"

lemma least_of_consider:
  "least_of S best \<Longrightarrow> least_of (insert c S) (consider_candidate best c)"
  by (cases best)
    (auto simp: least_of_def consider_candidate_def compare_decisions_Less
      intro: order.trans less_imp_le)

lemma least_of_foldl:
  "least_of S best \<Longrightarrow> least_of (S \<union> g ` set xs) (foldl (\<lambda>best x. consider_candidate best (g x)) best xs)"
proof (induction xs arbitrary: S best)
  case (Cons x xs)
  have "least_of (insert (g x) S \<union> g ` set xs)
    (foldl (\<lambda>best x. consider_candidate best (g x)) (consider_candidate best (g x)) xs)"
    by (rule Cons.IH [OF least_of_consider [OF Cons.prems]])
  then show ?case by simp
qed simp

definition native_candidates :: "Flow \<Rightarrow> DestinationAddresses \<Rightarrow> PolicyIr \<Rightarrow> RankedDecision set" where
  "native_candidates f a p =
     (if \<exists>r \<in> set (pol_rules p). rule_matches r f a \<and> rule_action r \<noteq> AuditAction
      then (\<lambda>r. (pol_priority p, rule_action r, pol_id p, Some (rule_id r), ExplicitRule)) `
        {r \<in> set (pol_rules p). rule_matches r f a \<and> rule_action r \<noteq> AuditAction}
      else if pol_default_action p \<noteq> AuditAction
      then {(pol_priority p, pol_default_action p, pol_id p, None, DefaultAction)} else {})"

lemma least_of_native:
  assumes "least_of S best"
  shows "least_of (S \<union> native_candidates f a p) (consider_native f a best p)"
proof (cases "\<exists>r \<in> set (pol_rules p). rule_matches r f a \<and> rule_action r \<noteq> AuditAction")
  case True
  then have "filter (\<lambda>r. rule_action r \<noteq> AuditAction)
      (filter (\<lambda>r. rule_matches r f a) (pol_rules p)) \<noteq> []"
    by (auto simp: filter_empty_conv)
  moreover have "{r \<in> set (pol_rules p). rule_matches r f a \<and> rule_action r \<noteq> AuditAction} =
      set (filter (\<lambda>r. rule_action r \<noteq> AuditAction)
        (filter (\<lambda>r. rule_matches r f a) (pol_rules p)))"
    by auto
  ultimately show ?thesis
    using True unfolding consider_native_def native_candidates_def Let_def
    by (simp only: if_True simp_thms least_of_foldl [OF assms])
next
  case False
  then have "filter (\<lambda>r. rule_action r \<noteq> AuditAction)
      (filter (\<lambda>r. rule_matches r f a) (pol_rules p)) = []"
    by (auto simp: filter_empty_conv)
  then show ?thesis
    using False least_of_consider [OF assms] assms
    unfolding consider_native_def native_candidates_def Let_def by auto
qed

lemma least_of_native_foldl:
  "least_of S best \<Longrightarrow>
   least_of (S \<union> (\<Union>p \<in> set ps. native_candidates f a p)) (foldl (consider_native f a) best ps)"
proof (induction ps arbitrary: S best)
  case (Cons p ps)
  have "least_of ((S \<union> native_candidates f a p) \<union> (\<Union>p \<in> set ps. native_candidates f a p))
    (foldl (consider_native f a) (consider_native f a best p) ps)"
    by (rule Cons.IH [OF least_of_native [OF Cons.prems]])
  then show ?case by (simp add: Un_assoc)
qed simp

lemma compat_foldl:
  "foldl (\<lambda>(_, best) r. (True, consider_candidate best (g r))) (b, best) rs =
     (b \<or> rs \<noteq> [], foldl (\<lambda>best r. consider_candidate best (g r)) best rs)"
  by (induction rs arbitrary: b best) auto

definition decide_ranked ::
  "PolicyIr list \<Rightarrow> Flow \<Rightarrow> DestinationAddresses \<Rightarrow> PolicyEnforcementMode \<Rightarrow> RankedDecision option" where
  "decide_ranked policies f a mode =
     (let best1 = foldl (consider_native f a) None (filter (in_mode mode Native) policies);
          matched = filter (\<lambda>r. rule_matches r f a)
            (concat (map pol_rules (filter (in_mode mode KubernetesNetworkPolicy) policies)))
      in if matched \<noteq> [] then foldl (\<lambda>best r. consider_candidate best
             (KUBERNETES_NETWORK_POLICY_PRIORITY, rule_action r,
              prov_policy_id (rule_provenance r), Some (rule_id r), ExplicitRule)) best1 matched
         else foldl (\<lambda>best p. consider_candidate best
             (pol_priority p, pol_default_action p, pol_id p, None, DefaultAction)) best1
             (filter (\<lambda>p. in_mode mode KubernetesNetworkPolicy p \<and>
               pol_default_action p \<noteq> AuditAction) policies))"

lemma decide_for_mode_ranked:
  "decide_for_mode ps f a mode = map_option decision_outcome (decide_ranked ps f a mode)"
proof -
  have "(\<lambda>(_, action, policy_id, rule, reason).
      (action_verdict action, reason, Some policy_id, rule)) = decision_outcome"
    by (simp add: fun_eq_iff)
  then show ?thesis
    by (simp add: decide_for_mode_def decide_ranked_def Let_def compat_foldl conj_assoc)
qed

lemma candidates_native:
  "(\<Union>p \<in> set (filter (in_mode mode Native) ps). native_candidates f a p) \<subseteq>
     Collect (candidate (set ps) f a mode)"
  by (auto simp: native_candidates_def intro: candidate.intros split: if_splits)

lemma least_of_decide: "least_of (Collect (candidate (set ps) f a mode)) (decide_ranked ps f a mode)"
proof -
  let ?N = "\<Union>p \<in> set (filter (in_mode mode Native) ps). native_candidates f a p"
  let ?m = "filter (\<lambda>r. rule_matches r f a)
            (concat (map pol_rules (filter (in_mode mode KubernetesNetworkPolicy) ps)))"
  have base: "least_of ?N (foldl (consider_native f a) None (filter (in_mode mode Native) ps))"
    using least_of_native_foldl [of "{}" None f a "filter (in_mode mode Native) ps"]
    by (simp add: least_of_def)
  show ?thesis
  proof (cases "?m = []")
    case False
    have eq: "Collect (candidate (set ps) f a mode) = ?N \<union>
      (\<lambda>r. (KUBERNETES_NETWORK_POLICY_PRIORITY, rule_action r,
        prov_policy_id (rule_provenance r), Some (rule_id r), ExplicitRule)) ` set ?m"
      (is "?C = ?N \<union> ?K")
    proof
      show "?N \<union> ?K \<subseteq> ?C" using candidates_native by (auto intro: candidate.intros)
      show "?C \<subseteq> ?N \<union> ?K"
        using False
        by (auto simp: filter_empty_conv native_candidates_def elim!: candidate.cases split: if_splits)
    qed
    show ?thesis
      using False unfolding eq decide_ranked_def Let_def
      by (simp only: if_True simp_thms least_of_foldl [OF base])
  next
    case True
    let ?d = "filter (\<lambda>p. in_mode mode KubernetesNetworkPolicy p \<and> pol_default_action p \<noteq> AuditAction) ps"
    have eq: "Collect (candidate (set ps) f a mode) = ?N \<union>
      (\<lambda>p. (pol_priority p, pol_default_action p, pol_id p, None, DefaultAction)) ` set ?d"
      (is "?C = ?N \<union> ?K")
    proof
      show "?N \<union> ?K \<subseteq> ?C" 
        using candidates_native True by (auto simp: filter_empty_conv intro: candidate.intros)
      show "?C \<subseteq> ?N \<union> ?K"
        using True
        by (auto simp: filter_empty_conv native_candidates_def elim!: candidate.cases split: if_splits)
    qed
    show ?thesis
      using True unfolding eq decide_ranked_def Let_def
      by (simp only: if_False simp_thms least_of_foldl [OF base])
  qed
qed


lemma least_of_unique:
  assumes "least_of S b" "least_of S c" "inj_on decision_key S"
  shows "b = c"
proof (cases b)
  case None
  then show ?thesis using assms(1,2) by (cases c) (auto simp: least_of_def)
next
  case (Some x)
  then obtain y where c: "c = Some y"
    using assms(1,2) by (cases c) (auto simp: least_of_def)
  have "x \<in> S" "y \<in> S" and "decision_key x \<le> decision_key y" "decision_key y \<le> decision_key x"
    using assms(1,2) Some c by (simp_all add: least_of_def)
  then have "x = y" by (intro inj_onD [OF assms(3)] order.antisym)
  then show ?thesis using Some c by simp
qed

lemma candidate_keys_inj: "inj_on decision_key (Collect (candidate ps f a mode))"
  by (rule inj_onI) (rule candidate_key_inj; simp)

lemma decide_for_mode_cong_set:
  assumes "set ps = set qs"
  shows "decide_for_mode ps f a mode = decide_for_mode qs f a mode"
proof -
  have "least_of (Collect (candidate (set ps) f a mode)) (decide_ranked qs f a mode)"
    using least_of_decide [of qs f a mode] by (simp only: assms)
  then have "decide_ranked ps f a mode = decide_ranked qs f a mode"
    by (rule least_of_unique [OF least_of_decide _ candidate_keys_inj])
  then show ?thesis by (simp only: decide_for_mode_ranked)
qed

lemma candidate_mode:
  "candidate {p \<in> ps. pol_enforcement_mode p = mode} f a mode = candidate ps f a mode"
proof (intro ext iffI)
  fix c
  assume "candidate {p \<in> ps. pol_enforcement_mode p = mode} f a mode c"
  then show "candidate ps f a mode c"
    by cases (auto intro: candidate.intros)
next
  fix c
  assume "candidate ps f a mode c"
  then show "candidate {p \<in> ps. pol_enforcement_mode p = mode} f a mode c"
  proof cases
    case (native_rule p r)
    then show ?thesis by (auto intro: candidate.native_rule)
  next
    case (native_default p)
    then show ?thesis by (auto intro: candidate.native_default)
  next
    case (compat_rule p r)
    then show ?thesis by (auto intro: candidate.compat_rule)
  next
    case (compat_default p)
    then show ?thesis by (auto intro: candidate.compat_default)
  qed
qed

lemma decide_for_mode_filter_mode:
  "decide_for_mode (filter (\<lambda>p. pol_enforcement_mode p = mode) ps) f a mode =
   decide_for_mode ps f a mode"
proof -
  let ?q = "filter (\<lambda>p. pol_enforcement_mode p = mode) ps"
  have "least_of (Collect (candidate (set ps) f a mode)) (decide_ranked ?q f a mode)"
    using least_of_decide [of ?q f a mode] by (simp only: set_filter candidate_mode)
  then have "decide_ranked ps f a mode = decide_ranked ?q f a mode"
    by (rule least_of_unique [OF least_of_decide _ candidate_keys_inj])
  then show ?thesis by (simp only: decide_for_mode_ranked)
qed

lemma decide_for_mode_Some_iff:
  "decide_for_mode ps f a mode = Some x \<longleftrightarrow>
     (\<exists>c. is_arg_min decision_key (candidate (set ps) f a mode) c \<and> x = decision_outcome c)"
proof -
  have "is_arg_min decision_key (candidate (set ps) f a mode) c \<longleftrightarrow> decide_ranked ps f a mode = Some c"
    for c
  proof
    assume "is_arg_min decision_key (candidate (set ps) f a mode) c"
    then have "least_of (Collect (candidate (set ps) f a mode)) (Some c)"
      by (auto simp: least_of_def is_arg_min_linorder)
    then show "decide_ranked ps f a mode = Some c"
      by (rule least_of_unique [OF least_of_decide _ candidate_keys_inj])
  next
    assume "decide_ranked ps f a mode = Some c"
    then show "is_arg_min decision_key (candidate (set ps) f a mode) c"
      using least_of_decide [of ps f a mode] by (auto simp: least_of_def is_arg_min_linorder)
  qed
  then show ?thesis by (auto simp: decide_for_mode_ranked)
qed

lemma decide_for_mode_None_iff:
  "decide_for_mode ps f a mode = None \<longleftrightarrow> (\<forall>c. \<not> candidate (set ps) f a mode c)"
proof (cases "decide_ranked ps f a mode")
  case None
  then show ?thesis
    using least_of_decide [of ps f a mode] by (auto simp: least_of_def decide_for_mode_ranked)
next
  case (Some c)
  then have "candidate (set ps) f a mode c"
    using least_of_decide [of ps f a mode] by (simp add: least_of_def)
  with Some show ?thesis by (auto simp only: decide_for_mode_ranked)
qed

lemmas evaluate_defs = evaluate_def evaluate_for_direction_def
  evaluate_for_direction_with_addresses_def

lemma evaluate_fields:
  fixes ps d f a
  defines "e \<equiv> evaluate_for_direction_with_addresses ps d f a"
    and "q \<equiv> filter (applicable d f) ps"
  shows "dec_verdict e = (case decide_for_mode q f a Enforce of None \<Rightarrow> AllowVerdict | Some x \<Rightarrow> fst x)"
    and "dec_reason e =
      (case decide_for_mode q f a Enforce of None \<Rightarrow> NoApplicablePolicy | Some x \<Rightarrow> fst (snd x))"
    and "dec_policy_id e =
      (case decide_for_mode q f a Enforce of None \<Rightarrow> None | Some x \<Rightarrow> fst (snd (snd x)))"
    and "dec_rule_id e =
      (case decide_for_mode q f a Enforce of None \<Rightarrow> None | Some x \<Rightarrow> snd (snd (snd x)))"
    and "dec_shadow_verdict e = map_option fst (decide_for_mode q f a Shadow)"
    and "dec_shadow_reason e = map_option (fst \<circ> snd) (decide_for_mode q f a Shadow)"
    and "dec_shadow_policy_id e =
      (case decide_for_mode q f a Shadow of None \<Rightarrow> None | Some x \<Rightarrow> fst (snd (snd x)))"
    and "dec_shadow_rule_id e =
      (case decide_for_mode q f a Shadow of None \<Rightarrow> None | Some x \<Rightarrow> snd (snd (snd x)))"
    and "dec_audits e = sort_key (\<lambda>p. (prov_policy_id p, prov_rule_index p)) (matching_audits q f a)"
    and "dec_direction e = d"
  unfolding e_def q_def evaluate_for_direction_with_addresses_def Let_def
  by (auto split: option.splits prod.splits)

lemma evaluate_eqI:
  assumes "decide_for_mode (filter (applicable d f) ps) f a Enforce =
      decide_for_mode (filter (applicable d g) qs) g b Enforce"
    and "decide_for_mode (filter (applicable d f) ps) f a Shadow =
      decide_for_mode (filter (applicable d g) qs) g b Shadow"
  shows "(evaluate_for_direction_with_addresses ps d f a)\<lparr>dec_audits := []\<rparr> =
    (evaluate_for_direction_with_addresses qs d g b)\<lparr>dec_audits := []\<rparr>"
  using assms by (intro PolicyDecision.equality) (simp_all add: evaluate_fields)

lemma mset_concat_map: "mset (concat (map g xs)) = (\<Sum>x \<in># mset xs. mset (g x))"
  by (induction xs) simp_all

section \<open>Allow-list policies\<close>

text \<open>The shape of a compiled Kubernetes policy: allow rules under a default deny.\<close>

definition allow_list_policy :: "PolicyIr \<Rightarrow> bool" where
  "allow_list_policy p \<longleftrightarrow> pol_origin p = KubernetesNetworkPolicy \<and>
     pol_default_action p = DenyAction \<and> list_all (\<lambda>r. rule_action r = AllowAction) (pol_rules p)"

lemma allow_list_candidate:
  assumes "\<And>p. p \<in> Q \<Longrightarrow> pol_enforcement_mode p = mode \<Longrightarrow> allow_list_policy p"
    and "candidate Q f a mode c"
  shows "fst (snd c) = AllowAction \<and>
      (\<exists>p \<in> Q. pol_enforcement_mode p = mode \<and> (\<exists>r \<in> set (pol_rules p). rule_matches r f a)) \<or>
    fst (snd c) = DenyAction \<and> (\<exists>p \<in> Q. pol_enforcement_mode p = mode) \<and>
      (\<forall>p \<in> Q. pol_enforcement_mode p = mode \<longrightarrow> (\<forall>r \<in> set (pol_rules p). \<not> rule_matches r f a))"
  using assms(2)
proof cases
  case (native_rule p r)
  then show ?thesis using assms(1) [of p] by (auto simp: allow_list_policy_def)
next
  case (native_default p)
  then show ?thesis using assms(1) [of p] by (auto simp: allow_list_policy_def)
next
  case (compat_rule p r)
  then show ?thesis using assms(1) [of p] by (auto simp: allow_list_policy_def list_all_iff)
next
  case (compat_default p)
  then show ?thesis using assms(1) by (auto simp: allow_list_policy_def)
qed

lemma allow_list_some:
  assumes "\<And>p. p \<in> Q \<Longrightarrow> pol_enforcement_mode p = mode \<Longrightarrow> allow_list_policy p"
    and p: "p \<in> Q" "pol_enforcement_mode p = mode"
  shows "\<exists>c. candidate Q f a mode c"
proof (cases "\<exists>q \<in> Q. pol_enforcement_mode q = mode \<and>
    (\<exists>r \<in> set (pol_rules q). rule_matches r f a)")
  case True
  then obtain q r where q: "q \<in> Q" "pol_enforcement_mode q = mode" "r \<in> set (pol_rules q)"
    "rule_matches r f a" by auto
  moreover have "pol_origin q = KubernetesNetworkPolicy"
    using assms(1) [OF q(1,2)] by (simp add: allow_list_policy_def)
  ultimately show ?thesis using compat_rule [of q Q mode r f a] by blast
next
  case False
  moreover have "pol_origin p = KubernetesNetworkPolicy" "pol_default_action p \<noteq> AuditAction"
    using assms(1) [OF p] by (simp_all add: allow_list_policy_def)
  ultimately show ?thesis using compat_default [of p Q mode f a] p by blast
qed

section \<open>Compiled policies are well formed\<close>

text \<open>What the lowering relies on: a rule for every protocol is a rule for every port, and no rule
  names port zero, which the dataplane maps reserve for their wildcard rows.\<close>

definition rule_wf :: "PolicyRule \<Rightarrow> bool" where
  "rule_wf r = (case rule_destination_port r of
      AnyPort \<Rightarrow> True
    | Number port \<Rightarrow> rule_protocol r \<noteq> None \<and> port \<noteq> 0
    | Named _ \<Rightarrow> rule_protocol r \<noteq> None
    | Range start _ \<Rightarrow> rule_protocol r \<noteq> None \<and> start \<noteq> 0)"

definition rules_numbered :: "u32 \<Rightarrow> PolicyRule list \<Rightarrow> bool" where
  "rules_numbered policy_id rules \<longleftrightarrow> length rules \<le> 2 ^ 32 \<and>
     (\<forall>i < length rules. rule_id (rules ! i) = of_nat i \<and>
        prov_policy_id (rule_provenance (rules ! i)) = policy_id)"

lemma push_rule_numbered:
  assumes "push_rule rules pid name ns src dst proto port act idx = Ok rules'"
    and "rules_numbered pid rules"
  shows "rules_numbered pid rules'"
  using assms by (auto simp: push_rule_def u32_try_from_def rules_numbered_def nth_append less_Suc_eq
      split: if_splits option.splits)

lemma push_rule_set:
  assumes "push_rule rules pid name ns src dst proto port act idx = Ok rules'"
  obtains r where "rules' = rules @ [r]" "rule_source r = src" "rule_destination r = dst"
    "rule_protocol r = proto" "rule_destination_port r = port" "rule_action r = act"
  using assms by (auto simp: push_rule_def split: option.splits)

lemma rules_numbered_distinct: "rules_numbered pid rules \<Longrightarrow> distinct (map rule_id rules)"
  by (auto simp: rules_numbered_def distinct_conv_nth word_unat_eq_iff
      unsigned_of_nat take_bit_nat_eq_self)

definition compiled_rules :: "u32 \<Rightarrow> IdentitySelector \<Rightarrow> PolicyRule list \<Rightarrow> bool" where
  "compiled_rules policy_id target rules \<longleftrightarrow> rules_numbered policy_id rules \<and>
     list_all (\<lambda>r. rule_wf r \<and> rule_destination r = target) rules"

lemma push_rule_compiled:
  assumes "push_rule rules pid name ns src target proto port act idx = Ok rules'"
    and "compiled_rules pid target rules"
    and "proto = None \<and> port = AnyPort \<or> (\<exists>p n. proto = Some p \<and> port = Number n \<and> n \<noteq> 0)"
  shows "compiled_rules pid target rules'" and "length rules' = Suc (length rules)"
  using assms push_rule_numbered [OF assms(1)]
  by (auto simp: compiled_rules_def rule_wf_def elim!: push_rule_set)

lemma compile_ingress_rule_compiled:
  assumes "compile_ingress_rule pid name ns target rules (i, rule) = Ok rules'"
    and "compiled_rules pid target rules"
  shows "compiled_rules pid target rules' \<and>
    length rules' = length rules + max 1 (length (in_protocols rule))"
proof -
  let ?src = "selector_from_api (in_from rule)" and ?act = "convert_action (in_action rule)"
  have "compiled_rules pid target rules' \<and> length rules' = length rules + length pps"
    if "try_fold (\<lambda>rules pp. push_rule rules pid name ns ?src target
          (Some (transport_protocol (pp_protocol pp))) (Number (pp_port pp)) ?act i) rules pps
        = Ok rules'"
      and "compiled_rules pid target rules" and "\<forall>pp \<in> set pps. pp_port pp \<noteq> 0" for pps
    using that
  proof (induction pps arbitrary: rules)
    case (Cons pp pps)
    then obtain mid where push: "push_rule rules pid name ns ?src target
          (Some (transport_protocol (pp_protocol pp))) (Number (pp_port pp)) ?act i = Ok mid"
      and rest: "try_fold (\<lambda>rules pp. push_rule rules pid name ns ?src target
          (Some (transport_protocol (pp_protocol pp))) (Number (pp_port pp)) ?act i) mid pps
        = Ok rules'"
      by (auto simp: res_simps)
    have "compiled_rules pid target mid" "length mid = Suc (length rules)"
      using push_rule_compiled [OF push Cons.prems(2)] Cons.prems(3) by auto
    then show ?case using Cons.IH [OF rest] Cons.prems(3) by simp
  qed simp
  moreover have "max 1 (length (in_protocols rule)) = length (in_protocols rule)"
    if "in_protocols rule \<noteq> []" using that by (cases "in_protocols rule") auto
  ultimately show ?thesis
    using assms push_rule_compiled [of rules pid name ns ?src target None AnyPort ?act i rules']
    by (auto simp: compile_ingress_rule_def Let_def list_ex_iff split: if_splits)
qed

lemma compile_ingress_fold:
  assumes "try_fold (compile_ingress_rule pid name ns target) [] (List.enumerate 0 rs) = Ok rules"
  shows "compiled_rules pid target rules \<and>
    length rules = sum_list (map (\<lambda>r. max 1 (length (in_protocols r))) rs)"
proof -
  have "compiled_rules pid target rules' \<and>
      length rules' = length acc + sum_list (map (\<lambda>r. max 1 (length (in_protocols r))) rs)"
    if "try_fold (compile_ingress_rule pid name ns target) acc (List.enumerate n rs) = Ok rules'"
      "compiled_rules pid target acc" for rs acc n rules'
    using that
  proof (induction rs arbitrary: acc n)
    case (Cons r rs)
    then show ?case
      by (auto simp: res_simps dest!: compile_ingress_rule_compiled dest: Cons.IH)
  qed simp
  from this [OF assms] show ?thesis
    by (simp add: compiled_rules_def rules_numbered_def)
qed

section \<open>Properties\<close>

text \<open>
  C24: the evaluator picks, in each enforcement mode, the least competing decision under priority,
  action rank (deny before allow), policy and rule identifier, and reports its verdict and provenance.
\<close>

theorem decide_least_candidate:
  "decide_for_mode ps f a mode = Some x \<longleftrightarrow>
     (\<exists>c. is_arg_min decision_key (candidate (set ps) f a mode) c \<and> x = decision_outcome c)"
  by (rule decide_for_mode_Some_iff)

text \<open>
  C25: evaluation depends only on the policies that select the flow in the evaluated direction, and
  not on their order.  The audit trail is the same multiset, and the same list when policy and rule
  index determine a provenance.
\<close>

theorem evaluate_order_independent:
  assumes "mset (filter (applicable d f) ps) = mset (filter (applicable d f) qs)"
  shows "(evaluate_for_direction_with_addresses ps d f a)\<lparr>dec_audits := []\<rparr> =
      (evaluate_for_direction_with_addresses qs d f a)\<lparr>dec_audits := []\<rparr> \<and>
    mset (dec_audits (evaluate_for_direction_with_addresses ps d f a)) =
      mset (dec_audits (evaluate_for_direction_with_addresses qs d f a)) \<and>
    (inj_on (\<lambda>p. (prov_policy_id p, prov_rule_index p))
        (set (matching_audits (filter (applicable d f) ps) f a)) \<longrightarrow>
     evaluate_for_direction_with_addresses ps d f a =
       evaluate_for_direction_with_addresses qs d f a)"
proof -
  let ?k = "\<lambda>p. (prov_policy_id p, prov_rule_index p)"
  let ?P = "filter (applicable d f) ps" and ?Q = "filter (applicable d f) qs"
  have sets: "set ?P = set ?Q" using assms by (rule mset_eq_setD)
  have dec: "decide_for_mode ?P f a m = decide_for_mode ?Q f a m" for m
    by (rule decide_for_mode_cong_set [OF sets])
  have "mset (concat (map pol_rules ?P)) = mset (concat (map pol_rules ?Q))"
    by (simp only: mset_concat_map assms)
  then have audits: "mset (matching_audits ?P f a) = mset (matching_audits ?Q f a)"
    by (simp only: matching_audits_def mset_map mset_filter)
  have eq: "(evaluate_for_direction_with_addresses ps d f a)\<lparr>dec_audits := []\<rparr> =
      (evaluate_for_direction_with_addresses qs d f a)\<lparr>dec_audits := []\<rparr>"
    by (rule evaluate_eqI) (rule dec)+
  have "evaluate_for_direction_with_addresses ps d f a =
       evaluate_for_direction_with_addresses qs d f a"
    if "inj_on ?k (set (matching_audits ?P f a))"
  proof -
    have "sort_key ?k (matching_audits ?P f a) = sort_key ?k (matching_audits ?Q f a)"
      by (rule sort_key_inj_key_eq) (simp_all only: that mset_sort audits sorted_sort_key)
    then show ?thesis
      by (intro PolicyDecision.equality) (simp_all only: evaluate_fields dec, simp)
  qed
  moreover have "mset (dec_audits (evaluate_for_direction_with_addresses ps d f a)) =
      mset (dec_audits (evaluate_for_direction_with_addresses qs d f a))"
    by (simp only: evaluate_fields mset_sort audits)
  ultimately show ?thesis using eq by blast
qed

text \<open>
  C26: policies in shadow mode never change what is enforced, and enforced policies never change
  what the shadow policies would have decided.
\<close>

theorem shadow_isolated:
  "(let e = evaluate_for_direction_with_addresses ps d f a;
        enforced = evaluate_for_direction_with_addresses
          (filter (\<lambda>p. pol_enforcement_mode p = Enforce) ps) d f a;
        shadow = evaluate_for_direction_with_addresses
          (filter (\<lambda>p. pol_enforcement_mode p = Shadow) ps) d f a
    in (dec_verdict e, dec_reason e, dec_policy_id e, dec_rule_id e) =
         (dec_verdict enforced, dec_reason enforced, dec_policy_id enforced, dec_rule_id enforced) \<and>
       (dec_shadow_verdict e, dec_shadow_reason e, dec_shadow_policy_id e, dec_shadow_rule_id e) =
         (dec_shadow_verdict shadow, dec_shadow_reason shadow, dec_shadow_policy_id shadow,
          dec_shadow_rule_id shadow))"
proof -
  have dec: "decide_for_mode (filter (applicable d f) (filter (\<lambda>p. pol_enforcement_mode p = m) ps)) f a m
      = decide_for_mode (filter (applicable d f) ps) f a m" for m
  proof -
    have "filter (applicable d f) (filter (\<lambda>p. pol_enforcement_mode p = m) ps) =
      filter (\<lambda>p. pol_enforcement_mode p = m) (filter (applicable d f) ps)"
      by (induction ps) simp_all
    then show ?thesis by (simp only: decide_for_mode_filter_mode)
  qed
  show ?thesis unfolding Let_def prod.inject evaluate_fields dec by (intro conjI refl)
qed

text \<open>
  C27: the allocation-free evaluator over a preselected policy slice agrees with the full evaluator
  on verdict, reason and policy.
\<close>

theorem preselected_agrees:
  assumes "list_all (applicable d f) ps"
  shows "(let e = evaluate_for_direction_with_addresses ps d f a
    in evaluate_preselected_enforcement_with_addresses ps d f a =
       \<lparr>enf_verdict = dec_verdict e, enf_reason = dec_reason e, enf_policy_id = dec_policy_id e\<rparr>)"
proof -
  have all: "filter (applicable d f) ps = ps"
    using assms by (intro filter_True) (simp add: list_all_iff)
  show ?thesis
  proof (cases "decide_for_mode ps f a Enforce")
    case None
    show ?thesis
      unfolding evaluate_preselected_enforcement_with_addresses_def Let_def evaluate_fields all None
      by simp
  next
    case (Some x)
    obtain v why i r where "x = (v, why, i, r)" by (cases x) auto
    then show ?thesis
      unfolding evaluate_preselected_enforcement_with_addresses_def Let_def evaluate_fields all Some
      by simp
  qed
qed

text \<open>
  The union semantics of Kubernetes policies.  If every enforced policy that selects the flow
  is a compatibility policy with allow rules and default deny, the flow is allowed exactly when no
  enforced policy selects it or some rule of a selecting policy matches.
\<close>

lemma kubernetes_union:
  assumes "\<And>p. p \<in> set ps \<Longrightarrow> applicable d f p \<Longrightarrow> pol_enforcement_mode p = Enforce \<Longrightarrow>
      allow_list_policy p"
  shows "dec_verdict (evaluate_for_direction_with_addresses ps d f a) = AllowVerdict \<longleftrightarrow>
    \<not> (\<exists>p \<in> set ps. applicable d f p \<and> pol_enforcement_mode p = Enforce) \<or>
    (\<exists>p \<in> set ps. applicable d f p \<and> pol_enforcement_mode p = Enforce \<and>
       (\<exists>r \<in> set (pol_rules p). rule_matches r f a))"
proof -
  let ?Q = "set (filter (applicable d f) ps)"
  have Q: "\<And>p. p \<in> ?Q \<Longrightarrow> pol_enforcement_mode p = Enforce \<Longrightarrow> allow_list_policy p"
    using assms by simp
  show ?thesis
  proof (cases "decide_for_mode (filter (applicable d f) ps) f a Enforce")
    case None
    then have "\<And>p. p \<in> ?Q \<Longrightarrow> pol_enforcement_mode p \<noteq> Enforce"
      using allow_list_some [OF Q] unfolding decide_for_mode_None_iff by blast
    then show ?thesis using None by (auto simp: evaluate_fields)
  next
    case (Some x)
    then obtain c where c: "candidate ?Q f a Enforce c" "x = decision_outcome c"
      by (auto simp: decide_for_mode_Some_iff is_arg_min_def)
    from allow_list_candidate [OF Q c(1)] show ?thesis using Some c(2)
      by (cases c) (auto simp: evaluate_fields)
  qed
qed

text \<open>
  C32: a compiled \<open>SecurityPolicy\<close> is a native ingress policy confined to a namespace whose rules are
  numbered in order, carry the policy's identifier, select its target and are well formed, one per
  ingress rule and listed port.
\<close>

theorem compile_well_formed:
  assumes "compile policy_id policy = Ok ir"
  shows "pol_id ir = policy_id \<and> pol_origin ir = Native \<and> pol_direction ir = Ingress \<and>
    sel_namespace (pol_target ir) \<noteq> None \<and> rules_numbered policy_id (pol_rules ir) \<and>
    list_all (\<lambda>r. rule_wf r \<and> rule_destination r = pol_target ir) (pol_rules ir) \<and>
    length (pol_rules ir) =
      sum_list (map (\<lambda>r. max 1 (length (in_protocols r))) (spec_ingress (sp_spec policy)))"
proof -
  from assms obtain name ns target where
    fold: "try_fold (compile_ingress_rule policy_id name ns target) []
      (List.enumerate 0 (spec_ingress (sp_spec policy))) = Ok (pol_rules ir)"
    and fields: "pol_id ir = policy_id" "pol_origin ir = Native" "pol_direction ir = Ingress"
      "pol_target ir = target" "sel_namespace target \<noteq> None"
    by (auto simp: compile_def Let_def res_simps split: option.splits)
  have "compiled_rules policy_id target (pol_rules ir) \<and> length (pol_rules ir) =
      sum_list (map (\<lambda>r. max 1 (length (in_protocols r))) (spec_ingress (sp_spec policy)))"
    using compile_ingress_fold [OF fold] by simp
  then show ?thesis using fields by (simp add: compiled_rules_def)
qed

section \<open>Concrete policies\<close>

definition any_selector :: IdentitySelector where
  "any_selector = \<lparr>sel_namespace = None, sel_namespace_match_labels = [],
     sel_namespace_match_expressions = [], sel_service_account = None, sel_application = None,
     sel_match_labels = [], sel_match_expressions = [], sel_ipv4_blocks = [], sel_ipv6_blocks = []\<rparr>"

definition sample_endpoint :: "u32 \<Rightarrow> Endpoint" where
  "sample_endpoint identity = \<lparr>ep_identity = identity, ep_namespace = ''shop'',
     ep_namespace_labels = [], ep_service_account = ''default'', ep_application = None,
     ep_labels = [(''app'', ''web'')], ep_named_ports = [(NamedPort ''https'' Tcp, 443)]\<rparr>"

definition sample_flow :: "u16 \<Rightarrow> Flow" where
  "sample_flow port = \<lparr>flow_source = sample_endpoint 1, flow_destination = sample_endpoint 2,
     flow_protocol = Tcp, flow_destination_port = port, flow_source_ipv4 = None,
     flow_source_ipv6 = None\<rparr>"

definition sample_rule :: "PolicyAction \<Rightarrow> u16 \<Rightarrow> PolicyRule" where
  "sample_rule action port = \<lparr>rule_id = 0, rule_source = any_selector,
     rule_destination = any_selector, rule_protocol = Some Tcp,
     rule_destination_port = Number port, rule_action = action,
     rule_provenance = \<lparr>prov_policy_id = 7, prov_policy_name = ''web'', prov_namespace = ''shop'',
       prov_rule_index = 0\<rparr>\<rparr>"

definition sample_policy :: "PolicyOrigin \<Rightarrow> PolicyRule list \<Rightarrow> PolicyIr" where
  "sample_policy origin rules = \<lparr>pol_id = 7, pol_name = ''web'', pol_namespace = ''shop'',
     pol_priority = 1000, pol_origin = origin, pol_direction = Ingress,
     pol_target = any_selector, pol_default_action = DenyAction, pol_enforcement_mode = Enforce,
     pol_rules = rules\<rparr>"

definition sample_security_policy :: SecurityPolicy where
  "sample_security_policy = \<lparr>meta_name = Some ''web'', meta_namespace = Some ''shop'',
     sp_spec = \<lparr>spec_target = \<lparr>api_namespace = None, api_service_account = None,
         api_application = None, api_match_labels = []\<rparr>,
       spec_ingress = [\<lparr>in_from = \<lparr>api_namespace = None, api_service_account = None,
           api_application = None, api_match_labels = []\<rparr>,
         in_protocols = [\<lparr>pp_protocol = TransportTcp, pp_port = 443\<rparr>,
           \<lparr>pp_protocol = TransportUdp, pp_port = 53\<rparr>], in_action = ApiAllow\<rparr>],
       spec_priority = 1000, spec_default_action = ApiDeny, spec_enforcement_mode = ApiEnforce\<rparr>\<rparr>"

lemmas sample_policy_defs = any_selector_def sample_endpoint_def sample_flow_def sample_rule_def
  sample_policy_def

lemmas matching_defs = applicable_def selected_endpoint_def selector_matches_def labels_match_def
  rule_matches_def matches_source_def matches_destination_def matches_addressed_def
  is_unconstrained_def no_addresses_def

theorem evaluate_order_independent_witness:
  "(evaluate_for_direction_with_addresses [sample_policy Native [sample_rule AllowAction 443],
      sample_policy Native [sample_rule DenyAction 443]] Ingress (sample_flow 443) no_addresses)
     \<lparr>dec_audits := []\<rparr> =
   (evaluate_for_direction_with_addresses [sample_policy Native [sample_rule DenyAction 443],
      sample_policy Native [sample_rule AllowAction 443]] Ingress (sample_flow 443) no_addresses)
     \<lparr>dec_audits := []\<rparr>"
  by (rule evaluate_order_independent [THEN conjunct1]) (simp add: add_mset_commute)

theorem preselected_agrees_witness:
  "enf_verdict (evaluate_preselected_enforcement_with_addresses
      [sample_policy Native [sample_rule AllowAction 443]] Ingress (sample_flow 443) no_addresses) =
   dec_verdict (evaluate_for_direction_with_addresses
      [sample_policy Native [sample_rule AllowAction 443]] Ingress (sample_flow 443) no_addresses)"
proof -
  have "list_all (applicable Ingress (sample_flow 443))
      [sample_policy Native [sample_rule AllowAction 443]]"
    by (simp add: sample_policy_defs matching_defs)
  from preselected_agrees [OF this, of no_addresses] show ?thesis by (simp add: Let_def)
qed

lemma sample_compile:
  "\<exists>ir. compile 7 sample_security_policy = Ok ir"
  by (simp add: compile_def sample_security_policy_def selector_from_api_def
      compile_ingress_rule_def push_rule_def u32_try_from_def Let_def)

theorem compile_well_formed_witness:
  "\<exists>ir. compile 7 sample_security_policy = Ok ir \<and> length (pol_rules ir) = 2 \<and>
     rules_numbered 7 (pol_rules ir)"
proof -
  obtain ir where ir: "compile 7 sample_security_policy = Ok ir" using sample_compile by blast
  from compile_well_formed [OF ir] show ?thesis
    using ir by (simp add: sample_security_policy_def)
qed

end
