(* ===== verification/Policy_Dataplane.thy ===== *)
theory Policy_Dataplane
  imports Policy_Eval
begin

text \<open>
  Lowering of selector policies to dataplane map entries: the five compilers of
  \<^verbatim>\<open>crates/unf-policy/src/lib.rs\<close> and the map keys and entries of \<^verbatim>\<open>crates/unf-state/src/lib.rs\<close>.
  A pair of endpoints is lowered to at most one global row, one row per protocol some
  rule opens on every port, and one row per protocol and port some rule names; a row equal to the one it
  would inherit is left out of the exact-address maps.  The loops the source repeats in each
  compiler are \<open>lower_decisions\<close> (the exact-address maps) and \<open>lower_prefix_decisions\<close> (the
  longest-prefix maps); each compiler passes its own flows, filters and entry constructor.
\<close>

section \<open>Map keys and entries\<close>

definition POLICY_MAP_BANK_ENTRY_LIMIT :: nat where
  "POLICY_MAP_BANK_ENTRY_LIMIT = 131072"

text \<open>Comparisons with the limit, computed on integers.\<close>

lemma entry_limit_code [code_unfold]:
  "POLICY_MAP_BANK_ENTRY_LIMIT \<le> n \<longleftrightarrow> 131072 \<le> int n" "POLICY_MAP_BANK_ENTRY_LIMIT < n \<longleftrightarrow> 131072 < int n"
  by (simp_all add: POLICY_MAP_BANK_ENTRY_LIMIT_def)

definition KUBERNETES_NETWORK_POLICY_MAX_IP_BLOCK_ADDRESSES :: nat where
  "KUBERNETES_NETWORK_POLICY_MAX_IP_BLOCK_ADDRESSES = 1024"

datatype PolicyMapKey = PolicyMapKey (pk_source_identity: u32) (pk_destination_identity: u32)
  (pk_protocol: u8) (pk_destination_port: u16)

datatype Ipv4PolicyMapKey = Ipv4PolicyMapKey (pk4_source_address: u32)
  (pk4_destination_identity: u32) (pk4_protocol: u8) (pk4_destination_port: u16)

datatype Ipv6PolicyMapKey = Ipv6PolicyMapKey (pk6_source_network: u128) (pk6_source_prefix_len: u8)
  (pk6_destination_identity: u32) (pk6_protocol: u8) (pk6_destination_port: u16)

datatype EgressIpv4PolicyMapKey = EgressIpv4PolicyMapKey (ek4_source_identity: u32)
  (ek4_destination_address: u32) (ek4_protocol: u8) (ek4_destination_port: u16)

datatype EgressIpv6PolicyMapKey = EgressIpv6PolicyMapKey (ek6_source_identity: u32)
  (ek6_destination_network: u128) (ek6_destination_prefix_len: u8) (ek6_protocol: u8)
  (ek6_destination_port: u16)

text \<open>The derived orders are lexicographic in the order of the fields.\<close>

instantiation PolicyMapKey :: linorder
begin

definition less_eq_PolicyMapKey :: "PolicyMapKey \<Rightarrow> PolicyMapKey \<Rightarrow> bool" where
  "less_eq_PolicyMapKey k l \<longleftrightarrow>
     (pk_source_identity k, pk_destination_identity k, pk_protocol k, pk_destination_port k) \<le>
     (pk_source_identity l, pk_destination_identity l, pk_protocol l, pk_destination_port l)"

definition less_PolicyMapKey :: "PolicyMapKey \<Rightarrow> PolicyMapKey \<Rightarrow> bool" where
  "less_PolicyMapKey k l \<longleftrightarrow> k \<le> l \<and> \<not> l \<le> (k :: PolicyMapKey)"

instance
  by standard (auto simp: less_eq_PolicyMapKey_def less_PolicyMapKey_def PolicyMapKey.expand)

end

instantiation Ipv4PolicyMapKey :: linorder
begin

definition less_eq_Ipv4PolicyMapKey :: "Ipv4PolicyMapKey \<Rightarrow> Ipv4PolicyMapKey \<Rightarrow> bool" where
  "less_eq_Ipv4PolicyMapKey k l \<longleftrightarrow>
     (pk4_source_address k, pk4_destination_identity k, pk4_protocol k, pk4_destination_port k) \<le>
     (pk4_source_address l, pk4_destination_identity l, pk4_protocol l, pk4_destination_port l)"

definition less_Ipv4PolicyMapKey :: "Ipv4PolicyMapKey \<Rightarrow> Ipv4PolicyMapKey \<Rightarrow> bool" where
  "less_Ipv4PolicyMapKey k l \<longleftrightarrow> k \<le> l \<and> \<not> l \<le> (k :: Ipv4PolicyMapKey)"

instance
  by standard
    (auto simp: less_eq_Ipv4PolicyMapKey_def less_Ipv4PolicyMapKey_def Ipv4PolicyMapKey.expand)

end

instantiation Ipv6PolicyMapKey :: linorder
begin

definition less_eq_Ipv6PolicyMapKey :: "Ipv6PolicyMapKey \<Rightarrow> Ipv6PolicyMapKey \<Rightarrow> bool" where
  "less_eq_Ipv6PolicyMapKey k l \<longleftrightarrow>
     (pk6_source_network k, pk6_source_prefix_len k, pk6_destination_identity k, pk6_protocol k,
      pk6_destination_port k) \<le>
     (pk6_source_network l, pk6_source_prefix_len l, pk6_destination_identity l, pk6_protocol l,
      pk6_destination_port l)"

definition less_Ipv6PolicyMapKey :: "Ipv6PolicyMapKey \<Rightarrow> Ipv6PolicyMapKey \<Rightarrow> bool" where
  "less_Ipv6PolicyMapKey k l \<longleftrightarrow> k \<le> l \<and> \<not> l \<le> (k :: Ipv6PolicyMapKey)"

instance
  by standard
    (auto simp: less_eq_Ipv6PolicyMapKey_def less_Ipv6PolicyMapKey_def Ipv6PolicyMapKey.expand)

end

instantiation EgressIpv4PolicyMapKey :: linorder
begin

definition less_eq_EgressIpv4PolicyMapKey ::
  "EgressIpv4PolicyMapKey \<Rightarrow> EgressIpv4PolicyMapKey \<Rightarrow> bool" where
  "less_eq_EgressIpv4PolicyMapKey k l \<longleftrightarrow>
     (ek4_source_identity k, ek4_destination_address k, ek4_protocol k, ek4_destination_port k) \<le>
     (ek4_source_identity l, ek4_destination_address l, ek4_protocol l, ek4_destination_port l)"

definition less_EgressIpv4PolicyMapKey ::
  "EgressIpv4PolicyMapKey \<Rightarrow> EgressIpv4PolicyMapKey \<Rightarrow> bool" where
  "less_EgressIpv4PolicyMapKey k l \<longleftrightarrow> k \<le> l \<and> \<not> l \<le> (k :: EgressIpv4PolicyMapKey)"

instance
  by standard (auto simp: less_eq_EgressIpv4PolicyMapKey_def less_EgressIpv4PolicyMapKey_def
      EgressIpv4PolicyMapKey.expand)

end

instantiation EgressIpv6PolicyMapKey :: linorder
begin

definition less_eq_EgressIpv6PolicyMapKey ::
  "EgressIpv6PolicyMapKey \<Rightarrow> EgressIpv6PolicyMapKey \<Rightarrow> bool" where
  "less_eq_EgressIpv6PolicyMapKey k l \<longleftrightarrow>
     (ek6_source_identity k, ek6_destination_network k, ek6_destination_prefix_len k,
      ek6_protocol k, ek6_destination_port k) \<le>
     (ek6_source_identity l, ek6_destination_network l, ek6_destination_prefix_len l,
      ek6_protocol l, ek6_destination_port l)"

definition less_EgressIpv6PolicyMapKey ::
  "EgressIpv6PolicyMapKey \<Rightarrow> EgressIpv6PolicyMapKey \<Rightarrow> bool" where
  "less_EgressIpv6PolicyMapKey k l \<longleftrightarrow> k \<le> l \<and> \<not> l \<le> (k :: EgressIpv6PolicyMapKey)"

instance
  by standard (auto simp: less_eq_EgressIpv6PolicyMapKey_def less_EgressIpv6PolicyMapKey_def
      EgressIpv6PolicyMapKey.expand)

end

record PolicyDecisionRecord =
  rec_verdict :: Verdict
  rec_reason :: PolicyReason
  rec_policy_id :: "u32 option"
  rec_rule_id :: "u32 option"

record 'k policy_entry =
  entry_key :: 'k
  entry_decision :: PolicyDecisionRecord
  entry_shadow :: "PolicyDecisionRecord option"

type_synonym PolicyMapEntry = "PolicyMapKey policy_entry"
type_synonym Ipv4PolicyMapEntry = "Ipv4PolicyMapKey policy_entry"
type_synonym Ipv6PolicyMapEntry = "Ipv6PolicyMapKey policy_entry"
type_synonym EgressIpv4PolicyMapEntry = "EgressIpv4PolicyMapKey policy_entry"
type_synonym EgressIpv6PolicyMapEntry = "EgressIpv6PolicyMapKey policy_entry"

datatype DataplaneCompileError =
    IdentityMetadataConflict u32
  | EntryLimitExceeded nat
  | Ipv4MetadataConflict u32
  | EgressIpv4MetadataConflict u32
  | Ipv4BlockTooLarge nat nat
  | Ipv6MetadataConflict u128
  | EgressIpv6MetadataConflict u128
  | UnsupportedPolicyDirection PolicyDirection

definition policy_decision_record :: "PolicyDecision \<Rightarrow> PolicyDecisionRecord" where
  "policy_decision_record decision =
     \<lparr>rec_verdict = dec_verdict decision, rec_reason = dec_reason decision,
      rec_policy_id = dec_policy_id decision, rec_rule_id = dec_rule_id decision\<rparr>"

definition shadow_policy_decision_record :: "PolicyDecision \<Rightarrow> PolicyDecisionRecord option" where
  "shadow_policy_decision_record decision =
     (case (dec_shadow_verdict decision, dec_shadow_reason decision) of
        (Some verdict, Some reason) \<Rightarrow>
          Some \<lparr>rec_verdict = verdict, rec_reason = reason,
                rec_policy_id = dec_shadow_policy_id decision,
                rec_rule_id = dec_shadow_rule_id decision\<rparr>
      | _ \<Rightarrow> None)"

definition policy_map_entry ::
  "Endpoint \<Rightarrow> Endpoint \<Rightarrow> u8 \<Rightarrow> u16 \<Rightarrow> PolicyDecision \<Rightarrow> PolicyMapEntry" where
  "policy_map_entry source destination protocol destination_port decision =
     \<lparr>entry_key = PolicyMapKey (ep_identity source) (ep_identity destination) protocol
        destination_port,
      entry_decision = policy_decision_record decision,
      entry_shadow = shadow_policy_decision_record decision\<rparr>"

definition ipv4_policy_map_entry ::
  "u32 \<Rightarrow> Endpoint \<Rightarrow> u8 \<Rightarrow> u16 \<Rightarrow> PolicyDecision \<Rightarrow> Ipv4PolicyMapEntry" where
  "ipv4_policy_map_entry source_address destination protocol destination_port decision =
     \<lparr>entry_key = Ipv4PolicyMapKey source_address (ep_identity destination) protocol
        destination_port,
      entry_decision = policy_decision_record decision,
      entry_shadow = shadow_policy_decision_record decision\<rparr>"

definition egress_ipv4_policy_map_entry ::
  "Endpoint \<Rightarrow> u32 \<Rightarrow> u8 \<Rightarrow> u16 \<Rightarrow> PolicyDecision \<Rightarrow> EgressIpv4PolicyMapEntry" where
  "egress_ipv4_policy_map_entry source destination_address protocol destination_port decision =
     \<lparr>entry_key = EgressIpv4PolicyMapKey (ep_identity source) destination_address protocol
        destination_port,
      entry_decision = policy_decision_record decision,
      entry_shadow = shadow_policy_decision_record decision\<rparr>"

definition ipv6_policy_map_entry ::
  "Ipv6Cidr \<Rightarrow> Endpoint \<Rightarrow> u8 \<Rightarrow> u16 \<Rightarrow> PolicyDecision \<Rightarrow> Ipv6PolicyMapEntry" where
  "ipv6_policy_map_entry source destination protocol destination_port decision =
     \<lparr>entry_key = Ipv6PolicyMapKey (network6 source) (prefix_len6 source)
        (ep_identity destination) protocol destination_port,
      entry_decision = policy_decision_record decision,
      entry_shadow = shadow_policy_decision_record decision\<rparr>"

definition egress_ipv6_policy_map_entry ::
  "Endpoint \<Rightarrow> Ipv6Cidr \<Rightarrow> u8 \<Rightarrow> u16 \<Rightarrow> PolicyDecision \<Rightarrow> EgressIpv6PolicyMapEntry" where
  "egress_ipv6_policy_map_entry source destination protocol destination_port decision =
     \<lparr>entry_key = EgressIpv6PolicyMapKey (ep_identity source) (network6 destination)
        (prefix_len6 destination) protocol destination_port,
      entry_decision = policy_decision_record decision,
      entry_shadow = shadow_policy_decision_record decision\<rparr>"

section \<open>Helpers of the compilers\<close>

definition has_policy_provenance :: "PolicyDecision \<Rightarrow> bool" where
  "has_policy_provenance decision \<longleftrightarrow>
     dec_policy_id decision \<noteq> None \<or> dec_shadow_policy_id decision \<noteq> None"

definition ensure_dataplane_capacity :: "nat \<Rightarrow> (DataplaneCompileError, unit) res" where
  "ensure_dataplane_capacity entry_count =
     (if entry_count \<ge> POLICY_MAP_BANK_ENTRY_LIMIT
      then Err (EntryLimitExceeded POLICY_MAP_BANK_ENTRY_LIMIT) else Ok ())"

definition push_dataplane_entry ::
  "'k policy_entry list \<Rightarrow> 'k policy_entry \<Rightarrow>
   (DataplaneCompileError, 'k policy_entry list) res" where
  "push_dataplane_entry entries entry =
     rbind (ensure_dataplane_capacity (length entries)) (\<lambda>_. Ok (entries @ [entry]))"

definition global_fallback_policies :: "PolicyIr list \<Rightarrow> PolicyIr list" where
  "global_fallback_policies policies =
     map (\<lambda>policy. policy\<lparr>pol_rules := filter (\<lambda>rule. rule_protocol rule = None)
       (pol_rules policy)\<rparr>) policies"

definition ensure_dataplane_policies ::
  "PolicyDirection \<Rightarrow> PolicyIr list \<Rightarrow> (DataplaneCompileError, unit) res" where
  "ensure_dataplane_policies direction policies =
     (case find (\<lambda>policy. pol_direction policy \<noteq> direction) policies of
        Some policy \<Rightarrow> Err (UnsupportedPolicyDirection (pol_direction policy))
      | None \<Rightarrow> Ok ())"

definition ensure_ingress_dataplane_policies ::
  "PolicyIr list \<Rightarrow> (DataplaneCompileError, unit) res" where
  "ensure_ingress_dataplane_policies = ensure_dataplane_policies Ingress"

definition ensure_egress_dataplane_policies ::
  "PolicyIr list \<Rightarrow> (DataplaneCompileError, unit) res" where
  "ensure_egress_dataplane_policies = ensure_dataplane_policies Egress"

definition external_endpoint :: Endpoint where
  "external_endpoint = \<lparr>ep_identity = 0, ep_namespace = [], ep_namespace_labels = [],
     ep_service_account = [], ep_application = None, ep_labels = [], ep_named_ports = []\<rparr>"

definition port_range :: "u16 \<Rightarrow> u16 \<Rightarrow> u16 list" where
  "port_range start end_port = map of_nat [unat start..<Suc (unat end_port)]"

definition exact_rule_ports :: "PolicyRule \<Rightarrow> Endpoint \<Rightarrow> (Protocol \<times> u16) list" where
  "exact_rule_ports rule destination =
     (case rule_protocol rule of None \<Rightarrow> []
      | Some protocol \<Rightarrow>
        (case rule_destination_port rule of
           AnyPort \<Rightarrow> []
         | Number port \<Rightarrow> [(protocol, port)]
         | Named name \<Rightarrow> (case resolve_named_port destination name protocol of
             None \<Rightarrow> [] | Some port \<Rightarrow> [(protocol, port)])
         | Range start end_port \<Rightarrow> map (Pair protocol) (port_range start end_port)))"

text \<open>Inserting into a map keyed by identity or address, refusing a key whose endpoint differs.\<close>

definition insert_unique ::
  "('k \<Rightarrow> DataplaneCompileError) \<Rightarrow> ('k::linorder, Endpoint) btree \<Rightarrow> 'k \<times> Endpoint \<Rightarrow>
   (DataplaneCompileError, ('k, Endpoint) btree) res" where
  "insert_unique conflict m = (\<lambda>(k, endpoint).
     case bt_get m k of
       Some existing \<Rightarrow> if existing \<noteq> endpoint then Err (conflict k) else Ok (bt_insert k endpoint m)
     | None \<Rightarrow> Ok (bt_insert k endpoint m))"

definition unique_endpoints ::
  "Endpoint list \<Rightarrow> (DataplaneCompileError, (u32, Endpoint) btree) res" where
  "unique_endpoints endpoints =
     try_fold (insert_unique IdentityMetadataConflict) []
       (map (\<lambda>endpoint. (ep_identity endpoint, endpoint)) endpoints)"

text \<open>Collecting an iterator into a \<open>BTreeSet\<close>, in iteration order.\<close>

definition btree_set :: "'a::linorder list \<Rightarrow> 'a list" where
  "btree_set xs = sort (remdups xs)"

definition targeted_rules :: "PolicyIr list \<Rightarrow> Endpoint \<Rightarrow> PolicyRule list" where
  "targeted_rules policies endpoint =
     concat (map pol_rules (filter (\<lambda>p. selector_matches (pol_target p) endpoint) policies))"

definition rule_wildcard_protocols :: "PolicyRule list \<Rightarrow> Protocol list" where
  "rule_wildcard_protocols rules =
     btree_set (List.map_filter rule_protocol
       (filter (\<lambda>rule. rule_destination_port rule = AnyPort) rules))"

definition rule_exact_tuples :: "PolicyRule list \<Rightarrow> Endpoint \<Rightarrow> (Protocol \<times> u16) list" where
  "rule_exact_tuples rules destination =
     btree_set (concat (map (\<lambda>rule. exact_rule_ports rule destination) rules))"

text \<open>
  The rows of one pair: the global row, the protocol rows that differ from it, and the port rows
  that differ from the row they would inherit.
\<close>

definition differs :: "'k policy_entry \<Rightarrow> 'k policy_entry \<Rightarrow> bool" where
  "differs entry inherited \<longleftrightarrow>
     entry_decision entry \<noteq> entry_decision inherited \<or> entry_shadow entry \<noteq> entry_shadow inherited"

definition lower_decisions ::
  "(u8 \<Rightarrow> u16 \<Rightarrow> PolicyDecision \<Rightarrow> 'k policy_entry) \<Rightarrow> PolicyDecision \<Rightarrow> Protocol list \<Rightarrow>
   (Protocol \<times> u16) list \<Rightarrow> (Protocol \<Rightarrow> u16 \<Rightarrow> PolicyDecision) \<Rightarrow> 'k policy_entry list \<Rightarrow>
   (DataplaneCompileError, 'k policy_entry list) res" where
  "lower_decisions make_entry global_fallback wildcard_protocols exact_tuples decide entries =
     (let global_entry = make_entry 0 0 global_fallback in
      rbind (if has_policy_provenance global_fallback
             then push_dataplane_entry entries global_entry else Ok entries) (\<lambda>entries.
      rbind (try_fold (\<lambda>(entries, protocol_entries) protocol.
          let decision = decide protocol 0;
              entry = make_entry (protocol_number protocol) 0 decision
          in rbind (if has_policy_provenance decision \<and> differs entry global_entry
                    then push_dataplane_entry entries entry else Ok entries) (\<lambda>entries.
             Ok (entries, bt_insert protocol entry protocol_entries)))
          (entries, []) wildcard_protocols) (\<lambda>(entries, protocol_entries).
      try_fold (\<lambda>entries (protocol, port).
          let decision = decide protocol port;
              entry = make_entry (protocol_number protocol) port decision;
              inherited = (case bt_get protocol_entries protocol of
                None \<Rightarrow> global_entry | Some e \<Rightarrow> e)
          in if has_policy_provenance decision \<and> differs entry inherited
             then push_dataplane_entry entries entry else Ok entries)
        entries exact_tuples)))"

text \<open>The longest-prefix maps keep every row that has provenance.\<close>

definition lower_prefix_decisions ::
  "(u8 \<Rightarrow> u16 \<Rightarrow> PolicyDecision \<Rightarrow> 'k policy_entry) \<Rightarrow> PolicyDecision \<Rightarrow> Protocol list \<Rightarrow>
   (Protocol \<times> u16) list \<Rightarrow> (Protocol \<Rightarrow> u16 \<Rightarrow> PolicyDecision) \<Rightarrow> 'k policy_entry list \<Rightarrow>
   (DataplaneCompileError, 'k policy_entry list) res" where
  "lower_prefix_decisions make_entry global_fallback wildcard_protocols exact_tuples decide entries =
     rbind (if has_policy_provenance global_fallback
            then push_dataplane_entry entries (make_entry 0 0 global_fallback)
            else Ok entries) (\<lambda>entries.
     rbind (try_fold (\<lambda>entries protocol.
         let decision = decide protocol 0
         in if has_policy_provenance decision
            then push_dataplane_entry entries (make_entry (protocol_number protocol) 0 decision)
            else Ok entries) entries wildcard_protocols) (\<lambda>entries.
     try_fold (\<lambda>entries (protocol, port).
         let decision = decide protocol port
         in if has_policy_provenance decision
            then push_dataplane_entry entries (make_entry (protocol_number protocol) port decision)
            else Ok entries) entries exact_tuples))"

section \<open>Identity entries\<close>

definition compile_identity_pair ::
  "PolicyIr list \<Rightarrow> PolicyIr list \<Rightarrow> Endpoint \<Rightarrow> Endpoint \<Rightarrow> PolicyMapEntry list \<Rightarrow>
   (DataplaneCompileError, PolicyMapEntry list) res" where
  "compile_identity_pair policies global_policies source destination entries =
     (let flow = (\<lambda>protocol port. \<lparr>flow_source = source, flow_destination = destination,
            flow_protocol = protocol, flow_destination_port = port, flow_source_ipv4 = None,
            flow_source_ipv6 = None\<rparr>);
          rules = filter (\<lambda>rule. matches_source (rule_source rule) source None None \<and>
            selector_matches (rule_destination rule) destination)
            (targeted_rules policies destination)
      in lower_decisions (policy_map_entry source destination) (evaluate global_policies (flow Tcp 0))
           (rule_wildcard_protocols rules) (rule_exact_tuples rules destination)
           (\<lambda>protocol port. evaluate policies (flow protocol port)) entries)"

definition compile_dataplane_entries ::
  "PolicyIr list \<Rightarrow> Endpoint list \<Rightarrow> (DataplaneCompileError, PolicyMapEntry list) res" where
  "compile_dataplane_entries policies endpoints =
     rbind (ensure_ingress_dataplane_policies policies) (\<lambda>_.
     let global_policies = global_fallback_policies policies in
     rbind (unique_endpoints endpoints) (\<lambda>unique.
     rbind (try_fold (\<lambda>entries (source, destination).
         compile_identity_pair policies global_policies source destination entries) []
         (List.product (bt_values unique) (bt_values unique))) (\<lambda>entries.
     Ok (sort_key entry_key entries))))"

section \<open>IPv4 source entries\<close>

definition compile_ipv4_pair ::
  "PolicyIr list \<Rightarrow> PolicyIr list \<Rightarrow> Endpoint \<Rightarrow> u32 option \<Rightarrow> u32 \<Rightarrow> Endpoint \<Rightarrow>
   Ipv4PolicyMapEntry list \<Rightarrow> (DataplaneCompileError, Ipv4PolicyMapEntry list) res" where
  "compile_ipv4_pair policies global_policies source source_ipv4 source_address destination entries =
     (let flow = (\<lambda>protocol port. \<lparr>flow_source = source, flow_destination = destination,
            flow_protocol = protocol, flow_destination_port = port,
            flow_source_ipv4 = source_ipv4, flow_source_ipv6 = None\<rparr>);
          rules = filter (\<lambda>rule. matches_source (rule_source rule) source source_ipv4 None \<and>
            selector_matches (rule_destination rule) destination)
            (targeted_rules policies destination)
      in lower_decisions (ipv4_policy_map_entry source_address destination)
           (evaluate global_policies (flow Tcp 0))
           (rule_wildcard_protocols rules) (rule_exact_tuples rules destination)
           (\<lambda>protocol port. evaluate policies (flow protocol port)) entries)"

definition check_ipv4_blocks :: "Ipv4Block list \<Rightarrow> (DataplaneCompileError, unit) res" where
  "check_ipv4_blocks blocks =
     try_fold (\<lambda>_ block. let address_count = cidr4_address_count (block4_cidr block) in
       if prefix_len4 (block4_cidr block) \<noteq> 0 \<and>
          address_count > KUBERNETES_NETWORK_POLICY_MAX_IP_BLOCK_ADDRESSES
       then Err (Ipv4BlockTooLarge address_count KUBERNETES_NETWORK_POLICY_MAX_IP_BLOCK_ADDRESSES)
       else Ok ()) () blocks"

text \<open>The addresses that get rows of their own: the known ones, those of the bounded blocks, and
  the exceptions of a block that covers every address.\<close>

definition block_row_addresses :: "Ipv4Block list \<Rightarrow> u32 list" where
  "block_row_addresses blocks =
     concat (map block4_addresses (filter (\<lambda>b. prefix_len4 (block4_cidr b) \<noteq> 0) blocks)) @
     concat (map cidr4_addresses (concat (map block4_except
       (filter (\<lambda>b. prefix_len4 (block4_cidr b) = 0) blocks))))"

definition insert_row_address :: "u32 list \<Rightarrow> u32 \<Rightarrow> (DataplaneCompileError, u32 list) res" where
  "insert_row_address addresses address =
     (if address \<noteq> 0 \<and> address \<notin> set addresses then
        let addresses' = insort address addresses in
        if length addresses' > POLICY_MAP_BANK_ENTRY_LIMIT
        then Err (EntryLimitExceeded POLICY_MAP_BANK_ENTRY_LIMIT) else Ok addresses'
      else Ok addresses)"

definition arbitrary_ipv4_address :: "u32 list \<Rightarrow> u32 option" where
  "arbitrary_ipv4_address exact_addresses =
     find (\<lambda>address. address \<notin> set exact_addresses) (map of_nat [1..<2 ^ 32])"

definition compile_ipv4_dataplane_entries ::
  "PolicyIr list \<Rightarrow> Endpoint list \<Rightarrow> Ipv4Endpoint list \<Rightarrow>
   (DataplaneCompileError, Ipv4PolicyMapEntry list) res" where
  "compile_ipv4_dataplane_entries policies endpoints ipv4_endpoints =
     rbind (ensure_ingress_dataplane_policies policies) (\<lambda>_.
     let global_policies = global_fallback_policies policies in
     rbind (unique_endpoints endpoints) (\<lambda>destinations.
     rbind (try_fold (insert_unique Ipv4MetadataConflict) []
       (map (\<lambda>s. (ep4_address s, ep4_endpoint s)) ipv4_endpoints)) (\<lambda>known_sources.
     let ipv4_blocks = concat (map (sel_ipv4_blocks \<circ> rule_source)
       (concat (map pol_rules policies))) in
     rbind (check_ipv4_blocks ipv4_blocks) (\<lambda>_.
     let has_global_ipv4_block =
       list_ex (\<lambda>block. prefix_len4 (block4_cidr block) = 0) ipv4_blocks in
     rbind (try_fold insert_row_address (map fst known_sources)
       (block_row_addresses ipv4_blocks)) (\<lambda>source_addresses.
     rbind (try_fold (\<lambda>entries (address, destination).
         compile_ipv4_pair policies global_policies
           (case bt_get known_sources address of None \<Rightarrow> external_endpoint | Some ep \<Rightarrow> ep)
           (Some address) address destination entries) []
         (List.product source_addresses (bt_values destinations))) (\<lambda>entries.
     rbind (try_fold (\<lambda>entries destination.
         let fallback_address = (if has_global_ipv4_block
           then arbitrary_ipv4_address source_addresses else None) in
         compile_ipv4_pair policies global_policies external_endpoint fallback_address 0
           destination entries) entries
         (filter (\<lambda>destination. list_ex (\<lambda>policy. pol_origin policy = KubernetesNetworkPolicy \<and>
            selector_matches (pol_target policy) destination) policies)
           (bt_values destinations))) (\<lambda>entries.
     Ok (sort_key entry_key entries))))))))"

section \<open>IPv6 source entries\<close>

text \<open>An address of the block outside every excluded block, found by halving the block.  The source
  stops at length 128; a length above 128 is not a block and stops here too.\<close>

function uncovered_ipv6_address :: "Ipv6Cidr \<Rightarrow> Ipv6Cidr list \<Rightarrow> u128 option" where
  "uncovered_ipv6_address cidr excluded =
     (if cidr \<in> set excluded then None
      else if list_all (\<lambda>item. \<not> cidr6_contains item (network6 cidr)) excluded
      then Some (network6 cidr)
      else if prefix_len6 cidr \<ge> 128 then None
      else
        let child_prefix = prefix_len6 cidr + 1;
            step = push_bit (128 - unat child_prefix) 1;
            try_child = (\<lambda>network.
              let child = Ipv6Cidr network child_prefix;
                  child_excluded = filter (cidr6_contains_cidr child) excluded
              in if child_excluded = [] then Some network
                 else uncovered_ipv6_address child child_excluded)
        in (case try_child (network6 cidr) of
              Some address \<Rightarrow> Some address
            | None \<Rightarrow> try_child (network6 cidr + step)))"
  by pat_completeness auto
termination
proof (relation "measure (\<lambda>(cidr, _). 128 - unat (prefix_len6 cidr))", goal_cases)
  case (2 cidr excluded)
  then have "unat (prefix_len6 cidr) < 128"
    by (simp add: word_le_nat_alt)
  then show ?case using 2 by (simp add: unat_word_ariths)
qed simp_all

declare uncovered_ipv6_address.simps [simp del]

definition compile_ipv6_pair ::
  "PolicyIr list \<Rightarrow> PolicyIr list \<Rightarrow> Endpoint \<Rightarrow> u128 \<Rightarrow> Ipv6Cidr \<Rightarrow> Endpoint \<Rightarrow>
   Ipv6PolicyMapEntry list \<Rightarrow> (DataplaneCompileError, Ipv6PolicyMapEntry list) res" where
  "compile_ipv6_pair policies global_policies source source_address source_cidr destination entries =
     (let flow = (\<lambda>protocol port. \<lparr>flow_source = source, flow_destination = destination,
            flow_protocol = protocol, flow_destination_port = port, flow_source_ipv4 = None,
            flow_source_ipv6 = Some source_address\<rparr>);
          rules = filter (\<lambda>rule. selector_matches (rule_destination rule) destination)
            (targeted_rules policies destination)
      in lower_prefix_decisions (ipv6_policy_map_entry source_cidr destination)
           (evaluate global_policies (flow Tcp 0))
           (rule_wildcard_protocols rules) (rule_exact_tuples rules destination)
           (\<lambda>protocol port. evaluate policies (flow protocol port)) entries)"

definition ipv6_boundaries :: "Ipv6Block list \<Rightarrow> (u128, Endpoint) btree \<Rightarrow> Ipv6Cidr list" where
  "ipv6_boundaries blocks known =
     btree_set (Ipv6Cidr 0 0 #
       concat (map (\<lambda>block. block6_cidr block # block6_except block) blocks) @
       map (\<lambda>(network, _). Ipv6Cidr network 128) known)"

definition child_boundaries :: "Ipv6Cidr list \<Rightarrow> Ipv6Cidr \<Rightarrow> Ipv6Cidr list" where
  "child_boundaries boundaries boundary =
     filter (\<lambda>candidate. prefix_len6 candidate > prefix_len6 boundary \<and>
       cidr6_contains_cidr boundary candidate) boundaries"

definition compile_ipv6_dataplane_entries ::
  "PolicyIr list \<Rightarrow> Endpoint list \<Rightarrow> Ipv6Endpoint list \<Rightarrow>
   (DataplaneCompileError, Ipv6PolicyMapEntry list) res" where
  "compile_ipv6_dataplane_entries policies endpoints ipv6_endpoints =
     rbind (ensure_ingress_dataplane_policies policies) (\<lambda>_.
     let global_policies = global_fallback_policies policies in
     rbind (unique_endpoints endpoints) (\<lambda>destinations.
     rbind (try_fold (insert_unique Ipv6MetadataConflict) []
       (map (\<lambda>s. (ep6_address s, ep6_endpoint s)) ipv6_endpoints)) (\<lambda>known_sources.
     let boundaries = ipv6_boundaries (concat (map (sel_ipv6_blocks \<circ> rule_source)
       (concat (map pol_rules policies)))) known_sources in
     if length boundaries > POLICY_MAP_BANK_ENTRY_LIMIT
     then Err (EntryLimitExceeded POLICY_MAP_BANK_ENTRY_LIMIT) else
     rbind (try_fold (\<lambda>entries (destination, boundary).
         case uncovered_ipv6_address boundary (child_boundaries boundaries boundary) of
           None \<Rightarrow> Ok entries
         | Some address \<Rightarrow>
             compile_ipv6_pair policies global_policies
               (case bt_get known_sources address of None \<Rightarrow> external_endpoint | Some ep \<Rightarrow> ep)
               address boundary destination entries) []
         (List.product (bt_values destinations) boundaries)) (\<lambda>entries.
     Ok (sort_key entry_key entries)))))"

section \<open>Egress entries\<close>

definition dataplane_flow :: "Endpoint \<Rightarrow> Endpoint \<Rightarrow> Protocol \<Rightarrow> u16 \<Rightarrow> Flow" where
  "dataplane_flow source destination protocol destination_port =
     \<lparr>flow_source = source, flow_destination = destination, flow_protocol = protocol,
      flow_destination_port = destination_port, flow_source_ipv4 = None, flow_source_ipv6 = None\<rparr>"

definition egress_rules ::
  "PolicyIr list \<Rightarrow> Endpoint \<Rightarrow> Endpoint \<Rightarrow> DestinationAddresses \<Rightarrow> PolicyRule list" where
  "egress_rules policies source destination destination_addresses =
     filter (\<lambda>rule. matches_source (rule_source rule) source None None \<and>
       matches_destination (rule_destination rule) destination destination_addresses)
       (targeted_rules policies source)"

definition egress_wildcard_protocols ::
  "PolicyIr list \<Rightarrow> Endpoint \<Rightarrow> Endpoint \<Rightarrow> DestinationAddresses \<Rightarrow> Protocol list" where
  "egress_wildcard_protocols policies source destination destination_addresses =
     rule_wildcard_protocols (egress_rules policies source destination destination_addresses)"

definition egress_exact_tuples ::
  "PolicyIr list \<Rightarrow> Endpoint \<Rightarrow> Endpoint \<Rightarrow> DestinationAddresses \<Rightarrow> (Protocol \<times> u16) list" where
  "egress_exact_tuples policies source destination destination_addresses =
     rule_exact_tuples (egress_rules policies source destination destination_addresses) destination"

definition compile_egress_ipv4_pair ::
  "PolicyIr list \<Rightarrow> PolicyIr list \<Rightarrow> Endpoint \<Rightarrow> Endpoint \<Rightarrow> u32 option \<Rightarrow> u32 \<Rightarrow>
   EgressIpv4PolicyMapEntry list \<Rightarrow> (DataplaneCompileError, EgressIpv4PolicyMapEntry list) res" where
  "compile_egress_ipv4_pair policies global_policies source destination destination_ipv4 key_address
     entries =
     (let destination_addresses = \<lparr>dest_ipv4 = destination_ipv4, dest_ipv6 = None\<rparr> in
      lower_decisions (egress_ipv4_policy_map_entry source key_address)
        (evaluate_for_direction_with_addresses global_policies Egress
          (dataplane_flow source destination Tcp 0) destination_addresses)
        (egress_wildcard_protocols policies source destination destination_addresses)
        (egress_exact_tuples policies source destination destination_addresses)
        (\<lambda>protocol port. evaluate_for_direction_with_addresses policies Egress
          (dataplane_flow source destination protocol port) destination_addresses) entries)"

definition compile_egress_ipv6_pair ::
  "PolicyIr list \<Rightarrow> PolicyIr list \<Rightarrow> Endpoint \<Rightarrow> Endpoint \<Rightarrow> u128 \<Rightarrow> Ipv6Cidr \<Rightarrow>
   EgressIpv6PolicyMapEntry list \<Rightarrow> (DataplaneCompileError, EgressIpv6PolicyMapEntry list) res" where
  "compile_egress_ipv6_pair policies global_policies source destination destination_address
     destination_cidr entries =
     (let destination_addresses = \<lparr>dest_ipv4 = None, dest_ipv6 = Some destination_address\<rparr> in
      lower_prefix_decisions (egress_ipv6_policy_map_entry source destination_cidr)
        (evaluate_for_direction_with_addresses global_policies Egress
          (dataplane_flow source destination Tcp 0) destination_addresses)
        (egress_wildcard_protocols policies source destination destination_addresses)
        (egress_exact_tuples policies source destination destination_addresses)
        (\<lambda>protocol port. evaluate_for_direction_with_addresses policies Egress
          (dataplane_flow source destination protocol port) destination_addresses) entries)"

definition compile_egress_ipv4_dataplane_entries ::
  "PolicyIr list \<Rightarrow> Endpoint list \<Rightarrow> Ipv4Endpoint list \<Rightarrow>
   (DataplaneCompileError, EgressIpv4PolicyMapEntry list) res" where
  "compile_egress_ipv4_dataplane_entries policies endpoints ipv4_endpoints =
     rbind (ensure_egress_dataplane_policies policies) (\<lambda>_.
     let global_policies = global_fallback_policies policies in
     rbind (unique_endpoints endpoints) (\<lambda>sources.
     rbind (try_fold (insert_unique EgressIpv4MetadataConflict) []
       (map (\<lambda>d. (ep4_address d, ep4_endpoint d)) ipv4_endpoints)) (\<lambda>known_destinations.
     let ipv4_blocks = concat (map (sel_ipv4_blocks \<circ> rule_destination)
       (concat (map pol_rules policies))) in
     rbind (check_ipv4_blocks ipv4_blocks) (\<lambda>_.
     if length known_destinations > POLICY_MAP_BANK_ENTRY_LIMIT
     then Err (EntryLimitExceeded POLICY_MAP_BANK_ENTRY_LIMIT) else
     let has_global_ipv4_block =
       list_ex (\<lambda>block. prefix_len4 (block4_cidr block) = 0) ipv4_blocks in
     rbind (try_fold insert_row_address (map fst known_destinations)
       (block_row_addresses ipv4_blocks)) (\<lambda>destination_addresses.
     rbind (try_fold (\<lambda>entries source.
         rbind (try_fold (\<lambda>entries address.
             compile_egress_ipv4_pair policies global_policies source
               (case bt_get known_destinations address of
                  None \<Rightarrow> external_endpoint | Some ep \<Rightarrow> ep)
               (Some address) address entries) entries destination_addresses) (\<lambda>entries.
         if list_ex (\<lambda>policy. selector_matches (pol_target policy) source) policies then
           let fallback_address = (if has_global_ipv4_block
             then arbitrary_ipv4_address destination_addresses else None) in
           compile_egress_ipv4_pair policies global_policies source external_endpoint
             fallback_address 0 entries
         else Ok entries)) [] (bt_values sources)) (\<lambda>entries.
     Ok (sort_key entry_key entries)))))))"

definition compile_egress_ipv6_dataplane_entries ::
  "PolicyIr list \<Rightarrow> Endpoint list \<Rightarrow> Ipv6Endpoint list \<Rightarrow>
   (DataplaneCompileError, EgressIpv6PolicyMapEntry list) res" where
  "compile_egress_ipv6_dataplane_entries policies endpoints ipv6_endpoints =
     rbind (ensure_egress_dataplane_policies policies) (\<lambda>_.
     let global_policies = global_fallback_policies policies in
     rbind (unique_endpoints endpoints) (\<lambda>sources.
     rbind (try_fold (insert_unique EgressIpv6MetadataConflict) []
       (map (\<lambda>d. (ep6_address d, ep6_endpoint d)) ipv6_endpoints)) (\<lambda>known_destinations.
     let boundaries = ipv6_boundaries (concat (map (sel_ipv6_blocks \<circ> rule_destination)
       (concat (map pol_rules policies)))) known_destinations in
     if length boundaries > POLICY_MAP_BANK_ENTRY_LIMIT
     then Err (EntryLimitExceeded POLICY_MAP_BANK_ENTRY_LIMIT) else
     rbind (try_fold (\<lambda>entries source.
         if \<not> list_ex (\<lambda>policy. selector_matches (pol_target policy) source) policies
         then Ok entries
         else try_fold (\<lambda>entries boundary.
           case uncovered_ipv6_address boundary (child_boundaries boundaries boundary) of
             None \<Rightarrow> Ok entries
           | Some address \<Rightarrow>
               compile_egress_ipv6_pair policies global_policies source
                 (case bt_get known_destinations address of
                    None \<Rightarrow> external_endpoint | Some ep \<Rightarrow> ep)
                 address boundary entries) entries boundaries)
         [] (bt_values sources)) (\<lambda>entries.
     Ok (sort_key entry_key entries)))))"

end
