(* ===== verification/Policy_Lowering.thy ===== *)
theory Policy_Lowering
  imports Policy_Dataplane
begin

text \<open>
  Correctness of the lowering of \<open>Policy_Dataplane\<close>: looking a flow up in the compiled entries (port
  row, then protocol row, then global row) returns what the evaluator decides for it.  The section on
  views isolates what a decision depends on; \<open>coherent\<close> states what the rows of one pair need from
  the decisions they tabulate, and \<open>kept_rows_lookup\<close> is the table lookup under it.
\<close>


section \<open>What a decision depends on\<close>

text \<open>The part of a policy a decision depends on: its head and the rules that match the flow.\<close>

definition policy_view ::
  "Flow \<Rightarrow> DestinationAddresses \<Rightarrow> PolicyIr \<Rightarrow>
   PolicyEnforcementMode \<times> PolicyOrigin \<times> u32 \<times> u32 \<times> PolicyAction \<times> PolicyRule set" where
  "policy_view f a p = (pol_enforcement_mode p, pol_origin p, pol_priority p, pol_id p,
     pol_default_action p, {r \<in> set (pol_rules p). rule_matches r f a})"

lemma candidate_view:
  assumes "candidate P f a mode c" and views: "policy_view f a ` P = policy_view g b ` Q"
  shows "candidate Q g b mode c"
proof -
  have partner: "\<exists>q \<in> Q. policy_view g b q = policy_view f a p" if "p \<in> P" for p
    using views that by (metis imageE imageI)
  have partner': "\<exists>p \<in> P. policy_view f a p = policy_view g b q" if "q \<in> Q" for q
    using views that by (metis imageE imageI)
  from assms(1) show ?thesis
  proof cases
    case (native_rule p r)
    with partner obtain q where "q \<in> Q" "policy_view g b q = policy_view f a p" by blast
    with native_rule show ?thesis
      using candidate.native_rule [of q Q mode r g b] by (auto simp: policy_view_def set_eq_iff)
  next
    case (native_default p)
    with partner obtain q where "q \<in> Q" "policy_view g b q = policy_view f a p" by blast
    with native_default show ?thesis
      using candidate.native_default [of q Q mode g b] by (auto simp: policy_view_def set_eq_iff)
  next
    case (compat_rule p r)
    with partner obtain q where "q \<in> Q" "policy_view g b q = policy_view f a p" by blast
    with compat_rule show ?thesis
      using candidate.compat_rule [of q Q mode r g b] by (auto simp: policy_view_def set_eq_iff)
  next
    case (compat_default p)
    with partner obtain q where q: "q \<in> Q" "policy_view g b q = policy_view f a p" by blast
    have "\<not> rule_matches r g b" if "q' \<in> Q" "in_mode mode KubernetesNetworkPolicy q'"
      "r \<in> set (pol_rules q')" for q' r
    proof -
      from partner' [OF that(1)] obtain p' where "p' \<in> P" "policy_view f a p' = policy_view g b q'"
        by blast
      with compat_default(4) that(2,3) show ?thesis by (auto simp: policy_view_def set_eq_iff)
    qed
    with q compat_default show ?thesis
      using candidate.compat_default [of q Q mode g b] by (auto simp: policy_view_def)
  qed
qed

lemma decide_for_mode_view:
  assumes "policy_view f a ` set ps = policy_view g b ` set qs"
  shows "decide_for_mode ps f a mode = decide_for_mode qs g b mode"
proof -
  have "candidate (set ps) f a mode = candidate (set qs) g b mode"
    using candidate_view [OF _ assms] candidate_view [OF _ assms [symmetric]] by blast
  then have "least_of (Collect (candidate (set ps) f a mode)) (decide_ranked qs g b mode)"
    using least_of_decide [of qs g b mode] by simp
  then have "decide_ranked ps f a mode = decide_ranked qs g b mode"
    by (rule least_of_unique [OF least_of_decide _ candidate_keys_inj])
  then show ?thesis by (simp only: decide_for_mode_ranked)
qed

section \<open>Outcomes and provenance\<close>

type_synonym outcome = "PolicyDecisionRecord \<times> PolicyDecisionRecord option"

definition outcome_of :: "PolicyDecision \<Rightarrow> outcome" where
  "outcome_of d = (policy_decision_record d, shadow_policy_decision_record d)"

definition no_policy_outcome :: outcome where
  "no_policy_outcome = (\<lparr>rec_verdict = AllowVerdict, rec_reason = NoApplicablePolicy,
     rec_policy_id = None, rec_rule_id = None\<rparr>, None)"

definition decided_outcome ::
  "(Verdict \<times> PolicyReason \<times> u32 option \<times> u32 option) option \<Rightarrow>
   (Verdict \<times> PolicyReason \<times> u32 option \<times> u32 option) option \<Rightarrow> outcome" where
  "decided_outcome enforced shadow =
     (case enforced of None \<Rightarrow> fst no_policy_outcome
      | Some (v, why, i, r) \<Rightarrow>
          \<lparr>rec_verdict = v, rec_reason = why, rec_policy_id = i, rec_rule_id = r\<rparr>,
      map_option (\<lambda>(v, why, i, r).
        \<lparr>rec_verdict = v, rec_reason = why, rec_policy_id = i, rec_rule_id = r\<rparr>) shadow)"

lemma outcome_of_evaluate:
  "outcome_of (evaluate_for_direction_with_addresses ps d f a) =
     decided_outcome (decide_for_mode (filter (applicable d f) ps) f a Enforce)
       (decide_for_mode (filter (applicable d f) ps) f a Shadow)"
  unfolding outcome_of_def policy_decision_record_def shadow_policy_decision_record_def
    decided_outcome_def evaluate_fields
  by (auto simp: no_policy_outcome_def split: option.splits)

lemma decide_policy_id: "decide_for_mode ps f a mode = Some (v, why, i, r) \<Longrightarrow> i \<noteq> None"
  by (auto simp: decide_for_mode_ranked)

lemma provenance_iff:
  "has_policy_provenance (evaluate_for_direction_with_addresses ps d f a) \<longleftrightarrow>
     (\<exists>mode c. candidate (set (filter (applicable d f) ps)) f a mode c)"
proof -
  let ?Q = "filter (applicable d f) ps"
  have "has_policy_provenance (evaluate_for_direction_with_addresses ps d f a) \<longleftrightarrow>
      decide_for_mode ?Q f a Enforce \<noteq> None \<or> decide_for_mode ?Q f a Shadow \<noteq> None"
    unfolding has_policy_provenance_def evaluate_fields
    by (auto split: option.splits dest: decide_policy_id)
  also have "\<dots> \<longleftrightarrow> (\<exists>mode c. candidate (set ?Q) f a mode c)"
    unfolding decide_for_mode_None_iff by (metis PolicyEnforcementMode.exhaust)
  finally show ?thesis .
qed

lemma no_provenance_outcome:
  assumes "\<not> has_policy_provenance (evaluate_for_direction_with_addresses ps d f a)"
  shows "outcome_of (evaluate_for_direction_with_addresses ps d f a) = no_policy_outcome"
proof -
  have "decide_for_mode (filter (applicable d f) ps) f a mode = None" for mode
    using assms unfolding provenance_iff decide_for_mode_None_iff by blast
  then show ?thesis
    by (simp add: outcome_of_evaluate decided_outcome_def no_policy_outcome_def)
qed

lemma outcome_of_view:
  assumes "policy_view f a ` set (filter (applicable d f) ps) =
      policy_view g b ` set (filter (applicable d g) qs)"
  shows "outcome_of (evaluate_for_direction_with_addresses ps d f a) =
      outcome_of (evaluate_for_direction_with_addresses qs d g b)"
    and "has_policy_provenance (evaluate_for_direction_with_addresses ps d f a) =
      has_policy_provenance (evaluate_for_direction_with_addresses qs d g b)"
proof -
  show "outcome_of (evaluate_for_direction_with_addresses ps d f a) =
      outcome_of (evaluate_for_direction_with_addresses qs d g b)"
    unfolding outcome_of_evaluate decide_for_mode_view [OF assms] ..
  show "has_policy_provenance (evaluate_for_direction_with_addresses ps d f a) =
      has_policy_provenance (evaluate_for_direction_with_addresses qs d g b)"
    unfolding provenance_iff
    using candidate_view [OF _ assms] candidate_view [OF _ assms [symmetric]] by blast
qed

text \<open>More matching rules never remove the last candidate.\<close>

lemma candidate_mono:
  assumes "candidate Q g b mode c"
    and "\<And>q. q \<in> Q \<Longrightarrow> \<exists>p \<in> P. pol_enforcement_mode p = pol_enforcement_mode q \<and>
      pol_origin p = pol_origin q \<and> pol_default_action p = pol_default_action q \<and>
      {r \<in> set (pol_rules q). rule_matches r g b} \<subseteq> {r \<in> set (pol_rules p). rule_matches r f a}"
  shows "\<exists>c. candidate P f a mode c"
  using assms(1)
proof cases
  case (native_rule q r)
  with assms(2) [of q] obtain p where "p \<in> P" "in_mode mode Native p" "r \<in> set (pol_rules p)"
    "rule_matches r f a" by fastforce
  with native_rule(6) show ?thesis using candidate.native_rule [of p P mode r f a] by blast
next
  case (native_default q)
  with assms(2) [of q] obtain p where p: "p \<in> P" "in_mode mode Native p"
    "pol_default_action p \<noteq> AuditAction" by auto
  show ?thesis
  proof (cases "\<forall>r \<in> set (pol_rules p). rule_matches r f a \<longrightarrow> rule_action r = AuditAction")
    case True
    with p show ?thesis using candidate.native_default [of p P mode f a] by blast
  next
    case False
    with p show ?thesis using candidate.native_rule [of p P mode _ f a] by blast
  qed
next
  case (compat_rule q r)
  with assms(2) [of q] obtain p where "p \<in> P" "in_mode mode KubernetesNetworkPolicy p"
    "r \<in> set (pol_rules p)" "rule_matches r f a" by fastforce
  then show ?thesis using candidate.compat_rule [of p P mode r f a] by blast
next
  case (compat_default q)
  with assms(2) [of q] obtain p where p: "p \<in> P" "in_mode mode KubernetesNetworkPolicy p"
    "pol_default_action p \<noteq> AuditAction" by auto
  show ?thesis
  proof (cases "\<exists>q \<in> P. in_mode mode KubernetesNetworkPolicy q \<and>
      (\<exists>r \<in> set (pol_rules q). rule_matches r f a)")
    case True
    then show ?thesis using candidate.compat_rule [of _ P mode _ f a] by blast
  next
    case False
    with p show ?thesis using candidate.compat_default [of p P mode f a] by blast
  qed
qed

section \<open>The rows of one pair\<close>

lemma push_dataplane_entry_Ok:
  "push_dataplane_entry es e = Ok es' \<longleftrightarrow> length es < POLICY_MAP_BANK_ENTRY_LIMIT \<and> es' = es @ [e]"
  by (auto simp: push_dataplane_entry_def ensure_dataplane_capacity_def)

lemma push_if_Ok:
  assumes "(if b then push_dataplane_entry es e else Ok es) = Ok es'"
  shows "es' = es @ (if b then [e] else [])"
  using assms by (auto simp: push_dataplane_entry_Ok split: if_splits)

definition kept_rows ::
  "(u8 \<Rightarrow> u16 \<Rightarrow> PolicyDecision \<Rightarrow> 'k policy_entry) \<Rightarrow> PolicyDecision \<Rightarrow> Protocol list \<Rightarrow>
   (Protocol \<times> u16) list \<Rightarrow> (Protocol \<Rightarrow> u16 \<Rightarrow> PolicyDecision) \<Rightarrow> 'k policy_entry list" where
  "kept_rows mk g wild exact decide =
     (if has_policy_provenance g then [mk 0 0 g] else []) @
     map (\<lambda>p. mk (protocol_number p) 0 (decide p 0))
       (filter (\<lambda>p. has_policy_provenance (decide p 0) \<and>
         differs (mk (protocol_number p) 0 (decide p 0)) (mk 0 0 g)) wild) @
     map (\<lambda>(p, port). mk (protocol_number p) port (decide p port))
       (filter (\<lambda>(p, port). has_policy_provenance (decide p port) \<and>
         differs (mk (protocol_number p) port (decide p port))
           (if p \<in> set wild then mk (protocol_number p) 0 (decide p 0) else mk 0 0 g)) exact)"

lemma try_fold_push:
  assumes "try_fold (\<lambda>es x. if P x then push_dataplane_entry es (h x) else Ok es) es xs = Ok es'"
  shows "es' = es @ map h (filter P xs)"
  using assms
proof (induction xs arbitrary: es)
  case (Cons x xs)
  then obtain mid where "(if P x then push_dataplane_entry es (h x) else Ok es) = Ok mid"
    and rest: "try_fold (\<lambda>es x. if P x then push_dataplane_entry es (h x) else Ok es) mid xs = Ok es'"
    by (auto simp: res_simps)
  from push_if_Ok [OF this(1)] Cons.IH [OF rest] show ?case by simp
qed simp

lemma try_fold_push_indexed:
  assumes "try_fold (\<lambda>(es, m) x. rbind (if P x then push_dataplane_entry es (h x) else Ok es)
      (\<lambda>es. Ok (es, bt_insert x (h x) m))) (es, m) xs = Ok (es', m')"
    and "bt_ok m"
  shows "es' = es @ map h (filter P xs)"
    and "bt_get m' k = (if k \<in> set xs then Some (h k) else bt_get m k)"
proof -
  have "es' = es @ map h (filter P xs) \<and> (\<forall>k. bt_get m' k = (if k \<in> set xs then Some (h k) else bt_get m k))"
    using assms
  proof (induction xs arbitrary: es m)
    case (Cons x xs)
    then obtain mid where push: "(if P x then push_dataplane_entry es (h x) else Ok es) = Ok mid"
      and rest: "try_fold (\<lambda>(es, m) x. rbind (if P x then push_dataplane_entry es (h x) else Ok es)
        (\<lambda>es. Ok (es, bt_insert x (h x) m))) (mid, bt_insert x (h x) m) xs = Ok (es', m')"
      by (auto simp: res_simps)
    from Cons.IH [OF rest bt_ok_insert [OF Cons.prems(2)]] push_if_Ok [OF push]
    show ?case by (auto simp: bt_get_insert [OF Cons.prems(2)])
  qed simp
  then show "es' = es @ map h (filter P xs)"
    and "bt_get m' k = (if k \<in> set xs then Some (h k) else bt_get m k)" by auto
qed

lemma lower_decisions_Ok:
  assumes "lower_decisions mk g wild exact decide es = Ok es'"
  shows "es' = es @ kept_rows mk g wild exact decide"
proof -
  from assms obtain es1 es2 m where
    g: "(if has_policy_provenance g then push_dataplane_entry es (mk 0 0 g) else Ok es) = Ok es1"
    and w: "try_fold (\<lambda>(es, m) p. rbind (if has_policy_provenance (decide p 0) \<and>
          differs (mk (protocol_number p) 0 (decide p 0)) (mk 0 0 g)
        then push_dataplane_entry es (mk (protocol_number p) 0 (decide p 0)) else Ok es)
        (\<lambda>es. Ok (es, bt_insert p (mk (protocol_number p) 0 (decide p 0)) m))) (es1, []) wild
      = Ok (es2, m)"
    and x: "try_fold (\<lambda>es (p, port). if has_policy_provenance (decide p port) \<and>
          differs (mk (protocol_number p) port (decide p port))
            (case bt_get m p of None \<Rightarrow> mk 0 0 g | Some e \<Rightarrow> e)
        then push_dataplane_entry es (mk (protocol_number p) port (decide p port))
        else Ok es) es2 exact = Ok es'"
    by (simp only: lower_decisions_def Let_def rbind_eq_Inr) (auto simp only: split_paired_Ex prod.case)
  have m: "bt_get m p = (if p \<in> set wild then Some (mk (protocol_number p) 0 (decide p 0)) else None)"
    for p using try_fold_push_indexed(2) [OF w bt_ok_Nil, of p] by (simp add: bt_get_def)
  show ?thesis
    unfolding try_fold_push [OF x [unfolded case_prod_beta]] try_fold_push_indexed(1) [OF w bt_ok_Nil] push_if_Ok [OF g]
      kept_rows_def m
    by (simp add: case_prod_beta) (auto intro!: map_cong filter_cong)
qed

definition all_rows ::
  "(u8 \<Rightarrow> u16 \<Rightarrow> PolicyDecision \<Rightarrow> 'k policy_entry) \<Rightarrow> PolicyDecision \<Rightarrow> Protocol list \<Rightarrow>
   (Protocol \<times> u16) list \<Rightarrow> (Protocol \<Rightarrow> u16 \<Rightarrow> PolicyDecision) \<Rightarrow> 'k policy_entry list" where
  "all_rows mk g wild exact decide =
     (if has_policy_provenance g then [mk 0 0 g] else []) @
     map (\<lambda>p. mk (protocol_number p) 0 (decide p 0))
       (filter (\<lambda>p. has_policy_provenance (decide p 0)) wild) @
     map (\<lambda>(p, port). mk (protocol_number p) port (decide p port))
       (filter (\<lambda>(p, port). has_policy_provenance (decide p port)) exact)"

lemma lower_prefix_decisions_Ok:
  assumes "lower_prefix_decisions mk g wild exact decide es = Ok es'"
  shows "es' = es @ all_rows mk g wild exact decide"
proof -
  from assms obtain es1 es2 where
    g: "(if has_policy_provenance g then push_dataplane_entry es (mk 0 0 g) else Ok es) = Ok es1"
    and w: "try_fold (\<lambda>es p. if has_policy_provenance (decide p 0)
        then push_dataplane_entry es (mk (protocol_number p) 0 (decide p 0)) else Ok es) es1 wild
      = Ok es2"
    and x: "try_fold (\<lambda>es (p, port). if has_policy_provenance (decide p port)
        then push_dataplane_entry es (mk (protocol_number p) port (decide p port))
        else Ok es) es2 exact = Ok es'"
    by (simp only: lower_prefix_decisions_def Let_def rbind_eq_Inr) blast
  show ?thesis
    unfolding try_fold_push [OF x [unfolded case_prod_beta]] try_fold_push [OF w] push_if_Ok [OF g] all_rows_def
    by (simp add: case_prod_unfold)
qed

section \<open>Looking a flow up in the rows\<close>

text \<open>A dataplane map holding the entries: the record and shadow record under a key.\<close>

definition rows_map :: "'k policy_entry list \<Rightarrow> 'k \<Rightarrow> outcome option" where
  "rows_map rows = map_of (map (\<lambda>e. (entry_key e, entry_decision e, entry_shadow e)) rows)"

lemma rows_map_Some:
  assumes "distinct (map entry_key rows)"
  shows "rows_map rows k = Some v \<longleftrightarrow>
    (\<exists>e \<in> set rows. entry_key e = k \<and> v = (entry_decision e, entry_shadow e))"
proof -
  have "distinct (map fst (map (\<lambda>e. (entry_key e, entry_decision e, entry_shadow e)) rows))"
    using assms by (simp add: comp_def)
  then show ?thesis by (auto simp: rows_map_def map_of_eq_Some_iff)
qed

lemma rows_map_None: "rows_map rows k = None \<longleftrightarrow> (\<forall>e \<in> set rows. entry_key e \<noteq> k)"
  by (auto simp: rows_map_def map_of_eq_None_iff image_image)

lemma rows_map_eq:
  assumes "distinct (map entry_key xs)" "distinct (map entry_key ys)" "set xs = set ys"
  shows "rows_map xs = rows_map ys"
proof
  fix k
  show "rows_map xs k = rows_map ys k"
  proof (cases "rows_map xs k")
    case None
    then have "rows_map ys k = None" using assms(3) by (simp add: rows_map_None)
    with None show ?thesis by simp
  next
    case (Some v)
    then show ?thesis
      using assms(3) rows_map_Some [OF assms(2), of k v] by (simp add: rows_map_Some [OF assms(1)])
  qed
qed

text \<open>What the rows of a pair need from the decisions they tabulate: a port outside the exact tuples
  decides as the protocol does, a protocol outside the wildcard protocols as the global policies do,
  and provenance is inherited downwards.\<close>

definition coherent ::
  "PolicyDecision \<Rightarrow> Protocol list \<Rightarrow> (Protocol \<times> u16) list \<Rightarrow>
   (Protocol \<Rightarrow> u16 \<Rightarrow> PolicyDecision) \<Rightarrow> bool" where
  "coherent g wild exact decide \<longleftrightarrow>
     distinct wild \<and> distinct exact \<and> (\<forall>(p, port) \<in> set exact. port \<noteq> 0) \<and>
     (\<forall>p port. (p, port) \<notin> set exact \<longrightarrow> outcome_of (decide p port) = outcome_of (decide p 0)) \<and>
     (\<forall>p. p \<notin> set wild \<longrightarrow> outcome_of (decide p 0) = outcome_of g) \<and>
     (\<forall>p port. has_policy_provenance (decide p 0) \<longrightarrow> has_policy_provenance (decide p port)) \<and>
     (\<forall>p. has_policy_provenance g \<longrightarrow> has_policy_provenance (decide p 0)) \<and>
     (\<forall>p port. has_policy_provenance (decide p port) \<longleftrightarrow>
        outcome_of (decide p port) \<noteq> no_policy_outcome) \<and>
     (has_policy_provenance g \<longleftrightarrow> outcome_of g \<noteq> no_policy_outcome)"

definition entry_maker ::
  "(u8 \<Rightarrow> u16 \<Rightarrow> PolicyDecision \<Rightarrow> 'k policy_entry) \<Rightarrow> (u8 \<Rightarrow> u16 \<Rightarrow> 'k) \<Rightarrow> bool" where
  "entry_maker mk K \<longleftrightarrow>
     (\<forall>pr po d. entry_key (mk pr po d) = K pr po \<and>
        (entry_decision (mk pr po d), entry_shadow (mk pr po d)) = outcome_of d) \<and>
     (\<forall>pr po pr' po'. K pr po = K pr' po' \<longleftrightarrow> pr = pr' \<and> po = po')"

lemma entry_makerD:
  assumes "entry_maker mk K"
  shows "entry_key (mk pr po d) = K pr po"
    and "(entry_decision (mk pr po d), entry_shadow (mk pr po d)) = outcome_of d"
    and "K pr po = K pr' po' \<longleftrightarrow> pr = pr' \<and> po = po'"
    and "differs (mk pr po d) (mk pr' po' d') \<longleftrightarrow> outcome_of d \<noteq> outcome_of d'"
proof -
  have d: "(entry_decision (mk pr po d), entry_shadow (mk pr po d)) = outcome_of d" for pr po d
    using assms by (simp add: entry_maker_def)
  then show "(entry_decision (mk pr po d), entry_shadow (mk pr po d)) = outcome_of d" .
  show "differs (mk pr po d) (mk pr' po' d') \<longleftrightarrow> outcome_of d \<noteq> outcome_of d'"
    unfolding differs_def d [of pr po d, symmetric] d [of pr' po' d', symmetric] by simp
qed (use assms in \<open>simp_all add: entry_maker_def\<close>)

text \<open>Both row lists have the keys of a global row, some protocol rows and some port rows.\<close>

lemma row_keys_distinct:
  assumes mk: "entry_maker mk K" and "distinct wild" "distinct exact"
    and nonzero: "\<forall>(p, port) \<in> set exact. port \<noteq> 0"
  shows "distinct ((if b then [K 0 0] else []) @
      map (\<lambda>p. K (protocol_number p) 0) (filter P wild) @
      map (\<lambda>x. K (protocol_number (fst x)) (snd x)) (filter Q exact))"
proof -
  note k = entry_makerD(3) [OF mk]
  have "inj_on (\<lambda>p. K (protocol_number p) 0) S" for S by (simp add: inj_on_def k)
  moreover have "inj_on (\<lambda>x. K (protocol_number (fst x)) (snd x)) S" for S
    by (simp add: inj_on_def k prod_eq_iff)
  moreover have "(\<lambda>p. K (protocol_number p) 0) ` set (filter P wild) \<inter>
      (\<lambda>x. K (protocol_number (fst x)) (snd x)) ` set (filter Q exact) = {}"
    using nonzero by (auto simp: k)
  ultimately show ?thesis using assms(2,3) by (auto simp: distinct_map k)
qed

lemma kept_rows_keys:
  assumes mk: "entry_maker mk K" and "distinct wild" "distinct exact"
    and "\<forall>(p, port) \<in> set exact. port \<noteq> 0"
  shows "distinct (map entry_key (kept_rows mk g wild exact decide))"
    and "e \<in> set (kept_rows mk g wild exact decide) \<Longrightarrow> \<exists>pr po. entry_key e = K pr po"
proof -
  show "distinct (map entry_key (kept_rows mk g wild exact decide))"
    unfolding kept_rows_def map_append map_map comp_def case_prod_unfold if_distrib [of "map entry_key"]
      list.map entry_makerD(1) [OF mk]
    by (rule row_keys_distinct [OF assms])
  show "e \<in> set (kept_rows mk g wild exact decide) \<Longrightarrow> \<exists>pr po. entry_key e = K pr po"
    by (auto simp: kept_rows_def entry_makerD(1,3) [OF mk] split: if_splits)
qed

lemma all_rows_keys:
  assumes mk: "entry_maker mk K" and "distinct wild" "distinct exact"
    and "\<forall>(p, port) \<in> set exact. port \<noteq> 0"
  shows "distinct (map entry_key (all_rows mk g wild exact decide))"
    and "e \<in> set (all_rows mk g wild exact decide) \<Longrightarrow> \<exists>pr po. entry_key e = K pr po"
proof -
  show "distinct (map entry_key (all_rows mk g wild exact decide))"
    unfolding all_rows_def map_append map_map comp_def case_prod_unfold if_distrib [of "map entry_key"]
      list.map entry_makerD(1) [OF mk]
    by (rule row_keys_distinct [OF assms])
  show "e \<in> set (all_rows mk g wild exact decide) \<Longrightarrow> \<exists>pr po. entry_key e = K pr po"
    by (auto simp: all_rows_def entry_makerD(1,3) [OF mk] split: if_splits)
qed

lemma rows_map_append: "rows_map (xs @ ys) k = or_else (rows_map xs k) (rows_map ys k)"
  by (simp add: rows_map_def map_add_def or_else_def)

lemma rows_map_if:
  "rows_map (if b then [e] else []) k =
    (if b \<and> entry_key e = k then Some (entry_decision e, entry_shadow e) else None)"
  by (simp add: rows_map_def)

lemma rows_map_table:
  assumes "\<And>x. entry_key (h x) = key x" and "inj key"
  shows "rows_map (map h (filter P xs)) (key x) =
    (if x \<in> set xs \<and> P x then Some (entry_decision (h x), entry_shadow (h x)) else None)"
  using assms by (induction xs) (auto simp: rows_map_def inj_eq)

lemma rows_map_absent: "(\<And>x. x \<in> set xs \<Longrightarrow> entry_key (h x) \<noteq> k) \<Longrightarrow> rows_map (map h xs) k = None"
  by (auto simp: rows_map_None)

lemma kept_rows_map:
  fixes g wild exact decide
  assumes mk: "entry_maker mk K" and nonzero: "\<forall>(p, port) \<in> set exact. port \<noteq> 0"
  defines "rows \<equiv> kept_rows mk g wild exact decide"
  shows "port \<noteq> 0 \<Longrightarrow> rows_map rows (K (protocol_number p) port) =
      (if (p, port) \<in> set exact \<and> has_policy_provenance (decide p port) \<and>
         outcome_of (decide p port) \<noteq> outcome_of (if p \<in> set wild then decide p 0 else g)
       then Some (outcome_of (decide p port)) else None)"
    and "rows_map rows (K (protocol_number p) 0) =
      (if p \<in> set wild \<and> has_policy_provenance (decide p 0) \<and>
         outcome_of (decide p 0) \<noteq> outcome_of g then Some (outcome_of (decide p 0)) else None)"
    and "rows_map rows (K 0 0) = (if has_policy_provenance g then Some (outcome_of g) else None)"
proof -
  note k = entry_makerD [OF mk]
  let ?h = "\<lambda>x. mk (protocol_number (fst x)) (snd x) (decide (fst x) (snd x))"
  let ?Pw = "\<lambda>p. has_policy_provenance (decide p 0) \<and> outcome_of (decide p 0) \<noteq> outcome_of g"
  let ?Px = "\<lambda>x. has_policy_provenance (decide (fst x) (snd x)) \<and>
    outcome_of (decide (fst x) (snd x)) \<noteq> outcome_of (if fst x \<in> set wild then decide (fst x) 0 else g)"
  let ?G = "if has_policy_provenance g then [mk 0 0 g] else []"
  let ?W = "map (\<lambda>p. mk (protocol_number p) 0 (decide p 0)) (filter ?Pw wild)"
  let ?X = "map ?h (filter ?Px exact)"
  have px: "differs (?h x) (if fst x \<in> set wild then mk (protocol_number (fst x)) 0 (decide (fst x) 0)
      else mk 0 0 g) \<longleftrightarrow>
    outcome_of (decide (fst x) (snd x)) \<noteq> outcome_of (if fst x \<in> set wild then decide (fst x) 0 else g)" for x
    by (simp add: k(4))
  have rows: "rows = ?G @ ?W @ ?X"
    unfolding rows_def kept_rows_def case_prod_unfold k(4) px ..
  have W0: "rows_map ?W (K (protocol_number p) 0) =
      (if p \<in> set wild \<and> ?Pw p then Some (outcome_of (decide p 0)) else None)" for p
    using rows_map_table [where h = "\<lambda>p. mk (protocol_number p) 0 (decide p 0)" and
        key = "\<lambda>p. K (protocol_number p) 0" and P = ?Pw] by (simp add: k inj_def)
  have X: "rows_map ?X (K (protocol_number p) port) =
      (if (p, port) \<in> set exact \<and> ?Px (p, port) then Some (outcome_of (decide p port)) else None)"
    for p port
    using rows_map_table [where h = ?h and key = "\<lambda>x. K (protocol_number (fst x)) (snd x)" and P = ?Px
        and x = "(p, port)"] by (simp add: k inj_def prod_eq_iff)
  have W: "rows_map ?W (K (protocol_number p) port) = None" if "port \<noteq> 0" for p port
    using that by (intro rows_map_absent) (simp add: k)
  have Z: "rows_map ?W (K 0 0) = None" "rows_map ?X (K 0 0) = None"
    by (intro rows_map_absent, simp add: k)+
  have z: "(p, 0) \<notin> set exact" for p using nonzero by auto
  show "port \<noteq> 0 \<Longrightarrow> rows_map rows (K (protocol_number p) port) =
      (if (p, port) \<in> set exact \<and> has_policy_provenance (decide p port) \<and>
         outcome_of (decide p port) \<noteq> outcome_of (if p \<in> set wild then decide p 0 else g)
       then Some (outcome_of (decide p port)) else None)"
    unfolding rows rows_map_append rows_map_if by (simp add: W X k del: split_paired_All)
  show "rows_map rows (K (protocol_number p) 0) =
      (if p \<in> set wild \<and> has_policy_provenance (decide p 0) \<and>
         outcome_of (decide p 0) \<noteq> outcome_of g then Some (outcome_of (decide p 0)) else None)"
    unfolding rows rows_map_append rows_map_if by (simp add: W0 X k z)
  show "rows_map rows (K 0 0) = (if has_policy_provenance g then Some (outcome_of g) else None)"
    unfolding rows rows_map_append rows_map_if by (simp add: Z k)
qed

lemma kept_rows_lookup:
  assumes mk: "entry_maker mk K" and c: "coherent g wild exact decide"
  defines "rows \<equiv> kept_rows mk g wild exact decide"
  shows "or_else (rows_map rows (K (protocol_number p) port))
      (or_else (rows_map rows (K (protocol_number p) 0)) (rows_map rows (K 0 0))) =
    (if has_policy_provenance (decide p port) then Some (outcome_of (decide p port)) else None)"
proof -
  have nz: "\<forall>(p, port) \<in> set exact. port \<noteq> 0" using c by (simp add: coherent_def)
  have protocol: "or_else (rows_map rows (K (protocol_number p) 0)) (rows_map rows (K 0 0)) =
      (if has_policy_provenance (decide p 0) then Some (outcome_of (decide p 0)) else None)"
    using c kept_rows_map(2,3) [OF mk nz, of g wild] unfolding rows_def coherent_def by auto
  show ?thesis
  proof (cases "port = 0")
    case True
    then show ?thesis using protocol by (cases "rows_map rows (K (protocol_number p) 0)") auto
  next
    case False
    show ?thesis
      unfolding protocol using c kept_rows_map(1) [OF mk nz False, of g wild _ p]
      unfolding rows_def coherent_def by auto
  qed
qed

section \<open>Decisions along a pair of endpoints\<close>

definition pair_flow ::
  "Endpoint \<Rightarrow> Endpoint \<Rightarrow> u32 option \<Rightarrow> u128 option \<Rightarrow> Protocol \<Rightarrow> u16 \<Rightarrow> Flow" where
  "pair_flow source destination s4 s6 protocol port =
     \<lparr>flow_source = source, flow_destination = destination, flow_protocol = protocol,
      flow_destination_port = port, flow_source_ipv4 = s4, flow_source_ipv6 = s6\<rparr>"

lemma pair_flow_fields [simp]:
  "flow_source (pair_flow src dst s4 s6 p port) = src"
  "flow_destination (pair_flow src dst s4 s6 p port) = dst"
  "flow_protocol (pair_flow src dst s4 s6 p port) = p"
  "flow_destination_port (pair_flow src dst s4 s6 p port) = port"
  "flow_source_ipv4 (pair_flow src dst s4 s6 p port) = s4"
  "flow_source_ipv6 (pair_flow src dst s4 s6 p port) = s6"
  by (simp_all add: pair_flow_def)

definition pair_match ::
  "Endpoint \<Rightarrow> Endpoint \<Rightarrow> u32 option \<Rightarrow> u128 option \<Rightarrow> DestinationAddresses \<Rightarrow> PolicyRule \<Rightarrow> bool" where
  "pair_match source destination s4 s6 a r \<longleftrightarrow>
     matches_source (rule_source r) source s4 s6 \<and>
     matches_destination (rule_destination r) destination a"

definition named_ports_nonzero :: "Endpoint \<Rightarrow> bool" where
  "named_ports_nonzero ep = list_all (\<lambda>(_, port). port \<noteq> 0) (ep_named_ports ep)"

abbreviation pair_target :: "PolicyDirection \<Rightarrow> Endpoint \<Rightarrow> Endpoint \<Rightarrow> Endpoint" where
  "pair_target d source destination \<equiv> (case d of Ingress \<Rightarrow> destination | Egress \<Rightarrow> source)"

lemma applicable_pair:
  "applicable d (pair_flow src dst s4 s6 p port) q \<longleftrightarrow>
     pol_direction q = d \<and> selector_matches (pol_target q) (pair_target d src dst)"
  by (simp add: applicable_def selected_endpoint_def pair_flow_def split: PolicyDirection.split)

lemma set_port_range: "port \<in> set (port_range s e) \<longleftrightarrow> s \<le> port \<and> port \<le> e"
proof
  assume "port \<in> set (port_range s e)"
  then obtain n where n: "port = of_nat n" "unat s \<le> n" "n \<le> unat e"
    by (auto simp: port_range_def)
  moreover have "n < 2 ^ 16" using n(3) unsigned_less [of e, where ?'a = nat] by simp
  ultimately show "s \<le> port \<and> port \<le> e"
    by (simp add: word_le_nat_alt unsigned_of_nat take_bit_nat_eq_self)
next
  assume "s \<le> port \<and> port \<le> e"
  then have "port = of_nat (unat port)" "unat port \<in> set [unat s..<Suc (unat e)]"
    by (auto simp: word_le_nat_alt)
  then show "port \<in> set (port_range s e)" unfolding port_range_def by (metis image_eqI list.set_map)
qed

lemma set_btree_set [simp]: "set (btree_set xs) = set xs"
  by (simp add: btree_set_def)

lemma distinct_btree_set [simp]: "distinct (btree_set xs)"
  by (simp add: btree_set_def)

lemma resolve_nonzero:
  assumes "named_ports_nonzero ep" "resolve_named_port ep name p = Some port"
  shows "port \<noteq> 0"
proof -
  from assms(2) obtain n where "(n, port) \<in> set (ep_named_ports ep)"
    by (auto simp: resolve_named_port_def find_Some_iff) (metis nth_mem)
  then show ?thesis using assms(1) by (auto simp: named_ports_nonzero_def list_all_iff)
qed

lemma exact_rule_ports_nonzero:
  assumes "rule_wf r" "named_ports_nonzero dst" "(p, port) \<in> set (exact_rule_ports r dst)"
  shows "port \<noteq> 0"
  using assms resolve_nonzero [OF assms(2)]
  by (auto simp: exact_rule_ports_def rule_wf_def set_port_range split: option.splits
      DestinationPort.splits)

text \<open>A well-formed rule matches a flow of the pair through its port list or through a wildcard.\<close>

lemma rule_matches_pair:
  assumes "rule_wf r"
  shows "rule_matches r (pair_flow src dst s4 s6 p port) a \<longleftrightarrow> pair_match src dst s4 s6 a r \<and>
    (rule_destination_port r = AnyPort \<and> (rule_protocol r = None \<or> rule_protocol r = Some p) \<or>
     (p, port) \<in> set (exact_rule_ports r dst))"
  using assms
  by (auto simp: rule_matches_def pair_match_def pair_flow_def exact_rule_ports_def rule_wf_def
      set_port_range split: option.splits DestinationPort.splits)
    metis

text \<open>What a compiler's rule filter must keep: only rules of the policies, and every rule of an
  applicable policy that matches the pair.\<close>

definition pair_rules_ok ::
  "PolicyDirection \<Rightarrow> PolicyIr list \<Rightarrow> Endpoint \<Rightarrow> Endpoint \<Rightarrow> u32 option \<Rightarrow> u128 option \<Rightarrow>
   DestinationAddresses \<Rightarrow> PolicyRule list \<Rightarrow> bool" where
  "pair_rules_ok d ps src dst s4 s6 a rules \<longleftrightarrow>
     (\<forall>p \<in> set ps. \<forall>r \<in> set (pol_rules p). rule_wf r) \<and> named_ports_nonzero dst \<and>
     (\<forall>r \<in> set rules. \<exists>p \<in> set ps. r \<in> set (pol_rules p)) \<and>
     (\<forall>p \<in> set ps. pol_direction p = d \<and> selector_matches (pol_target p) (pair_target d src dst) \<longrightarrow>
        (\<forall>r \<in> set (pol_rules p). pair_match src dst s4 s6 a r \<longrightarrow> r \<in> set rules))"

lemma pair_views_eq:
  assumes "\<And>q r. q \<in> set ps \<Longrightarrow> pol_direction q = d \<Longrightarrow>
      selector_matches (pol_target q) (pair_target d src dst) \<Longrightarrow> r \<in> set (pol_rules q) \<Longrightarrow>
      rule_matches r (pair_flow src dst s4 s6 p port) a = rule_matches r (pair_flow src dst s4 s6 p' port') a"
  shows "outcome_of (evaluate_for_direction_with_addresses ps d (pair_flow src dst s4 s6 p port) a) =
    outcome_of (evaluate_for_direction_with_addresses ps d (pair_flow src dst s4 s6 p' port') a)"
  using assms
  by (intro outcome_of_view image_cong) (auto simp: applicable_pair policy_view_def)

lemma pair_not_exact:
  assumes ok: "pair_rules_ok d ps src dst s4 s6 a rules"
    and "(p, port) \<notin> set (rule_exact_tuples rules dst)"
  shows "outcome_of (evaluate_for_direction_with_addresses ps d (pair_flow src dst s4 s6 p port) a) =
    outcome_of (evaluate_for_direction_with_addresses ps d (pair_flow src dst s4 s6 p 0) a)"
proof (rule pair_views_eq)
  fix q r
  assume q: "q \<in> set ps" "pol_direction q = d"
    "selector_matches (pol_target q) (pair_target d src dst)" and r: "r \<in> set (pol_rules q)"
  have wf: "rule_wf r" using ok q r by (auto simp: pair_rules_ok_def)
  have "(p, port) \<notin> set (exact_rule_ports r dst)" if "pair_match src dst s4 s6 a r"
    using assms that q r by (auto simp: pair_rules_ok_def rule_exact_tuples_def)
  moreover have "(p, 0) \<notin> set (exact_rule_ports r dst)"
    using exact_rule_ports_nonzero [OF wf] ok by (auto simp: pair_rules_ok_def)
  ultimately show "rule_matches r (pair_flow src dst s4 s6 p port) a =
      rule_matches r (pair_flow src dst s4 s6 p 0) a"
    by (auto simp: rule_matches_pair [OF wf])
qed

lemma view_image_strip:
  assumes "\<And>q. q \<in> set ps \<Longrightarrow> applicable d f q \<Longrightarrow>
      applicable d g (h q) \<and> policy_view f a q = policy_view g b (h q)"
    and "\<And>q. q \<in> set ps \<Longrightarrow> applicable d g (h q) \<Longrightarrow> applicable d f q"
  shows "policy_view f a ` set (filter (applicable d f) ps) =
    policy_view g b ` set (filter (applicable d g) (map h ps))"
  using assms by (auto simp: image_iff)

lemma pair_not_wild:
  assumes ok: "pair_rules_ok d ps src dst s4 s6 a rules"
    and "p \<notin> set (rule_wildcard_protocols rules)"
  shows "outcome_of (evaluate_for_direction_with_addresses ps d (pair_flow src dst s4 s6 p 0) a) =
    outcome_of (evaluate_for_direction_with_addresses (global_fallback_policies ps) d
      (pair_flow src dst s4 s6 Tcp 0) a)"
  unfolding global_fallback_policies_def
proof (intro outcome_of_view view_image_strip)
  fix q
  assume q: "q \<in> set ps" "applicable d (pair_flow src dst s4 s6 p 0) q"
  have "{r \<in> set (pol_rules q). rule_matches r (pair_flow src dst s4 s6 p 0) a} =
      {r \<in> set (pol_rules q). rule_protocol r = None \<and> rule_matches r (pair_flow src dst s4 s6 Tcp 0) a}"
  proof (intro Collect_cong conj_cong refl)
    fix r
    assume r: "r \<in> set (pol_rules q)"
    have wf: "rule_wf r" using ok q r by (auto simp: pair_rules_ok_def)
    have z: "(p', 0) \<notin> set (exact_rule_ports r dst)" for p'
      using exact_rule_ports_nonzero [OF wf] ok by (auto simp: pair_rules_ok_def)
    have "rule_protocol r \<noteq> Some p" if "pair_match src dst s4 s6 a r" "rule_destination_port r = AnyPort"
      using assms that q r
      by (auto simp: pair_rules_ok_def rule_wildcard_protocols_def map_filter_def applicable_pair
          image_iff)
    then show "rule_matches r (pair_flow src dst s4 s6 p 0) a \<longleftrightarrow>
        rule_protocol r = None \<and> rule_matches r (pair_flow src dst s4 s6 Tcp 0) a"
      using z by (auto simp: rule_matches_pair [OF wf])
  qed
  then show "applicable d (pair_flow src dst s4 s6 Tcp 0)
      (q\<lparr>pol_rules := filter (\<lambda>r. rule_protocol r = None) (pol_rules q)\<rparr>) \<and>
    policy_view (pair_flow src dst s4 s6 p 0) a q = policy_view (pair_flow src dst s4 s6 Tcp 0) a
      (q\<lparr>pol_rules := filter (\<lambda>r. rule_protocol r = None) (pol_rules q)\<rparr>)"
    using q by (auto simp: applicable_pair policy_view_def)
qed (simp add: applicable_pair)

lemma pair_provenance_port:
  assumes ok: "pair_rules_ok d ps src dst s4 s6 a rules"
    and "has_policy_provenance (evaluate_for_direction_with_addresses ps d (pair_flow src dst s4 s6 p 0) a)"
  shows "has_policy_provenance (evaluate_for_direction_with_addresses ps d (pair_flow src dst s4 s6 p port) a)"
proof -
  obtain mode c where "candidate (set (filter (applicable d (pair_flow src dst s4 s6 p 0)) ps))
      (pair_flow src dst s4 s6 p 0) a mode c"
    using assms(2) by (auto simp: provenance_iff)
  then have "\<exists>c. candidate (set (filter (applicable d (pair_flow src dst s4 s6 p port)) ps))
      (pair_flow src dst s4 s6 p port) a mode c"
  proof (rule candidate_mono)
    fix q
    assume q: "q \<in> set (filter (applicable d (pair_flow src dst s4 s6 p 0)) ps)"
    have "rule_matches r (pair_flow src dst s4 s6 p port) a"
      if "r \<in> set (pol_rules q)" "rule_matches r (pair_flow src dst s4 s6 p 0) a" for r
    proof -
      have wf: "rule_wf r" using ok q that by (auto simp: pair_rules_ok_def)
      show ?thesis using exact_rule_ports_nonzero [OF wf, of dst p 0] ok that(2)
        by (auto simp: pair_rules_ok_def rule_matches_pair [OF wf])
    qed
    with q show "\<exists>p' \<in> set (filter (applicable d (pair_flow src dst s4 s6 p port)) ps).
        pol_enforcement_mode p' = pol_enforcement_mode q \<and> pol_origin p' = pol_origin q \<and>
        pol_default_action p' = pol_default_action q \<and>
        {r \<in> set (pol_rules q). rule_matches r (pair_flow src dst s4 s6 p 0) a} \<subseteq>
        {r \<in> set (pol_rules p'). rule_matches r (pair_flow src dst s4 s6 p port) a}"
      by (intro bexI [of _ q]) (auto simp: applicable_pair)
  qed
  then show ?thesis unfolding provenance_iff by blast
qed

lemma pair_provenance_global:
  assumes ok: "pair_rules_ok d ps src dst s4 s6 a rules"
    and "has_policy_provenance (evaluate_for_direction_with_addresses (global_fallback_policies ps) d
      (pair_flow src dst s4 s6 Tcp 0) a)"
  shows "has_policy_provenance (evaluate_for_direction_with_addresses ps d (pair_flow src dst s4 s6 p 0) a)"
proof -
  let ?g = "pair_flow src dst s4 s6 Tcp 0" and ?f = "pair_flow src dst s4 s6 p 0"
  obtain mode c where "candidate (set (filter (applicable d ?g) (global_fallback_policies ps))) ?g a mode c"
    using assms(2) by (auto simp: provenance_iff)
  then have "\<exists>c. candidate (set (filter (applicable d ?f) ps)) ?f a mode c"
  proof (rule candidate_mono)
    fix q'
    assume "q' \<in> set (filter (applicable d ?g) (global_fallback_policies ps))"
    then obtain q where q: "q \<in> set ps" "applicable d ?f q"
      "q' = q\<lparr>pol_rules := filter (\<lambda>r. rule_protocol r = None) (pol_rules q)\<rparr>"
      by (auto simp: global_fallback_policies_def applicable_pair)
    have "rule_matches r ?f a"
      if "r \<in> set (pol_rules q)" "rule_protocol r = None" "rule_matches r ?g a" for r
    proof -
      have wf: "rule_wf r" using ok q that by (auto simp: pair_rules_ok_def)
      show ?thesis using that by (auto simp: rule_matches_pair [OF wf] exact_rule_ports_def)
    qed
    with q show "\<exists>p' \<in> set (filter (applicable d ?f) ps).
        pol_enforcement_mode p' = pol_enforcement_mode q' \<and> pol_origin p' = pol_origin q' \<and>
        pol_default_action p' = pol_default_action q' \<and>
        {r \<in> set (pol_rules q'). rule_matches r ?g a} \<subseteq> {r \<in> set (pol_rules p'). rule_matches r ?f a}"
      by (intro bexI [of _ q]) auto
  qed
  then show ?thesis unfolding provenance_iff by blast
qed

lemma provenance_outcome:
  "has_policy_provenance (evaluate_for_direction_with_addresses ps d f a) \<longleftrightarrow>
     outcome_of (evaluate_for_direction_with_addresses ps d f a) \<noteq> no_policy_outcome"
proof
  assume "has_policy_provenance (evaluate_for_direction_with_addresses ps d f a)"
  then show "outcome_of (evaluate_for_direction_with_addresses ps d f a) \<noteq> no_policy_outcome"
    unfolding has_policy_provenance_def evaluate_fields outcome_of_evaluate decided_outcome_def
    by (auto simp: no_policy_outcome_def split: option.splits)
qed (use no_provenance_outcome in blast)

lemma coherent_pair:
  assumes ok: "pair_rules_ok d ps src dst s4 s6 a rules"
  shows "coherent (evaluate_for_direction_with_addresses (global_fallback_policies ps) d
      (pair_flow src dst s4 s6 Tcp 0) a)
    (rule_wildcard_protocols rules) (rule_exact_tuples rules dst)
    (\<lambda>p port. evaluate_for_direction_with_addresses ps d (pair_flow src dst s4 s6 p port) a)"
proof -
  have "\<forall>(p, port) \<in> set (rule_exact_tuples rules dst). port \<noteq> 0"
    using ok exact_rule_ports_nonzero by (fastforce simp: rule_exact_tuples_def pair_rules_ok_def)
  then show ?thesis
    unfolding coherent_def
    using pair_not_exact [OF ok] pair_not_wild [OF ok] pair_provenance_port [OF ok]
      pair_provenance_global [OF ok]
    by (simp add: rule_wildcard_protocols_def rule_exact_tuples_def provenance_outcome)
qed

section \<open>From pairs to whole maps\<close>

lemma try_fold_rows:
  assumes "try_fold f es xs = Ok es'"
    and "\<And>es x es'. x \<in> set xs \<Longrightarrow> f es x = Ok es' \<Longrightarrow> es' = es @ rows x"
  shows "es' = es @ concat (map rows xs)"
  using assms
proof (induction xs arbitrary: es)
  case (Cons x xs)
  then obtain mid where mid: "f es x = Ok mid" and rest: "try_fold f mid xs = Ok es'"
    by (auto simp: res_simps)
  have "mid = es @ rows x" using Cons.prems(2) [OF _ mid] by simp
  moreover have "es' = mid @ concat (map rows xs)"
    using Cons.IH [OF rest] Cons.prems(2) by simp
  ultimately show ?case by simp
qed simp

lemma rows_map_concat:
  assumes "x \<in> set xs"
    and "\<And>y e. y \<in> set xs \<Longrightarrow> e \<in> set (rows y) \<Longrightarrow> entry_key e = k \<Longrightarrow> y = x"
  shows "rows_map (concat (map rows xs)) k = rows_map (rows x) k"
  using assms
proof (induction xs)
  case (Cons y ys)
  have absent: "rows_map (rows z) k = None" if "z \<in> set (y # ys)" "z \<noteq> x" for z
    using Cons.prems(2) [OF that(1)] that(2) by (auto simp: rows_map_None)
  show ?case
  proof (cases "x \<in> set ys")
    case True
    then have "rows_map (concat (map rows ys)) k = rows_map (rows x) k"
      using Cons.IH Cons.prems(2) by simp
    then show ?thesis using absent [of y]
      by (cases "y = x") (auto simp: rows_map_append or_else_def split: option.split)
  next
    case False
    then have "y = x" using Cons.prems(1) by simp
    moreover have "rows_map (concat (map rows ys)) k = None"
      using Cons.prems(2) False by (auto simp: rows_map_None)
    ultimately show ?thesis by (simp add: rows_map_append)
  qed
qed simp

lemma rows_map_filter: "rows_map rows k = rows_map (filter (\<lambda>e. entry_key e = k) rows) k"
  by (induction rows) (auto simp: rows_map_def)

lemma rows_map_sort: "rows_map (sort_key entry_key rows) k = rows_map rows k"
  by (subst (1 2) rows_map_filter) (simp add: sort_key_stable)

lemma insert_unique_fold:
  assumes "try_fold (insert_unique conflict) m kvs = Ok m'" and "bt_ok m"
  shows "bt_ok m' \<and> set m' = set m \<union> set kvs"
  using assms
proof (induction kvs arbitrary: m)
  case (Cons kv kvs)
  obtain k ep where kv: "kv = (k, ep)" by (cases kv)
  with Cons.prems obtain mid where mid: "insert_unique conflict m (k, ep) = Ok mid"
    and rest: "try_fold (insert_unique conflict) mid kvs = Ok m'"
    by (auto simp: res_simps)
  have "mid = bt_insert k ep m" and old: "bt_get m k = None \<or> bt_get m k = Some ep"
    using mid by (auto simp: insert_unique_def split: option.splits if_splits)
  then have ok: "bt_ok mid" and get: "bt_get mid = (bt_get m)(k \<mapsto> ep)"
    using Cons.prems(2) by (simp_all add: bt_ok_insert bt_get_insert)
  have "e \<in> set mid \<longleftrightarrow> e = (k, ep) \<or> e \<in> set m" for e
    using old get bt_get_eq_Some [OF ok, of "fst e" "snd e"]
      bt_get_eq_Some [OF Cons.prems(2), of "fst e" "snd e"]
    by (cases e) (auto split: if_splits)
  then have "set mid = insert (k, ep) (set m)" by blast
  then show ?case using Cons.IH [OF rest ok] kv by simp
qed simp

lemma unique_endpoints_Ok:
  assumes "unique_endpoints eps = Ok m"
  shows "set (bt_values m) = set eps" and "distinct (bt_values m)"
    and "\<And>x y. x \<in> set eps \<Longrightarrow> y \<in> set eps \<Longrightarrow> ep_identity x = ep_identity y \<Longrightarrow> x = y"
proof -
  have m: "bt_ok m" "set m = (\<lambda>ep. (ep_identity ep, ep)) ` set eps"
    using insert_unique_fold [OF assms [unfolded unique_endpoints_def] bt_ok_Nil] by auto
  show "set (bt_values m) = set eps" by (force simp: bt_values_def m(2))
  have "inj_on snd (set m)" by (auto simp: m(2) inj_on_def)
  moreover have "distinct m" using bt_ok_distinct [OF m(1)] by (simp add: distinct_map)
  ultimately show "distinct (bt_values m)" by (simp add: bt_values_def distinct_map)
  fix x y
  assume "x \<in> set eps" "y \<in> set eps" "ep_identity x = ep_identity y"
  then have "bt_get m (ep_identity x) = Some x" "bt_get m (ep_identity x) = Some y"
    by (auto simp: bt_get_eq_Some [OF m(1)] m(2) image_iff)
  then show "x = y" by simp
qed

text \<open>The lookup of the dataplane: port row, then protocol row, then global row.\<close>

definition chain_lookup :: "('k \<Rightarrow> outcome option) \<Rightarrow> (u8 \<Rightarrow> u16 \<Rightarrow> 'k) \<Rightarrow> u8 \<Rightarrow> u16 \<Rightarrow> outcome option" where
  "chain_lookup m K protocol port =
     or_else (m (K protocol port)) (or_else (m (K protocol 0)) (m (K 0 0)))"

definition decided :: "PolicyDecision \<Rightarrow> outcome option" where
  "decided e = (if has_policy_provenance e then Some (outcome_of e) else None)"

definition policies_wf :: "PolicyIr list \<Rightarrow> bool" where
  "policies_wf ps = list_all (\<lambda>p. list_all rule_wf (pol_rules p)) ps"

lemma entry_makers [simp]:
  "entry_maker (policy_map_entry s t) (PolicyMapKey (ep_identity s) (ep_identity t))"
  "entry_maker (ipv4_policy_map_entry a4 t) (Ipv4PolicyMapKey a4 (ep_identity t))"
  "entry_maker (egress_ipv4_policy_map_entry s a4) (EgressIpv4PolicyMapKey (ep_identity s) a4)"
  "entry_maker (ipv6_policy_map_entry c t)
     (Ipv6PolicyMapKey (network6 c) (prefix_len6 c) (ep_identity t))"
  "entry_maker (egress_ipv6_policy_map_entry s c)
     (EgressIpv6PolicyMapKey (ep_identity s) (network6 c) (prefix_len6 c))"
  by (simp_all add: entry_maker_def policy_map_entry_def ipv4_policy_map_entry_def
      egress_ipv4_policy_map_entry_def ipv6_policy_map_entry_def egress_ipv6_policy_map_entry_def
      outcome_of_def)

lemma targeted_rulesD:
  "r \<in> set (targeted_rules ps ep) \<longleftrightarrow>
     (\<exists>p \<in> set ps. selector_matches (pol_target p) ep \<and> r \<in> set (pol_rules p))"
  by (auto simp: targeted_rules_def)

lemma matches_destination_selector:
  "matches_destination s ep a \<Longrightarrow> selector_matches s ep"
  by (simp add: matches_destination_def matches_addressed_def Let_def)

text \<open>The rule filters of the ingress and egress compilers keep what a pair needs.\<close>

lemma ingress_rules_ok:
  assumes "policies_wf ps" "named_ports_nonzero dst"
    and "\<And>r. matches_source (rule_source r) src s4 s6 \<Longrightarrow> selector_matches (rule_destination r) dst \<Longrightarrow> F r"
  shows "pair_rules_ok Ingress ps src dst s4 s6 a (filter F (targeted_rules ps dst))"
  using assms
  by (auto simp: pair_rules_ok_def policies_wf_def list_all_iff targeted_rulesD pair_match_def
      dest: matches_destination_selector)

lemma egress_rules_ok:
  assumes "policies_wf ps" "named_ports_nonzero dst"
  shows "pair_rules_ok Egress ps src dst None None a (egress_rules ps src dst a)"
  using assms
  by (auto simp: pair_rules_ok_def policies_wf_def list_all_iff targeted_rulesD pair_match_def
      egress_rules_def)

lemma evaluate_ingress:
  "evaluate ps f = evaluate_for_direction_with_addresses ps Ingress f no_addresses"
  by (simp add: evaluate_def evaluate_for_direction_def)

lemma push_if_bounded:
  assumes "(if b then push_dataplane_entry es e else Ok es) = Ok es'"
    and "length es \<le> POLICY_MAP_BANK_ENTRY_LIMIT"
  shows "length es' \<le> POLICY_MAP_BANK_ENTRY_LIMIT"
  using assms by (auto simp: push_dataplane_entry_Ok split: if_splits)

lemma lower_decisions_bounded:
  assumes "lower_decisions mk g wild exact decide es = Ok es'"
    and "length es \<le> POLICY_MAP_BANK_ENTRY_LIMIT"
  shows "length es' \<le> POLICY_MAP_BANK_ENTRY_LIMIT"
proof -
  let ?L = "POLICY_MAP_BANK_ENTRY_LIMIT"
  from assms(1) obtain es1 es2 m where
    g: "(if has_policy_provenance g then push_dataplane_entry es (mk 0 0 g) else Ok es) = Ok es1"
    and w: "try_fold (\<lambda>(es, m) p. rbind (if has_policy_provenance (decide p 0) \<and>
          differs (mk (protocol_number p) 0 (decide p 0)) (mk 0 0 g)
        then push_dataplane_entry es (mk (protocol_number p) 0 (decide p 0)) else Ok es)
        (\<lambda>es. Ok (es, bt_insert p (mk (protocol_number p) 0 (decide p 0)) m))) (es1, []) wild
      = Ok (es2, m)"
    and x: "try_fold (\<lambda>es (p, port). if has_policy_provenance (decide p port) \<and>
          differs (mk (protocol_number p) port (decide p port))
            (case bt_get m p of None \<Rightarrow> mk 0 0 g | Some e \<Rightarrow> e)
        then push_dataplane_entry es (mk (protocol_number p) port (decide p port))
        else Ok es) es2 exact = Ok es'"
    by (simp only: lower_decisions_def Let_def rbind_eq_Inr) (auto simp only: split_paired_Ex prod.case)
  have "length es1 \<le> ?L" by (rule push_if_bounded [OF g assms(2)])
  then have "length (fst (es2, m)) \<le> ?L"
    by (intro try_fold_invariant [OF w, of "\<lambda>s. length (fst s) \<le> ?L"])
      (auto simp: res_simps intro: push_if_bounded)
  then show ?thesis
    by (intro try_fold_invariant [OF x, of "\<lambda>es. length es \<le> ?L"])
      (auto intro: push_if_bounded split: prod.splits)
qed

section \<open>The identity map\<close>

definition identity_rows :: "PolicyIr list \<Rightarrow> Endpoint \<Rightarrow> Endpoint \<Rightarrow> PolicyMapEntry list" where
  "identity_rows ps src dst =
     (let rules = filter (\<lambda>r. matches_source (rule_source r) src None None \<and>
        selector_matches (rule_destination r) dst) (targeted_rules ps dst)
      in kept_rows (policy_map_entry src dst)
        (evaluate (global_fallback_policies ps) (pair_flow src dst None None Tcp 0))
        (rule_wildcard_protocols rules) (rule_exact_tuples rules dst)
        (\<lambda>p port. evaluate ps (pair_flow src dst None None p port)))"

lemma compile_identity_pair_Ok:
  "compile_identity_pair ps (global_fallback_policies ps) src dst es = Ok es' \<Longrightarrow>
     es' = es @ identity_rows ps src dst"
  unfolding compile_identity_pair_def identity_rows_def Let_def pair_flow_def
  by (rule lower_decisions_Ok)

lemma identity_rows_coherent:
  fixes src dst
  assumes "policies_wf ps" "named_ports_nonzero dst"
  defines "rules \<equiv> filter (\<lambda>r. matches_source (rule_source r) src None None \<and>
        selector_matches (rule_destination r) dst) (targeted_rules ps dst)"
  shows "coherent (evaluate (global_fallback_policies ps) (pair_flow src dst None None Tcp 0))
    (rule_wildcard_protocols rules) (rule_exact_tuples rules dst)
    (\<lambda>p port. evaluate ps (pair_flow src dst None None p port))"
  unfolding evaluate_ingress rules_def
  by (rule coherent_pair [OF ingress_rules_ok [OF assms(1,2)]]) simp

lemma compile_dataplane_entries_Ok:
  assumes "compile_dataplane_entries ps eps = Ok entries"
  obtains vs where "entries = sort_key entry_key
      (concat (map (\<lambda>(s, t). identity_rows ps s t) (List.product vs vs)))"
    "set vs = set eps" "distinct vs" "length entries \<le> POLICY_MAP_BANK_ENTRY_LIMIT" "\<And>x y. x \<in> set eps \<Longrightarrow> y \<in> set eps \<Longrightarrow> ep_identity x = ep_identity y \<Longrightarrow> x = y"
proof -
  from assms obtain m es where m: "unique_endpoints eps = Ok m"
    and es: "try_fold (\<lambda>es (s, t). compile_identity_pair ps (global_fallback_policies ps) s t es) []
      (List.product (bt_values m) (bt_values m)) = Ok es" and entries: "entries = sort_key entry_key es"
    by (auto simp: compile_dataplane_entries_def Let_def res_simps)
  have "es = [] @ concat (map (\<lambda>(s, t). identity_rows ps s t)
      (List.product (bt_values m) (bt_values m)))"
    by (rule try_fold_rows [OF es]) (auto simp: compile_identity_pair_Ok)
  moreover have "length es \<le> POLICY_MAP_BANK_ENTRY_LIMIT"
  proof (rule try_fold_invariant [OF es, of "\<lambda>es. length es \<le> POLICY_MAP_BANK_ENTRY_LIMIT"])
    fix t x t'
    assume "length t \<le> POLICY_MAP_BANK_ENTRY_LIMIT"
      "(case x of (s, d) \<Rightarrow> compile_identity_pair ps (global_fallback_policies ps) s d t) = Ok t'"
    then show "length t' \<le> POLICY_MAP_BANK_ENTRY_LIMIT"
      by (auto simp: compile_identity_pair_def Let_def lower_decisions_bounded split: prod.splits)
  qed simp
  ultimately show thesis
    using entries unique_endpoints_Ok [OF m] by (intro that [of "bt_values m"]) auto
qed

lemma identity_rows_keys:
  assumes "policies_wf ps" "named_ports_nonzero dst"
  shows "distinct (map entry_key (identity_rows ps src dst))"
    and "e \<in> set (identity_rows ps src dst) \<Longrightarrow>
      \<exists>pr po. entry_key e = PolicyMapKey (ep_identity src) (ep_identity dst) pr po"
proof -
  let ?rules = "filter (\<lambda>r. matches_source (rule_source r) src None None \<and>
        selector_matches (rule_destination r) dst) (targeted_rules ps dst)"
  have "distinct (rule_wildcard_protocols ?rules)" "distinct (rule_exact_tuples ?rules dst)"
    "\<forall>(p, port) \<in> set (rule_exact_tuples ?rules dst). port \<noteq> 0"
    using identity_rows_coherent [OF assms, of src] by (simp_all add: coherent_def)
  note keys = kept_rows_keys [OF entry_makers(1) this]
  show "distinct (map entry_key (identity_rows ps src dst))"
    unfolding identity_rows_def Let_def by (rule keys(1))
  show "e \<in> set (identity_rows ps src dst) \<Longrightarrow>
      \<exists>pr po. entry_key e = PolicyMapKey (ep_identity src) (ep_identity dst) pr po"
    unfolding identity_rows_def Let_def by (rule keys(2))
qed

lemma distinct_concat_keys:
  assumes "distinct xs" and "\<And>x. x \<in> set xs \<Longrightarrow> distinct (map entry_key (rows x))"
    and "\<And>x y e e'. x \<in> set xs \<Longrightarrow> y \<in> set xs \<Longrightarrow> e \<in> set (rows x) \<Longrightarrow> e' \<in> set (rows y) \<Longrightarrow>
      entry_key e = entry_key e' \<Longrightarrow> x = y"
  shows "distinct (map entry_key (concat (map rows xs)))"
  using assms
proof (induction xs)
  case (Cons x xs)
  have "distinct (map entry_key (concat (map rows xs)))"
    using Cons.prems by (intro Cons.IH) auto
  moreover have "entry_key ` set (rows x) \<inter> entry_key ` set (concat (map rows xs)) = {}"
  proof -
    have "entry_key e \<noteq> entry_key e'" if "e \<in> set (rows x)" "y \<in> set xs" "e' \<in> set (rows y)" for e e' y
      using Cons.prems(1) Cons.prems(3) [of x y e e'] that by auto
    then show ?thesis by auto
  qed
  ultimately show ?case using Cons.prems(2) by (auto simp: image_Un image_UN)
qed simp

text \<open>
  The identity map is a correct compilation.  For every pair of known endpoints and every
  protocol and port, the dataplane's lookup in the compiled entries (port row, protocol row, global
  row) yields exactly the decision and shadow decision the evaluator computes for the flow, and
  nothing when no policy decides it.
\<close>

lemma identity_lookup_correct:
  assumes "compile_dataplane_entries ps eps = Ok entries" and "policies_wf ps"
    and "src \<in> set eps" and "dst \<in> set eps" and "named_ports_nonzero dst"
  shows "chain_lookup (rows_map entries) (PolicyMapKey (ep_identity src) (ep_identity dst))
      (protocol_number p) port = decided (evaluate ps (pair_flow src dst None None p port))"
proof -
  from assms(1) obtain vs where entries: "entries = sort_key entry_key
      (concat (map (\<lambda>(s, t). identity_rows ps s t) (List.product vs vs)))"
    and vs: "set vs = set eps"
    and inj: "\<And>x y. x \<in> set eps \<Longrightarrow> y \<in> set eps \<Longrightarrow> ep_identity x = ep_identity y \<Longrightarrow> x = y"
    using compile_dataplane_entries_Ok by blast
  have "rows_map entries (PolicyMapKey (ep_identity src) (ep_identity dst) pr po) =
      rows_map (identity_rows ps src dst) (PolicyMapKey (ep_identity src) (ep_identity dst) pr po)"
    for pr po
  proof -
    have "rows_map (concat (map (\<lambda>(s, t). identity_rows ps s t) (List.product vs vs)))
        (PolicyMapKey (ep_identity src) (ep_identity dst) pr po) =
      rows_map ((\<lambda>(s, t). identity_rows ps s t) (src, dst))
        (PolicyMapKey (ep_identity src) (ep_identity dst) pr po)"
    proof (rule rows_map_concat)
      show "(src, dst) \<in> set (List.product vs vs)" using assms(3,4) vs by simp
      fix y e
      assume y: "y \<in> set (List.product vs vs)" and e: "e \<in> set ((\<lambda>(s, t). identity_rows ps s t) y)"
        and key: "entry_key e = PolicyMapKey (ep_identity src) (ep_identity dst) pr po"
      obtain s t where st: "y = (s, t)" "s \<in> set eps" "t \<in> set eps" using y vs by auto
      have "\<exists>pr po. entry_key e = PolicyMapKey (ep_identity s) (ep_identity t) pr po"
        using e st by (auto simp: identity_rows_def Let_def kept_rows_def policy_map_entry_def
            split: if_splits)
      then show "y = (src, dst)" using key st inj assms(3,4) by auto
    qed
    then show ?thesis unfolding entries rows_map_sort by simp
  qed
  then show ?thesis
    using kept_rows_lookup [OF entry_makers(1) identity_rows_coherent [OF assms(2,5)], of src]
    by (simp add: chain_lookup_def decided_def identity_rows_def Let_def)
qed

lemma identity_entries_sorted:
  assumes "compile_dataplane_entries ps eps = Ok entries" and "policies_wf ps"
    and "list_all named_ports_nonzero eps"
  shows "sorted_wrt (<) (map entry_key entries) \<and> length entries \<le> POLICY_MAP_BANK_ENTRY_LIMIT"
proof -
  from assms(1) obtain vs where entries: "entries = sort_key entry_key
      (concat (map (\<lambda>(s, t). identity_rows ps s t) (List.product vs vs)))"
    and vs: "set vs = set eps" "distinct vs" and len: "length entries \<le> POLICY_MAP_BANK_ENTRY_LIMIT"
    and inj: "\<And>x y. x \<in> set eps \<Longrightarrow> y \<in> set eps \<Longrightarrow> ep_identity x = ep_identity y \<Longrightarrow> x = y"
    using compile_dataplane_entries_Ok by blast
  have ports: "named_ports_nonzero ep" if "ep \<in> set eps" for ep
    using assms(3) that by (simp add: list_all_iff)
  have "distinct (map entry_key (concat (map (\<lambda>(s, t). identity_rows ps s t) (List.product vs vs))))"
  proof (rule distinct_concat_keys)
    show "distinct (List.product vs vs)" using vs(2) by (simp add: distinct_product)
    show "distinct (map entry_key (case x of (s, t) \<Rightarrow> identity_rows ps s t))"
      if "x \<in> set (List.product vs vs)" for x
      using that vs(1) ports by (auto intro: identity_rows_keys(1) [OF assms(2)])
    fix x y e e'
    assume "x \<in> set (List.product vs vs)" "y \<in> set (List.product vs vs)"
      and e: "e \<in> set (case x of (s, t) \<Rightarrow> identity_rows ps s t)"
        "e' \<in> set (case y of (s, t) \<Rightarrow> identity_rows ps s t)" "entry_key e = entry_key e'"
    then obtain s t s' t' where xy: "x = (s, t)" "y = (s', t')" "s \<in> set eps" "t \<in> set eps"
      "s' \<in> set eps" "t' \<in> set eps" using vs(1) by auto
    with e identity_rows_keys(2) [OF assms(2) ports, of t e s] identity_rows_keys(2) [OF assms(2) ports, of t' e' s']
    have "ep_identity s = ep_identity s'" "ep_identity t = ep_identity t'" by auto
    then show "x = y" using xy inj by auto
  qed
  then have "distinct (map entry_key entries)" unfolding entries
    by (metis distinct_map distinct_sort set_sort)
  then show ?thesis using len by (simp add: strict_sorted_iff entries)
qed

text \<open>
  C31: the compiled identity entries are a function of their keys in strictly increasing key order,
  and they fit one dataplane bank.
\<close>

theorem identity_entries_sorted_bounded:
  assumes "compile_dataplane_entries ps eps = Ok entries" and "policies_wf ps"
    and "list_all named_ports_nonzero eps"
  shows "sorted_wrt (<) (map entry_key entries) \<and> length entries \<le> POLICY_MAP_BANK_ENTRY_LIMIT"
  using identity_entries_sorted [OF assms] .

section \<open>Compilation succeeds within one bank\<close>

lemma push_if_total:
  assumes "length es < POLICY_MAP_BANK_ENTRY_LIMIT"
  shows "\<exists>es'. (if b then push_dataplane_entry es e else Ok es) = Ok es' \<and> length es' \<le> Suc (length es)"
  using assms by (auto simp: push_dataplane_entry_Ok)

text \<open>A fold whose steps succeed and grow the output by at most \<open>size x\<close> while it fits the bank.\<close>

lemma try_fold_total:
  assumes "\<And>s x. x \<in> set xs \<Longrightarrow> size_of s + w x \<le> POLICY_MAP_BANK_ENTRY_LIMIT \<Longrightarrow>
      \<exists>s'. f s x = Ok s' \<and> size_of s' \<le> size_of s + w x"
    and "size_of s + sum_list (map w xs) \<le> POLICY_MAP_BANK_ENTRY_LIMIT"
  shows "\<exists>s'. try_fold f s xs = Ok s' \<and> size_of s' \<le> size_of s + sum_list (map w xs)"
  using assms
proof (induction xs arbitrary: s)
  case (Cons x xs)
  obtain mid where mid: "f s x = Ok mid" "size_of mid \<le> size_of s + w x"
    using Cons.prems(1) [of x s] Cons.prems(2) by auto
  obtain s' where "try_fold f mid xs = Ok s'" "size_of s' \<le> size_of mid + sum_list (map w xs)"
    using Cons.IH [of mid] Cons.prems mid(2) by auto
  then show ?case using mid by (intro exI [of _ s']) auto
qed simp

lemma lower_decisions_total:
  assumes "length es + (1 + length wild + length exact) \<le> POLICY_MAP_BANK_ENTRY_LIMIT"
  shows "\<exists>es'. lower_decisions mk g wild exact decide es = Ok es' \<and>
    length es' \<le> length es + (1 + length wild + length exact)"
proof -
  let ?L = "POLICY_MAP_BANK_ENTRY_LIMIT"
  obtain es1 where g: "(if has_policy_provenance g then push_dataplane_entry es (mk 0 0 g) else Ok es) = Ok es1"
    and l1: "length es1 \<le> Suc (length es)"
    using push_if_total [of es] assms by fastforce
  let ?fw = "\<lambda>(es, m) p. rbind (if has_policy_provenance (decide p 0) \<and>
          differs (mk (protocol_number p) 0 (decide p 0)) (mk 0 0 g)
        then push_dataplane_entry es (mk (protocol_number p) 0 (decide p 0)) else Ok es)
        (\<lambda>es. Ok (es, bt_insert p (mk (protocol_number p) 0 (decide p 0)) m))"
  have "\<exists>s'. try_fold ?fw (es1, []) wild = Ok s' \<and>
      length (fst s') \<le> length (fst (es1, [] :: (Protocol, 'a policy_entry) btree)) + sum_list (map (\<lambda>_. 1) wild)"
  proof (rule try_fold_total [where size_of = "\<lambda>s. length (fst s)" and w = "\<lambda>_. 1"])
    fix s :: "'a policy_entry list \<times> (Protocol, 'a policy_entry) btree" and x
    assume "length (fst s) + 1 \<le> ?L"
    then show "\<exists>s'. ?fw s x = Ok s' \<and> length (fst s') \<le> length (fst s) + 1"
    proof (cases s)
      case (Pair es m)
      with \<open>length (fst s) + 1 \<le> ?L\<close> have "length es < ?L" by simp
      from push_if_total [OF this, of "has_policy_provenance (decide x 0) \<and>
          differs (mk (protocol_number x) 0 (decide x 0)) (mk 0 0 g)"
          "mk (protocol_number x) 0 (decide x 0)"]
      obtain es' where "(if has_policy_provenance (decide x 0) \<and>
          differs (mk (protocol_number x) 0 (decide x 0)) (mk 0 0 g)
        then push_dataplane_entry es (mk (protocol_number x) 0 (decide x 0)) else Ok es) = Ok es'"
        "length es' \<le> Suc (length es)" by blast
      then show ?thesis unfolding Pair prod.case by simp
    qed
  qed (use assms l1 in \<open>simp add: sum_list_triv\<close>)
  then obtain es2 m where w: "try_fold ?fw (es1, []) wild = Ok (es2, m)"
    and l2: "length es2 \<le> length es1 + length wild"
    by (auto simp: sum_list_triv)
  let ?fx = "\<lambda>es (p, port). if has_policy_provenance (decide p port) \<and>
          differs (mk (protocol_number p) port (decide p port))
            (case bt_get m p of None \<Rightarrow> mk 0 0 g | Some e \<Rightarrow> e)
        then push_dataplane_entry es (mk (protocol_number p) port (decide p port)) else Ok es"
  have "\<exists>s'. try_fold ?fx es2 exact = Ok s' \<and> length s' \<le> length es2 + sum_list (map (\<lambda>_. 1) exact)"
  proof (rule try_fold_total [where size_of = length and w = "\<lambda>_. 1"])
    fix s :: "'a policy_entry list" and x
    assume "length s + 1 \<le> ?L"
    then show "\<exists>s'. ?fx s x = Ok s' \<and> length s' \<le> length s + 1"
      using push_if_total [of s] by (cases x) auto
  qed (use assms l1 l2 in \<open>simp add: sum_list_triv\<close>)
  then show ?thesis
    using g w l1 l2 unfolding lower_decisions_def Let_def by (auto simp: sum_list_triv)
qed

definition identity_pair_size :: "PolicyIr list \<Rightarrow> Endpoint \<times> Endpoint \<Rightarrow> nat" where
  "identity_pair_size ps = (\<lambda>(src, dst).
     let rules = filter (\<lambda>r. matches_source (rule_source r) src None None \<and>
        selector_matches (rule_destination r) dst) (targeted_rules ps dst)
     in 1 + length (rule_wildcard_protocols rules) + length (rule_exact_tuples rules dst))"

text \<open>The identity compiler succeeds on ingress policies and consistent endpoint metadata whenever
  the rows its rules can name fit one dataplane bank.\<close>

lemma compile_dataplane_entries_total:
  assumes "list_all (\<lambda>p. pol_direction p = Ingress) ps" and "unique_endpoints eps = Ok m"
    and "sum_list (map (identity_pair_size ps) (List.product (bt_values m) (bt_values m)))
      \<le> POLICY_MAP_BANK_ENTRY_LIMIT"
  shows "\<exists>entries. compile_dataplane_entries ps eps = Ok entries"
proof -
  have "find (\<lambda>p. pol_direction p \<noteq> Ingress) ps = None"
    using assms(1) by (simp add: find_None_iff list_all_iff)
  then have "ensure_ingress_dataplane_policies ps = Ok ()"
    by (simp add: ensure_ingress_dataplane_policies_def ensure_dataplane_policies_def)
  moreover have "\<exists>es. try_fold (\<lambda>es (s, t). compile_identity_pair ps (global_fallback_policies ps) s t es) []
      (List.product (bt_values m) (bt_values m)) = Ok es \<and> length es \<le> length ([] :: PolicyMapEntry list) +
      sum_list (map (identity_pair_size ps) (List.product (bt_values m) (bt_values m)))"
  proof (rule try_fold_total [where size_of = length])
    fix es :: "PolicyMapEntry list" and x
    assume "length es + identity_pair_size ps x \<le> POLICY_MAP_BANK_ENTRY_LIMIT"
    then show "\<exists>es'. (case x of (s, t) \<Rightarrow> compile_identity_pair ps (global_fallback_policies ps) s t es) = Ok es' \<and>
        length es' \<le> length es + identity_pair_size ps x"
      by (cases x) (simp only: prod.case compile_identity_pair_def identity_pair_size_def Let_def
          lower_decisions_total)
  qed (use assms(3) in simp)
  ultimately show ?thesis
    using assms(2) by (auto simp: compile_dataplane_entries_def)
qed

section \<open>A concrete identity map\<close>

abbreviation sample_policies :: "PolicyIr list" where
  "sample_policies \<equiv> [sample_policy Native [sample_rule AllowAction 443]]"

abbreviation sample_endpoints :: "Endpoint list" where
  "sample_endpoints \<equiv> [sample_endpoint 1, sample_endpoint 2]"

lemma sample_unique:
  "unique_endpoints sample_endpoints = Ok [(1, sample_endpoint 1), (2, sample_endpoint 2)]"
  by (simp add: unique_endpoints_def insert_unique_def bt_get_def sample_endpoint_def)

lemma sample_pair_size: "identity_pair_size sample_policies (sample_endpoint i, sample_endpoint j) \<le> 2"
  by (simp add: identity_pair_size_def Let_def rule_wildcard_protocols_def rule_exact_tuples_def
      exact_rule_ports_def btree_set_def targeted_rules_def map_filter_def sample_rule_def
      sample_policy_def)

lemma sample_identity_entries:
  "\<exists>entries. compile_dataplane_entries sample_policies sample_endpoints = Ok entries"
proof (rule compile_dataplane_entries_total [OF _ sample_unique])
  show "list_all (\<lambda>p. pol_direction p = Ingress) sample_policies" by (simp add: sample_policy_def)
  show "sum_list (map (identity_pair_size sample_policies) (List.product
      (bt_values [(1, sample_endpoint 1), (2, sample_endpoint 2)])
      (bt_values [(1, sample_endpoint 1), (2, sample_endpoint 2)]))) \<le> POLICY_MAP_BANK_ENTRY_LIMIT"
    using sample_pair_size [of 1 1] sample_pair_size [of 1 2] sample_pair_size [of 2 1]
      sample_pair_size [of 2 2]
    by (simp add: bt_values_def POLICY_MAP_BANK_ENTRY_LIMIT_def)
qed

lemma sample_wf: "policies_wf sample_policies" "list_all named_ports_nonzero sample_endpoints"
  by (simp_all add: policies_wf_def rule_wf_def named_ports_nonzero_def sample_policy_defs)

theorem identity_entries_sorted_bounded_witness:
  "\<exists>entries. compile_dataplane_entries sample_policies sample_endpoints = Ok entries \<and>
   sorted_wrt (<) (map entry_key entries)"
  using sample_identity_entries identity_entries_sorted_bounded [OF _ sample_wf] by blast

end
