(* ===== verification/Policy_Addresses.thy ===== *)
theory Policy_Addresses
  imports Policy_Lowering
begin

text \<open>
  Correctness of the exact-address maps: the ingress map keyed by IPv4 source address and the egress
  map keyed by IPv4 destination address.  Addresses that rules or known endpoints single out have
  rows of their own; every other address uses the rows of address zero, compiled for one
  representative address, and the lemmas here show that the representative decides alike.
\<close>

section \<open>Block addresses\<close>

lemma cidr4_contains_iff:
  "cidr4_contains c x \<longleftrightarrow> prefix_len4 c \<le> 32 \<and>
     x AND net_mask (32 - unat (prefix_len4 c)) = network4 c"
proof -
  have "(if prefix_len4 c = 0 then 0 else push_bit (32 - unat (prefix_len4 c)) (- 1)) =
      (net_mask (32 - unat (prefix_len4 c)) :: u32)"
    by (auto simp: shifted_ones_net_mask net_mask_full) (simp add: net_mask_def)
  then show ?thesis by (auto simp: cidr4_contains_def Let_def not_le)
qed

text \<open>A contained address is enumerated, except possibly the last address of a block that covers
  everything, whose count saturates.\<close>

lemma contains_in_addresses:
  assumes "cidr4_contains c x" and "prefix_len4 c \<noteq> 0"
  shows "x \<in> set (cidr4_addresses c)"
proof -
  let ?n = "32 - unat (prefix_len4 c)"
  have len: "prefix_len4 c \<le> 32" and net: "x AND net_mask ?n = network4 c"
    using assms(1) by (auto simp: cidr4_contains_iff)
  have canon: "network4 c AND net_mask ?n = network4 c"
    unfolding net [symmetric] by (simp add: word_bw_assocs)
  have bounds: "unat (network4 c) \<le> unat x" "unat x < unat (network4 c) + 2 ^ ?n"
    using in_prefix_iff [OF canon, of x] net by auto
  have "?n < 32" using assms(2) by (simp add: unat_gt_0)
  then have small: "(2::nat) ^ ?n < 2 ^ 32" by (rule power_strict_increasing) simp
  have count: "cidr4_address_count c = 2 ^ ?n" using len by (simp add: cidr4_address_count_def)
  have "x = network4 c + of_nat (unat x - unat (network4 c))"
    using bounds(1) by (simp add: of_nat_diff word_le_nat_alt)
  moreover have "unat x - unat (network4 c) \<in> set [0..<2 ^ ?n]"
    using bounds by auto
  ultimately show ?thesis
    using small count unfolding cidr4_addresses_def Let_def by auto
qed

definition proper_excepts :: "Ipv4Block list \<Rightarrow> bool" where
  "proper_excepts blocks = list_all (\<lambda>b. list_all (\<lambda>e. prefix_len4 e \<noteq> 0) (block4_except b)) blocks"

text \<open>An address without rows of its own is in exactly the blocks that cover every address.\<close>

definition block_default :: "Ipv4Block \<Rightarrow> bool" where
  "block_default b \<longleftrightarrow> prefix_len4 (block4_cidr b) = 0 \<and> network4 (block4_cidr b) = 0"

lemma free_address_block:
  assumes "b \<in> set blocks" "proper_excepts blocks" "x \<notin> set (block_row_addresses blocks)"
  shows "block4_contains b x \<longleftrightarrow> block_default b"
proof (cases "prefix_len4 (block4_cidr b) = 0")
  case True
  have "\<not> cidr4_contains e x" if "e \<in> set (block4_except b)" for e
  proof
    assume "cidr4_contains e x"
    moreover have "prefix_len4 e \<noteq> 0"
      using assms(1,2) that by (auto simp: proper_excepts_def list_all_iff)
    ultimately have "x \<in> set (cidr4_addresses e)" by (rule contains_in_addresses)
    then show False using assms(1,3) that True by (auto simp: block_row_addresses_def)
  qed
  moreover have "cidr4_contains (block4_cidr b) x \<longleftrightarrow> network4 (block4_cidr b) = 0"
    using True by (auto simp: cidr4_contains_iff net_mask_full)
  ultimately show ?thesis using True by (auto simp: block4_contains_def block_default_def list_ex_iff)
next
  case False
  have "\<not> block4_contains b x"
  proof
    assume b: "block4_contains b x"
    then have "x \<in> set (cidr4_addresses (block4_cidr b))"
      using False by (intro contains_in_addresses) (auto simp: block4_contains_def)
    then have "x \<in> set (block4_addresses b)" using b by (simp add: block4_addresses_def)
    then show False using assms(1,3) False by (auto simp: block_row_addresses_def)
  qed
  then show ?thesis using False by (simp add: block_default_def)
qed

section \<open>The row addresses and their representative\<close>

lemma insert_row_address_fold:
  assumes "try_fold insert_row_address s xs = Ok s'"
  shows "set s' = set s \<union> (set xs - {0})"
  using assms
proof (induction xs arbitrary: s)
  case (Cons x xs)
  then obtain mid where mid: "insert_row_address s x = Ok mid"
    and rest: "try_fold insert_row_address mid xs = Ok s'" by (auto simp: res_simps)
  have "set mid = set s \<union> ({x} - {0})"
    using mid by (auto simp: insert_row_address_def Let_def set_insort_key split: if_splits)
  then show ?case using Cons.IH [OF rest] by auto
qed simp

lemma arbitrary_ipv4_address_Some:
  assumes "arbitrary_ipv4_address s = Some b"
  shows "b \<notin> set s" and "b \<noteq> 0"
proof -
  have b: "b \<in> set (map of_nat [1..<2 ^ 32]) \<and> b \<notin> set s"
    using assms unfolding arbitrary_ipv4_address_def by (rule find_SomeD)
  then show "b \<notin> set s" by simp
  from b obtain n where n: "b = of_nat n" "1 \<le> n" "n < 2 ^ 32" by auto
  have "unat b = n" using n by (simp add: unsigned_of_nat take_bit_nat_eq_self)
  then show "b \<noteq> 0" using n(2) by auto
qed

lemma arbitrary_ipv4_address_total:
  assumes "x \<notin> set s" "x \<noteq> 0"
  shows "arbitrary_ipv4_address s \<noteq> None"
proof -
  have "unat x \<in> set [1..<2 ^ 32]"
    using assms(2) unsigned_less [of x, where ?'a = nat] by (auto simp: unat_gt_0 Suc_le_eq)
  then have "x \<in> set (map of_nat [1..<2 ^ 32])"
    by (auto intro!: image_eqI [of _ _ "unat x"])
  then show ?thesis using assms(1) by (auto simp: arbitrary_ipv4_address_def find_None_iff)
qed

definition fallback_address :: "Ipv4Block list \<Rightarrow> u32 list \<Rightarrow> u32 option" where
  "fallback_address blocks addresses =
     (if list_ex (\<lambda>b. prefix_len4 (block4_cidr b) = 0) blocks
      then arbitrary_ipv4_address addresses else None)"

lemma fallback_matches:
  assumes "set (sel_ipv4_blocks s) \<subseteq> set blocks" "proper_excepts blocks"
    and "set (block_row_addresses blocks) - {0} \<subseteq> set addresses"
    and "x \<notin> set addresses" "x \<noteq> 0"
  shows "matches_addressed s ep (Some x) None = matches_addressed s ep (fallback_address blocks addresses) None"
proof -
  have free: "list_ex (\<lambda>b. block4_contains b y) (sel_ipv4_blocks s) = list_ex block_default (sel_ipv4_blocks s)"
    if "y \<notin> set addresses" "y \<noteq> 0" for y
    using free_address_block [OF _ assms(2), of _ y] assms(1,3) that by (auto simp: list_ex_iff)
  show ?thesis
  proof (cases "list_ex (\<lambda>b. prefix_len4 (block4_cidr b) = 0) blocks")
    case True
    obtain y where y: "arbitrary_ipv4_address addresses = Some y"
      using arbitrary_ipv4_address_total [OF assms(4,5)] by auto
    then have "list_ex (\<lambda>b. block4_contains b y) (sel_ipv4_blocks s) =
        list_ex (\<lambda>b. block4_contains b x) (sel_ipv4_blocks s)"
      using free [of x] free [of y] arbitrary_ipv4_address_Some [OF y] assms(4,5) by simp
    then show ?thesis using True y by (simp add: fallback_address_def matches_addressed_def)
  next
    case False
    then have "\<not> list_ex block_default (sel_ipv4_blocks s)"
      using assms(1) by (auto simp: list_ex_iff block_default_def)
    then show ?thesis
      using False free [OF assms(4,5)] by (auto simp: fallback_address_def matches_addressed_def)
  qed
qed

section \<open>The ingress map\<close>

definition ipv4_rows ::
  "PolicyIr list \<Rightarrow> Endpoint \<Rightarrow> u32 option \<Rightarrow> u32 \<Rightarrow> Endpoint \<Rightarrow> Ipv4PolicyMapEntry list" where
  "ipv4_rows ps src s4 address dst =
     (let rules = filter (\<lambda>r. matches_source (rule_source r) src s4 None \<and>
        selector_matches (rule_destination r) dst) (targeted_rules ps dst)
      in kept_rows (ipv4_policy_map_entry address dst)
        (evaluate (global_fallback_policies ps) (pair_flow src dst s4 None Tcp 0))
        (rule_wildcard_protocols rules) (rule_exact_tuples rules dst)
        (\<lambda>p port. evaluate ps (pair_flow src dst s4 None p port)))"

lemma compile_ipv4_pair_Ok:
  "compile_ipv4_pair ps (global_fallback_policies ps) src s4 address dst es = Ok es' \<Longrightarrow>
     es' = es @ ipv4_rows ps src s4 address dst"
  unfolding compile_ipv4_pair_def ipv4_rows_def Let_def pair_flow_def
  by (rule lower_decisions_Ok)

lemma ipv4_rows_keys:
  "e \<in> set (ipv4_rows ps src s4 address dst) \<Longrightarrow>
     \<exists>pr po. entry_key e = Ipv4PolicyMapKey address (ep_identity dst) pr po"
  by (auto simp: ipv4_rows_def Let_def kept_rows_def ipv4_policy_map_entry_def split: if_splits)

lemma ipv4_rows_lookup:
  assumes "policies_wf ps" "named_ports_nonzero dst"
  shows "chain_lookup (rows_map (ipv4_rows ps src s4 address dst))
      (Ipv4PolicyMapKey address (ep_identity dst)) (protocol_number p) port =
    decided (evaluate ps (pair_flow src dst s4 None p port))"
  unfolding chain_lookup_def decided_def ipv4_rows_def Let_def evaluate_ingress
  by (rule kept_rows_lookup [OF entry_makers(2) coherent_pair [OF ingress_rules_ok [OF assms]]]) simp

definition endpoint_at :: "('k, Endpoint) btree \<Rightarrow> 'k \<Rightarrow> Endpoint" where
  "endpoint_at known address = (case bt_get known address of None \<Rightarrow> external_endpoint | Some ep \<Rightarrow> ep)"

definition source_blocks :: "PolicyIr list \<Rightarrow> Ipv4Block list" where
  "source_blocks ps = concat (map (sel_ipv4_blocks \<circ> rule_source) (concat (map pol_rules ps)))"

definition kubernetes_targeted :: "PolicyIr list \<Rightarrow> Endpoint \<Rightarrow> bool" where
  "kubernetes_targeted ps ep = list_ex (\<lambda>p. pol_origin p = KubernetesNetworkPolicy \<and>
     selector_matches (pol_target p) ep) ps"

lemma compile_ipv4_Ok:
  assumes "compile_ipv4_dataplane_entries ps eps eps4 = Ok entries"
  obtains vs known addresses where
    "unique_endpoints eps = Ok vs" "bt_ok known"
    "set known = (\<lambda>s. (ep4_address s, ep4_endpoint s)) ` set eps4"
    "set addresses = ep4_address ` set eps4 \<union> (set (block_row_addresses (source_blocks ps)) - {0})"
    "entries = sort_key entry_key
      (concat (map (\<lambda>(a, t). ipv4_rows ps (endpoint_at known a) (Some a) a t)
         (List.product addresses (bt_values vs))) @
       concat (map (\<lambda>t. ipv4_rows ps external_endpoint
           (fallback_address (source_blocks ps) addresses) 0 t)
         (filter (kubernetes_targeted ps) (bt_values vs))))"
    "list_all (\<lambda>p. pol_direction p = Ingress) ps"
proof -
  from assms obtain vs known addresses es1 es2 where
    dir: "ensure_ingress_dataplane_policies ps = Ok ()"
    and vs: "unique_endpoints eps = Ok vs"
    and known: "try_fold (insert_unique Ipv4MetadataConflict) []
       (map (\<lambda>s. (ep4_address s, ep4_endpoint s)) eps4) = Ok known"
    and addresses: "try_fold insert_row_address (map fst known)
       (block_row_addresses (source_blocks ps)) = Ok addresses"
    and es1: "try_fold (\<lambda>es (a, t). compile_ipv4_pair ps (global_fallback_policies ps)
           (endpoint_at known a) (Some a) a t es) [] (List.product addresses (bt_values vs)) = Ok es1"
    and es2: "try_fold (\<lambda>es t. compile_ipv4_pair ps (global_fallback_policies ps) external_endpoint
           (fallback_address (source_blocks ps) addresses) 0 t es) es1
         (filter (kubernetes_targeted ps) (bt_values vs)) = Ok es2"
    and entries: "entries = sort_key entry_key es2"
    by (auto simp: compile_ipv4_dataplane_entries_def Let_def rbind_eq_Inr endpoint_at_def
        fallback_address_def source_blocks_def kubernetes_targeted_def [abs_def])
  have k: "bt_ok known" "set known = (\<lambda>s. (ep4_address s, ep4_endpoint s)) ` set eps4"
    using insert_unique_fold [OF known bt_ok_Nil] by auto
  have a: "set addresses = ep4_address ` set eps4 \<union> (set (block_row_addresses (source_blocks ps)) - {0})"
    using insert_row_address_fold [OF addresses] k(2) by (simp add: image_image)
  have "es1 = [] @ concat (map (\<lambda>(a, t). ipv4_rows ps (endpoint_at known a) (Some a) a t)
         (List.product addresses (bt_values vs)))"
    by (rule try_fold_rows [OF es1]) (auto simp: compile_ipv4_pair_Ok)
  moreover have "es2 = es1 @ concat (map (\<lambda>t. ipv4_rows ps external_endpoint
           (fallback_address (source_blocks ps) addresses) 0 t)
         (filter (kubernetes_targeted ps) (bt_values vs)))"
    by (rule try_fold_rows [OF es2]) (auto simp: compile_ipv4_pair_Ok)
  moreover have "list_all (\<lambda>p. pol_direction p = Ingress) ps"
    using dir by (auto simp: ensure_ingress_dataplane_policies_def ensure_dataplane_policies_def
        list_all_iff find_None_iff split: option.splits)
  ultimately show thesis using that [OF vs k a] entries by simp
qed

text \<open>A policy that selects the flow and has an enforcing default always decides it.\<close>

lemma applicable_provenance:
  assumes "p \<in> set ps" "applicable d f p" "pol_default_action p \<noteq> AuditAction"
  shows "has_policy_provenance (evaluate_for_direction_with_addresses ps d f a)"
proof -
  let ?Q = "set (filter (applicable d f) ps)"
  have p: "p \<in> ?Q" using assms by simp
  have "\<exists>c. candidate ?Q f a (pol_enforcement_mode p) c"
  proof (cases "pol_origin p")
    case Native
    then show ?thesis
      using p assms(3) native_default [of p ?Q _ f a] native_rule [of p ?Q _ _ f a] by blast
  next
    case KubernetesNetworkPolicy
    then show ?thesis
      using p assms(3) compat_default [of p ?Q _ f a] compat_rule [of _ ?Q _ _ f a] by blast
  qed
  then show ?thesis unfolding provenance_iff by blast
qed

lemma outcome_of_same_rules:
  assumes "\<And>q r. q \<in> set ps \<Longrightarrow> r \<in> set (pol_rules q) \<Longrightarrow> rule_matches r f a = rule_matches r g b"
    and "\<And>q. applicable d f q = applicable d g q"
  shows "outcome_of (evaluate_for_direction_with_addresses ps d f a) =
    outcome_of (evaluate_for_direction_with_addresses ps d g b)"
  using assms by (intro outcome_of_view image_cong) (auto simp: policy_view_def)

definition source_endpoint :: "Ipv4Endpoint list \<Rightarrow> u32 \<Rightarrow> Endpoint" where
  "source_endpoint eps4 x = (case find (\<lambda>s. ep4_address s = x) eps4 of
     None \<Rightarrow> external_endpoint | Some s \<Rightarrow> ep4_endpoint s)"

lemma endpoint_at_source:
  assumes "bt_ok known" "set known = (\<lambda>s. (ep4_address s, ep4_endpoint s)) ` set eps4"
  shows "endpoint_at known x = source_endpoint eps4 x"
proof (cases "find (\<lambda>s. ep4_address s = x) eps4")
  case None
  then have "bt_get known x = None"
    using assms(2) by (auto simp: find_None_iff bt_get_eq_None)
  with None show ?thesis by (simp add: endpoint_at_def source_endpoint_def)
next
  case (Some s)
  then have "s \<in> set eps4" "ep4_address s = x" by (auto dest: find_SomeD)
  then have "bt_get known x = Some (ep4_endpoint s)"
    using assms by (auto simp: bt_get_eq_Some image_iff)
  with Some show ?thesis by (simp add: endpoint_at_def source_endpoint_def)
qed

lemma ipv4_entries_at:
  assumes "compile_ipv4_dataplane_entries ps eps eps4 = Ok entries" "dst \<in> set eps"
    and nonzero: "\<forall>s \<in> set eps4. ep4_address s \<noteq> 0" "x \<noteq> 0"
  obtains addresses where
    "set addresses = ep4_address ` set eps4 \<union> (set (block_row_addresses (source_blocks ps)) - {0})"
    "\<And>pr po. rows_map entries (Ipv4PolicyMapKey x (ep_identity dst) pr po) =
      (if x \<in> set addresses then rows_map (ipv4_rows ps (source_endpoint eps4 x) (Some x) x dst)
         (Ipv4PolicyMapKey x (ep_identity dst) pr po) else None)"
    "\<And>pr po. rows_map entries (Ipv4PolicyMapKey 0 (ep_identity dst) pr po) =
      (if kubernetes_targeted ps dst then rows_map (ipv4_rows ps external_endpoint
           (fallback_address (source_blocks ps) addresses) 0 dst)
         (Ipv4PolicyMapKey 0 (ep_identity dst) pr po) else None)"
    "list_all (\<lambda>p. pol_direction p = Ingress) ps"
proof -
  from assms(1) obtain vs known addresses where vs: "unique_endpoints eps = Ok vs"
    and known: "bt_ok known" "set known = (\<lambda>s. (ep4_address s, ep4_endpoint s)) ` set eps4"
    and a: "set addresses = ep4_address ` set eps4 \<union> (set (block_row_addresses (source_blocks ps)) - {0})"
    and entries: "entries = sort_key entry_key
      (concat (map (\<lambda>(a, t). ipv4_rows ps (endpoint_at known a) (Some a) a t)
         (List.product addresses (bt_values vs))) @
       concat (map (\<lambda>t. ipv4_rows ps external_endpoint
           (fallback_address (source_blocks ps) addresses) 0 t)
         (filter (kubernetes_targeted ps) (bt_values vs))))" (is "_ = sort_key _ (?A @ ?B)")
    and dir: "list_all (\<lambda>p. pol_direction p = Ingress) ps"
    using compile_ipv4_Ok by blast
  note v = unique_endpoints_Ok [OF vs]
  have A: "rows_map ?A (Ipv4PolicyMapKey y (ep_identity dst) pr po) =
      (if y \<in> set addresses then rows_map (ipv4_rows ps (endpoint_at known y) (Some y) y dst)
         (Ipv4PolicyMapKey y (ep_identity dst) pr po) else None)" for y pr po
  proof (cases "y \<in> set addresses")
    case True
    have "rows_map ?A (Ipv4PolicyMapKey y (ep_identity dst) pr po) =
      rows_map ((\<lambda>(a, t). ipv4_rows ps (endpoint_at known a) (Some a) a t) (y, dst))
        (Ipv4PolicyMapKey y (ep_identity dst) pr po)"
      using True assms(2) v by (intro rows_map_concat) (auto dest!: ipv4_rows_keys)
    with True show ?thesis by simp
  next
    case False
    then show ?thesis by (auto simp: rows_map_None dest!: ipv4_rows_keys)
  qed
  have B: "rows_map ?B (Ipv4PolicyMapKey x (ep_identity dst) pr po) = None" for pr po
    using nonzero(2) by (auto simp: rows_map_None dest!: ipv4_rows_keys)
  have B0: "rows_map ?B (Ipv4PolicyMapKey 0 (ep_identity dst) pr po) =
      (if kubernetes_targeted ps dst then rows_map (ipv4_rows ps external_endpoint
           (fallback_address (source_blocks ps) addresses) 0 dst)
         (Ipv4PolicyMapKey 0 (ep_identity dst) pr po) else None)" for pr po
  proof (cases "kubernetes_targeted ps dst")
    case True
    then show ?thesis
      using assms(2) v by (auto dest!: ipv4_rows_keys intro!: rows_map_concat)
  next
    case False
    have "rows_map ?B (Ipv4PolicyMapKey 0 (ep_identity dst) pr po) = None"
      using False v(1) by (auto simp: rows_map_None dest!: ipv4_rows_keys dest: v(3) [OF assms(2)])
    with False show ?thesis by simp
  qed
  have zero: "0 \<notin> set addresses" using a nonzero(1) by auto
  show thesis
    by (rule that [OF a _ _ dir])
      (unfold entries rows_map_sort rows_map_append A B B0,
        simp_all add: zero endpoint_at_source [OF known])
qed

text \<open>
  The IPv4 source map is a correct compilation.  For a known destination and any nonzero source
  address, looking up the rows of the address and then those of address zero yields what the
  evaluator decides for the flow from that address, whether the address belongs to a known
  endpoint, to an \<open>ipBlock\<close> or to none, provided the address has rows of its own or the destination
  is selected by a Kubernetes policy.
\<close>

lemma ipv4_lookup_correct:
  assumes "compile_ipv4_dataplane_entries ps eps eps4 = Ok entries" and "policies_wf ps"
    and "proper_excepts (source_blocks ps)" and "\<forall>s \<in> set eps4. ep4_address s \<noteq> 0"
    and "list_all (\<lambda>p. pol_origin p = KubernetesNetworkPolicy \<longrightarrow>
      pol_default_action p \<noteq> AuditAction) ps"
    and "dst \<in> set eps" and "named_ports_nonzero dst" and "x \<noteq> 0"
    and "kubernetes_targeted ps dst \<or> x \<in> ep4_address ` set eps4 \<union>
      set (block_row_addresses (source_blocks ps))"
  shows "or_else
      (chain_lookup (rows_map entries) (Ipv4PolicyMapKey x (ep_identity dst)) (protocol_number p) port)
      (chain_lookup (rows_map entries) (Ipv4PolicyMapKey 0 (ep_identity dst)) (protocol_number p) port) =
    decided (evaluate ps (pair_flow (source_endpoint eps4 x) dst (Some x) None p port))"
proof -
  from ipv4_entries_at [OF assms(1,6,4,8)] obtain addresses where
    a: "set addresses = ep4_address ` set eps4 \<union> (set (block_row_addresses (source_blocks ps)) - {0})"
    and at: "\<And>pr po. rows_map entries (Ipv4PolicyMapKey x (ep_identity dst) pr po) =
      (if x \<in> set addresses then rows_map (ipv4_rows ps (source_endpoint eps4 x) (Some x) x dst)
         (Ipv4PolicyMapKey x (ep_identity dst) pr po) else None)"
    and at0: "\<And>pr po. rows_map entries (Ipv4PolicyMapKey 0 (ep_identity dst) pr po) =
      (if kubernetes_targeted ps dst then rows_map (ipv4_rows ps external_endpoint
           (fallback_address (source_blocks ps) addresses) 0 dst)
         (Ipv4PolicyMapKey 0 (ep_identity dst) pr po) else None)"
    and dir: "list_all (\<lambda>p. pol_direction p = Ingress) ps" by blast
  note rows = ipv4_rows_lookup [OF assms(2,7), unfolded chain_lookup_def]
  show ?thesis
  proof (cases "x \<in> set addresses")
    case True
    have "decided (evaluate ps (pair_flow (source_endpoint eps4 x) dst (Some x) None p port)) \<noteq> None"
      if "kubernetes_targeted ps dst"
    proof -
      from that obtain q where "q \<in> set ps" "pol_origin q = KubernetesNetworkPolicy"
        "selector_matches (pol_target q) dst" by (auto simp: kubernetes_targeted_def list_ex_iff)
      then have "has_policy_provenance
          (evaluate ps (pair_flow (source_endpoint eps4 x) dst (Some x) None p port))"
        unfolding evaluate_ingress using dir assms(5)
        by (intro applicable_provenance [of q]) (auto simp: applicable_pair list_all_iff)
      then show ?thesis by (simp add: decided_def)
    qed
    then show ?thesis using True rows
      by (cases "kubernetes_targeted ps dst") (auto simp: chain_lookup_def at at0)
  next
    case False
    then have target: "kubernetes_targeted ps dst" using assms(8,9) a by auto
    have src: "source_endpoint eps4 x = external_endpoint"
      using False a by (auto simp: source_endpoint_def split: option.split dest!: find_SomeD)
    have "outcome_of (evaluate ps (pair_flow external_endpoint dst (Some x) None p port)) =
        outcome_of (evaluate ps (pair_flow external_endpoint dst
          (fallback_address (source_blocks ps) addresses) None p port))"
      unfolding evaluate_ingress
    proof (rule outcome_of_same_rules)
      fix q r
      assume "q \<in> set ps" "r \<in> set (pol_rules q)"
      then have "set (sel_ipv4_blocks (rule_source r)) \<subseteq> set (source_blocks ps)"
        by (auto simp: source_blocks_def)
      then show "rule_matches r (pair_flow external_endpoint dst (Some x) None p port) no_addresses =
          rule_matches r (pair_flow external_endpoint dst
            (fallback_address (source_blocks ps) addresses) None p port) no_addresses"
        using fallback_matches [OF _ assms(3) _ False assms(8)] a
        by (simp only: rule_matches_def matches_source_def pair_flow_fields) blast
    qed (simp add: applicable_pair)
    then show ?thesis using False target rows
      by (simp add: chain_lookup_def at at0 src decided_def provenance_outcome evaluate_ingress)
  qed
qed

section \<open>The egress map\<close>

definition egress_ipv4_rows ::
  "PolicyIr list \<Rightarrow> Endpoint \<Rightarrow> Endpoint \<Rightarrow> u32 option \<Rightarrow> u32 \<Rightarrow> EgressIpv4PolicyMapEntry list" where
  "egress_ipv4_rows ps src dst d4 address =
     (let a = \<lparr>dest_ipv4 = d4, dest_ipv6 = None\<rparr>; rules = egress_rules ps src dst a
      in kept_rows (egress_ipv4_policy_map_entry src address)
        (evaluate_for_direction_with_addresses (global_fallback_policies ps) Egress
          (pair_flow src dst None None Tcp 0) a)
        (rule_wildcard_protocols rules) (rule_exact_tuples rules dst)
        (\<lambda>p port. evaluate_for_direction_with_addresses ps Egress
          (pair_flow src dst None None p port) a))"

lemma dataplane_flow_pair: "dataplane_flow src dst p port = pair_flow src dst None None p port"
  by (simp add: dataplane_flow_def pair_flow_def)

lemma compile_egress_ipv4_pair_Ok:
  "compile_egress_ipv4_pair ps (global_fallback_policies ps) src dst d4 address es = Ok es' \<Longrightarrow>
     es' = es @ egress_ipv4_rows ps src dst d4 address"
  unfolding compile_egress_ipv4_pair_def egress_ipv4_rows_def Let_def egress_wildcard_protocols_def
    egress_exact_tuples_def dataplane_flow_pair
  by (rule lower_decisions_Ok)

lemma egress_ipv4_rows_keys:
  "e \<in> set (egress_ipv4_rows ps src dst d4 address) \<Longrightarrow>
     \<exists>pr po. entry_key e = EgressIpv4PolicyMapKey (ep_identity src) address pr po"
  by (auto simp: egress_ipv4_rows_def Let_def kept_rows_def egress_ipv4_policy_map_entry_def
      split: if_splits)

lemma egress_ipv4_rows_lookup:
  assumes "policies_wf ps" "named_ports_nonzero dst"
  shows "chain_lookup (rows_map (egress_ipv4_rows ps src dst d4 address))
      (EgressIpv4PolicyMapKey (ep_identity src) address) (protocol_number p) port =
    decided (evaluate_for_direction_with_addresses ps Egress (pair_flow src dst None None p port)
      \<lparr>dest_ipv4 = d4, dest_ipv6 = None\<rparr>)"
  unfolding chain_lookup_def decided_def egress_ipv4_rows_def Let_def
  by (rule kept_rows_lookup [OF entry_makers(3) coherent_pair [OF egress_rules_ok [OF assms]]])

definition destination_blocks :: "PolicyIr list \<Rightarrow> Ipv4Block list" where
  "destination_blocks ps =
     concat (map (sel_ipv4_blocks \<circ> rule_destination) (concat (map pol_rules ps)))"

definition targeted :: "PolicyIr list \<Rightarrow> Endpoint \<Rightarrow> bool" where
  "targeted ps ep = list_ex (\<lambda>p. selector_matches (pol_target p) ep) ps"

definition egress_source_rows ::
  "PolicyIr list \<Rightarrow> (u32, Endpoint) btree \<Rightarrow> u32 list \<Rightarrow> Endpoint \<Rightarrow> EgressIpv4PolicyMapEntry list" where
  "egress_source_rows ps known addresses src =
     concat (map (\<lambda>a. egress_ipv4_rows ps src (endpoint_at known a) (Some a) a) addresses) @
     (if targeted ps src then egress_ipv4_rows ps src external_endpoint
        (fallback_address (destination_blocks ps) addresses) 0 else [])"

lemma compile_egress_ipv4_Ok:
  assumes "compile_egress_ipv4_dataplane_entries ps eps eps4 = Ok entries"
  obtains vs known addresses where
    "unique_endpoints eps = Ok vs" "bt_ok known"
    "set known = (\<lambda>s. (ep4_address s, ep4_endpoint s)) ` set eps4"
    "set addresses = ep4_address ` set eps4 \<union>
      (set (block_row_addresses (destination_blocks ps)) - {0})"
    "entries = sort_key entry_key
      (concat (map (egress_source_rows ps known addresses) (bt_values vs)))"
    "list_all (\<lambda>p. pol_direction p = Egress) ps"
proof -
  let ?pair = "compile_egress_ipv4_pair ps (global_fallback_policies ps)"
  from assms obtain vs known addresses es where
    dir: "ensure_egress_dataplane_policies ps = Ok ()"
    and vs: "unique_endpoints eps = Ok vs"
    and known: "try_fold (insert_unique EgressIpv4MetadataConflict) []
       (map (\<lambda>s. (ep4_address s, ep4_endpoint s)) eps4) = Ok known"
    and addresses: "try_fold insert_row_address (map fst known)
       (block_row_addresses (destination_blocks ps)) = Ok addresses"
    and es: "try_fold (\<lambda>es src. rbind (try_fold (\<lambda>es a. ?pair src (endpoint_at known a) (Some a) a es)
           es addresses) (\<lambda>es. if targeted ps src then ?pair src external_endpoint
             (fallback_address (destination_blocks ps) addresses) 0 es else Ok es)) [] (bt_values vs)
         = Ok es"
    and entries: "entries = sort_key entry_key es"
    by (auto simp: compile_egress_ipv4_dataplane_entries_def Let_def res_simps
        simp flip: endpoint_at_def fallback_address_def destination_blocks_def targeted_def
        cong: if_cong)
  have k: "bt_ok known" "set known = (\<lambda>s. (ep4_address s, ep4_endpoint s)) ` set eps4"
    using insert_unique_fold [OF known bt_ok_Nil] by auto
  have a: "set addresses = ep4_address ` set eps4 \<union>
      (set (block_row_addresses (destination_blocks ps)) - {0})"
    using insert_row_address_fold [OF addresses] k(2) by (simp add: image_image)
  have "es = [] @ concat (map (egress_source_rows ps known addresses) (bt_values vs))"
  proof (rule try_fold_rows [OF es])
    fix es src es'
    assume "rbind (try_fold (\<lambda>es a. ?pair src (endpoint_at known a) (Some a) a es) es addresses)
        (\<lambda>es. if targeted ps src then ?pair src external_endpoint
             (fallback_address (destination_blocks ps) addresses) 0 es else Ok es) = Ok es'"
    then obtain mid where mid: "try_fold (\<lambda>es a. ?pair src (endpoint_at known a) (Some a) a es) es addresses = Ok mid"
      and rest: "(if targeted ps src then ?pair src external_endpoint
             (fallback_address (destination_blocks ps) addresses) 0 mid else Ok mid) = Ok es'"
      by (auto simp: rbind_eq_Inr)
    have "mid = es @ concat (map (\<lambda>a. egress_ipv4_rows ps src (endpoint_at known a) (Some a) a) addresses)"
      by (rule try_fold_rows [OF mid]) (rule compile_egress_ipv4_pair_Ok)
    then show "es' = es @ egress_source_rows ps known addresses src"
      using rest by (auto simp: egress_source_rows_def dest: compile_egress_ipv4_pair_Ok split: if_splits)
  qed
  moreover have "list_all (\<lambda>p. pol_direction p = Egress) ps"
    using dir by (auto simp: ensure_egress_dataplane_policies_def ensure_dataplane_policies_def
        list_all_iff find_None_iff split: option.splits)
  ultimately show thesis using that [OF vs k a] entries by simp
qed

lemma egress_ipv4_entries_at:
  assumes "compile_egress_ipv4_dataplane_entries ps eps eps4 = Ok entries" "src \<in> set eps"
    and nonzero: "\<forall>s \<in> set eps4. ep4_address s \<noteq> 0" "x \<noteq> 0"
  obtains addresses where
    "set addresses = ep4_address ` set eps4 \<union> (set (block_row_addresses (destination_blocks ps)) - {0})"
    "\<And>pr po. rows_map entries (EgressIpv4PolicyMapKey (ep_identity src) x pr po) =
      (if x \<in> set addresses then rows_map (egress_ipv4_rows ps src (source_endpoint eps4 x) (Some x) x)
         (EgressIpv4PolicyMapKey (ep_identity src) x pr po) else None)"
    "\<And>pr po. rows_map entries (EgressIpv4PolicyMapKey (ep_identity src) 0 pr po) =
      (if targeted ps src then rows_map (egress_ipv4_rows ps src external_endpoint
           (fallback_address (destination_blocks ps) addresses) 0)
         (EgressIpv4PolicyMapKey (ep_identity src) 0 pr po) else None)"
    "list_all (\<lambda>p. pol_direction p = Egress) ps"
proof -
  from assms(1) obtain vs known addresses where vs: "unique_endpoints eps = Ok vs"
    and known: "bt_ok known" "set known = (\<lambda>s. (ep4_address s, ep4_endpoint s)) ` set eps4"
    and a: "set addresses = ep4_address ` set eps4 \<union>
      (set (block_row_addresses (destination_blocks ps)) - {0})"
    and entries: "entries = sort_key entry_key
      (concat (map (egress_source_rows ps known addresses) (bt_values vs)))"
    and dir: "list_all (\<lambda>p. pol_direction p = Egress) ps"
    using compile_egress_ipv4_Ok by blast
  note v = unique_endpoints_Ok [OF vs]
  have pick: "rows_map entries (EgressIpv4PolicyMapKey (ep_identity src) y pr po) =
      rows_map (egress_source_rows ps known addresses src)
        (EgressIpv4PolicyMapKey (ep_identity src) y pr po)" for y pr po
    unfolding entries rows_map_sort using assms(2) v
    by (intro rows_map_concat) (auto simp: egress_source_rows_def split: if_splits dest!: egress_ipv4_rows_keys)
  have A: "rows_map (concat (map (\<lambda>a. egress_ipv4_rows ps src (endpoint_at known a) (Some a) a) addresses))
      (EgressIpv4PolicyMapKey (ep_identity src) y pr po) =
    (if y \<in> set addresses then rows_map (egress_ipv4_rows ps src (endpoint_at known y) (Some y) y)
         (EgressIpv4PolicyMapKey (ep_identity src) y pr po) else None)" for y pr po
  proof (cases "y \<in> set addresses")
    case True
    then show ?thesis by (auto intro!: rows_map_concat dest!: egress_ipv4_rows_keys)
  next
    case False
    then show ?thesis by (auto simp: rows_map_None dest!: egress_ipv4_rows_keys)
  qed
  have B: "rows_map (if b then egress_ipv4_rows ps src ep d4 0 else [])
      (EgressIpv4PolicyMapKey (ep_identity src) x pr po) = None" for b ep d4 pr po
    using nonzero(2) by (auto simp: rows_map_None dest!: egress_ipv4_rows_keys)
  have zero: "0 \<notin> set addresses" using a nonzero(1) by auto
  have nil: "rows_map ([] :: EgressIpv4PolicyMapEntry list) k = None" for k by (simp add: rows_map_None)
  show thesis
    by (rule that [OF a _ _ dir])
      (unfold pick egress_source_rows_def rows_map_append A B,
        simp_all add: zero nil endpoint_at_source [OF known])
qed

text \<open>
  The IPv4 destination map is a correct compilation.  For a known source and any nonzero
  destination address, looking up the rows of the address and then those of address zero yields what
  the evaluator decides for egress to that address, for pod addresses, \<open>ipBlock\<close> addresses and all
  others alike.
\<close>

lemma egress_ipv4_lookup_correct:
  assumes "compile_egress_ipv4_dataplane_entries ps eps eps4 = Ok entries" and "policies_wf ps"
    and "proper_excepts (destination_blocks ps)" and "\<forall>s \<in> set eps4. ep4_address s \<noteq> 0"
    and "list_all (\<lambda>p. pol_default_action p \<noteq> AuditAction) ps"
    and "src \<in> set eps" and "named_ports_nonzero (source_endpoint eps4 x)" and "x \<noteq> 0"
  shows "or_else
      (chain_lookup (rows_map entries) (EgressIpv4PolicyMapKey (ep_identity src) x) (protocol_number p) port)
      (chain_lookup (rows_map entries) (EgressIpv4PolicyMapKey (ep_identity src) 0) (protocol_number p) port) =
    decided (evaluate_for_direction_with_addresses ps Egress
      (pair_flow src (source_endpoint eps4 x) None None p port) \<lparr>dest_ipv4 = Some x, dest_ipv6 = None\<rparr>)"
proof -
  from egress_ipv4_entries_at [OF assms(1,6,4,8)] obtain addresses where
    a: "set addresses = ep4_address ` set eps4 \<union>
      (set (block_row_addresses (destination_blocks ps)) - {0})"
    and at: "\<And>pr po. rows_map entries (EgressIpv4PolicyMapKey (ep_identity src) x pr po) =
      (if x \<in> set addresses then rows_map (egress_ipv4_rows ps src (source_endpoint eps4 x) (Some x) x)
         (EgressIpv4PolicyMapKey (ep_identity src) x pr po) else None)"
    and at0: "\<And>pr po. rows_map entries (EgressIpv4PolicyMapKey (ep_identity src) 0 pr po) =
      (if targeted ps src then rows_map (egress_ipv4_rows ps src external_endpoint
           (fallback_address (destination_blocks ps) addresses) 0)
         (EgressIpv4PolicyMapKey (ep_identity src) 0 pr po) else None)"
    and dir: "list_all (\<lambda>p. pol_direction p = Egress) ps" by blast
  let ?e = "\<lambda>dst d4. evaluate_for_direction_with_addresses ps Egress
      (pair_flow src dst None None p port) \<lparr>dest_ipv4 = d4, dest_ipv6 = None\<rparr>"
  have prov: "has_policy_provenance (?e dst d4) \<longleftrightarrow> targeted ps src" for dst d4
  proof
    assume "targeted ps src"
    then show "has_policy_provenance (?e dst d4)" using dir assms(5)
      by (auto simp: targeted_def list_ex_iff list_all_iff applicable_pair intro!: applicable_provenance)
  next
    assume "has_policy_provenance (?e dst d4)"
    then show "targeted ps src"
      by (auto simp: provenance_iff targeted_def list_ex_iff applicable_pair elim!: candidate.cases)
  qed
  show ?thesis
  proof (cases "x \<in> set addresses")
    case True
    then show ?thesis using egress_ipv4_rows_lookup [OF assms(2,7), unfolded chain_lookup_def] prov
      by (cases "targeted ps src") (auto simp: chain_lookup_def at at0 decided_def)
  next
    case False
    have dst: "source_endpoint eps4 x = external_endpoint"
      using False a by (auto simp: source_endpoint_def split: option.split dest!: find_SomeD)
    have "outcome_of (?e external_endpoint (Some x)) =
        outcome_of (?e external_endpoint (fallback_address (destination_blocks ps) addresses))"
    proof (rule outcome_of_same_rules)
      fix q r
      assume "q \<in> set ps" "r \<in> set (pol_rules q)"
      then have "set (sel_ipv4_blocks (rule_destination r)) \<subseteq> set (destination_blocks ps)"
        by (auto simp: destination_blocks_def)
      then show "rule_matches r (pair_flow src external_endpoint None None p port)
            \<lparr>dest_ipv4 = Some x, dest_ipv6 = None\<rparr> =
          rule_matches r (pair_flow src external_endpoint None None p port)
            \<lparr>dest_ipv4 = fallback_address (destination_blocks ps) addresses, dest_ipv6 = None\<rparr>"
        using fallback_matches [OF _ assms(3) _ False assms(8)] a
        by (simp only: rule_matches_def matches_destination_def pair_flow_fields
            DestinationAddresses.simps) blast
    qed simp
    then show ?thesis
      using False prov egress_ipv4_rows_lookup [OF assms(2) assms(7) [unfolded dst], unfolded chain_lookup_def]
      by (simp add: chain_lookup_def at at0 dst decided_def)
  qed
qed

section \<open>Concrete address maps\<close>

definition web_policy :: "PolicyDirection \<Rightarrow> PolicyIr" where
  "web_policy d = (sample_policy KubernetesNetworkPolicy [sample_rule AllowAction 443])
     \<lparr>pol_direction := d\<rparr>"

lemma web_policy_fields [simp]:
  "pol_direction (web_policy d) = d" "pol_origin (web_policy d) = KubernetesNetworkPolicy"
  "pol_rules (web_policy d) = [sample_rule AllowAction 443]"
  "pol_default_action (web_policy d) = DenyAction" "pol_target (web_policy d) = any_selector"
  by (simp_all add: web_policy_def sample_policy_def)

lemma any_selector_matches [simp]: "selector_matches any_selector ep"
  by (simp add: selector_matches_def labels_match_def any_selector_def)

lemma sample_rule_ports:
  "rule_wildcard_protocols [sample_rule AllowAction 443] = []"
  "rule_exact_tuples [sample_rule AllowAction 443] dst = [(Tcp, 443)]"
  "rule_wildcard_protocols [] = []" "rule_exact_tuples [] dst = []"
  by (simp_all add: rule_wildcard_protocols_def rule_exact_tuples_def exact_rule_ports_def
      btree_set_def map_filter_def sample_rule_def)

lemma sample_blocks [simp]:
  "sel_ipv4_blocks (rule_source (sample_rule act port)) = []"
  "sel_ipv4_blocks (rule_destination (sample_rule act port)) = []"
  by (simp_all add: sample_rule_def any_selector_def)

lemma sample_ipv4_entries:
  "\<exists>entries. compile_ipv4_dataplane_entries [web_policy Ingress] [sample_endpoint 2] [] = Ok entries"
proof -
  have "\<exists>es. compile_ipv4_pair [web_policy Ingress] gs src s4 a dst [] = Ok es" for gs src s4 a dst
    using lower_decisions_total [of "[] :: Ipv4PolicyMapEntry list" "[]" "[(Tcp, 443)]"]
      lower_decisions_total [of "[] :: Ipv4PolicyMapEntry list" "[]" "[]"]
    by (simp add: compile_ipv4_pair_def Let_def targeted_rules_def sample_rule_ports
        POLICY_MAP_BANK_ENTRY_LIMIT_def) blast
  then obtain es where "compile_ipv4_pair [web_policy Ingress]
      (global_fallback_policies [web_policy Ingress]) external_endpoint None 0 (sample_endpoint 2) [] = Ok es"
    by blast
  then show ?thesis
    by (simp add: compile_ipv4_dataplane_entries_def ensure_ingress_dataplane_policies_def
        ensure_dataplane_policies_def unique_endpoints_def insert_unique_def bt_get_def bt_values_def
        check_ipv4_blocks_def block_row_addresses_def sample_blocks)
qed

lemma sample_egress_ipv4_entries:
  "\<exists>entries. compile_egress_ipv4_dataplane_entries [web_policy Egress] [sample_endpoint 1] [] = Ok entries"
proof -
  have "\<exists>es. compile_egress_ipv4_pair [web_policy Egress] gs src dst d4 a [] = Ok es" for gs src dst d4 a
    using lower_decisions_total [of "[] :: EgressIpv4PolicyMapEntry list" "[]" "[(Tcp, 443)]"]
      lower_decisions_total [of "[] :: EgressIpv4PolicyMapEntry list" "[]" "[]"]
    by (simp add: compile_egress_ipv4_pair_def Let_def targeted_rules_def sample_rule_ports
        egress_wildcard_protocols_def egress_exact_tuples_def egress_rules_def
        POLICY_MAP_BANK_ENTRY_LIMIT_def) blast
  then obtain es where "compile_egress_ipv4_pair [web_policy Egress]
      (global_fallback_policies [web_policy Egress]) (sample_endpoint 1) external_endpoint None 0 [] = Ok es"
    by blast
  then show ?thesis
    by (simp add: compile_egress_ipv4_dataplane_entries_def ensure_egress_dataplane_policies_def
        ensure_dataplane_policies_def unique_endpoints_def insert_unique_def bt_get_def bt_values_def
        check_ipv4_blocks_def block_row_addresses_def sample_blocks)
qed

lemma web_policy_wf: "policies_wf [web_policy d]"
  by (simp add: policies_wf_def rule_wf_def sample_rule_def)

end
