(* ===== verification/Policy_Prefixes.thy ===== *)
theory Policy_Prefixes
  imports Policy_Addresses
begin

text \<open>
  Correctness of the longest-prefix maps.  The compilers cut the address space at the boundaries
  policies mention and decide each piece at one representative address; \<open>uncovered_ipv6_address\<close> finds
  the representative by halving.  The ingress map is shown to return what the evaluator decides for
  every source address.  The egress map is shown not to: it tabulates port rows only where a rule
  matches the piece, so a more specific piece without a port row falls through to the row of the
  enclosing one.
\<close>

section \<open>Prefixes\<close>

abbreviation cidr6_bits :: "Ipv6Cidr \<Rightarrow> nat" where
  "cidr6_bits c \<equiv> 128 - unat (prefix_len6 c)"

lemma cidr6_contains_iff:
  "cidr6_contains c x \<longleftrightarrow> prefix_len6 c \<le> 128 \<and> x AND net_mask (cidr6_bits c) = network6 c"
proof -
  have "(if prefix_len6 c = 0 then 0 else push_bit (cidr6_bits c) (- 1)) =
      (net_mask (cidr6_bits c) :: u128)"
    by (auto simp: shifted_ones_net_mask net_mask_full) (simp add: net_mask_def)
  then show ?thesis by (auto simp: cidr6_contains_def Let_def not_le)
qed

lemma net_mask_and: "(net_mask m :: 'a::len word) AND net_mask n = net_mask (max m n)"
  by (rule bit_word_eqI) (auto simp: net_mask_def bit_simps)

lemma and_net_mask_coarser:
  fixes x y :: "'a::len word"
  assumes "x AND net_mask m = y AND net_mask m" "m \<le> n"
  shows "x AND net_mask n = y AND net_mask n"
proof -
  have "net_mask n = (net_mask m AND net_mask n :: 'a word)" using assms(2) by (simp add: net_mask_and)
  then show ?thesis using assms(1) by (metis and.assoc)
qed

text \<open>Containment between blocks that share an address is decided by their lengths.\<close>

lemma contains_shorter:
  assumes "cidr6_contains b x" "cidr6_contains c x" "prefix_len6 b \<le> prefix_len6 c"
    and "cidr6_contains c y"
  shows "cidr6_contains b y"
proof -
  have le: "cidr6_bits c \<le> cidr6_bits b" using assms(3) by (simp add: word_le_nat_alt diff_le_mono2)
  have eq: "x AND net_mask (cidr6_bits c) = y AND net_mask (cidr6_bits c)"
    using assms(2,4) unfolding cidr6_contains_iff by (elim conjE) (rule trans, assumption, rule sym)
  have "x AND net_mask (cidr6_bits b) = network6 b" "prefix_len6 b \<le> 128"
    using assms(1) unfolding cidr6_contains_iff by blast+
  then show ?thesis
    unfolding cidr6_contains_iff and_net_mask_coarser [OF eq le, symmetric] by (rule conjI [rotated])
qed

lemma contains_network: "cidr6_contains c x \<Longrightarrow> cidr6_contains c (network6 c)"
  unfolding cidr6_contains_iff by (metis and.assoc and.idem)

lemma canonical_iff_dvd:
  fixes net :: "'a::len word"
  shows "net AND net_mask n = net \<longleftrightarrow> 2 ^ n dvd unat net"
proof -
  have "unat net div 2 ^ n * 2 ^ n = unat net \<longleftrightarrow> 2 ^ n dvd unat net"
    by (metis dvd_div_mult_self dvd_triv_right)
  then show ?thesis by (simp only: word_unat_eq_iff unat_and_net_mask)
qed

lemma contains_cidr_shared:
  assumes "cidr6_contains b x" "cidr6_contains c x" "prefix_len6 b \<le> prefix_len6 c"
  shows "cidr6_contains_cidr b c"
  using contains_shorter [OF assms contains_network [OF assms(2)]] assms(3)
  by (simp add: cidr6_contains_cidr_def)

lemma same_length_eq:
  assumes "cidr6_contains b x" "cidr6_contains c x" "prefix_len6 b = prefix_len6 c"
  shows "b = c"
  using assms by (auto simp: cidr6_contains_iff Ipv6Cidr.expand)

section \<open>The representative of a piece\<close>

lemma uncovered_child:
  assumes c: "cidr6_contains c (network6 c)" and len: "unat (prefix_len6 c) < 128"
  defines "p \<equiv> prefix_len6 c + 1" and "step \<equiv> push_bit (128 - unat (prefix_len6 c + 1)) 1"
  shows "cidr6_contains (Ipv6Cidr (network6 c) p) (network6 c)"
    and "cidr6_contains (Ipv6Cidr (network6 c + step) p) (network6 c + step)"
    and "cidr6_contains c x \<longleftrightarrow> cidr6_contains (Ipv6Cidr (network6 c) p) x \<or>
      cidr6_contains (Ipv6Cidr (network6 c + step) p) x"
proof -
  let ?n = "cidr6_bits c" and ?net = "network6 c"
  have p: "unat p = unat (prefix_len6 c) + 1" using len by (simp add: p_def unat_word_ariths)
  have pb: "128 - unat p = ?n - 1" "p \<le> 128" using p len by (auto simp: word_le_nat_alt)
  have n: "0 < ?n" "?n \<le> 128" using len by auto
  have canon: "?net AND net_mask ?n = ?net" using c by (simp add: cidr6_contains_iff)
  have dvd: "2 ^ ?n dvd unat ?net" using canon by (simp only: canonical_iff_dvd)
  have half_dvd: "(2::nat) ^ (?n - 1) dvd 2 ^ ?n" by (simp add: le_imp_power_dvd)
  have canon1: "?net AND net_mask (?n - 1) = ?net"
    unfolding canonical_iff_dvd by (rule dvd_trans [OF half_dvd dvd])
  have step: "step = of_nat (2 ^ (?n - 1))"
    using p by (simp add: step_def p_def [symmetric] push_bit_eq_mult)
  have half: "(2::nat) ^ (?n - 1) < 2 ^ ?n" "2 ^ ?n = (2::nat) * 2 ^ (?n - 1)"
    using n by (simp_all flip: power_Suc)
  have s: "unat (?net + step) = unat ?net + 2 ^ (?n - 1)"
    unfolding step using canon n half by (intro unat_add_offset [where n = ?n]) auto
  have canon2: "(?net + step) AND net_mask (?n - 1) = ?net + step"
    unfolding canonical_iff_dvd s by (rule dvd_add [OF dvd_trans [OF half_dvd dvd] dvd_refl])
  show "cidr6_contains (Ipv6Cidr (network6 c) p) (network6 c)"
    and "cidr6_contains (Ipv6Cidr (network6 c + step) p) (network6 c + step)"
    using canon1 canon2 pb by (simp_all add: cidr6_contains_iff)
  show "cidr6_contains c x \<longleftrightarrow> cidr6_contains (Ipv6Cidr (network6 c) p) x \<or>
      cidr6_contains (Ipv6Cidr (network6 c + step) p) x"
    using pb c in_prefix_iff [OF canon, of x] in_prefix_iff [OF canon1, of x] in_prefix_iff [OF canon2, of x]
      s half by (auto simp: cidr6_contains_iff)
qed

definition covers_spec :: "Ipv6Cidr \<Rightarrow> Ipv6Cidr list \<Rightarrow> u128 option \<Rightarrow> bool" where
  "covers_spec c ex result = (case result of
     Some y \<Rightarrow> cidr6_contains c y \<and> (\<forall>e \<in> set ex. \<not> cidr6_contains e y)
   | None \<Rightarrow> (\<forall>x. cidr6_contains c x \<longrightarrow> (\<exists>e \<in> set ex. cidr6_contains e x)))"

lemma strictly_inside:
  assumes "cidr6_contains_cidr c e" "c \<noteq> e" "cidr6_contains c x" "cidr6_contains e x"
  shows "prefix_len6 c < prefix_len6 e"
  using assms same_length_eq [OF assms(3,4)] by (auto simp: cidr6_contains_cidr_def order_less_le)

text \<open>One half of a block: what the search over the half gives for the half and the whole list.\<close>

lemma uncovered_half:
  assumes child: "cidr6_contains child (network6 child)" "prefix_len6 child = prefix_len6 c + 1"
    and len: "unat (prefix_len6 c) < 128"
    and sub: "\<And>x. cidr6_contains child x \<Longrightarrow> cidr6_contains c x"
    and ex: "\<forall>e \<in> set ex. cidr6_contains_cidr c e" "c \<notin> set ex"
    and IH: "filter (cidr6_contains_cidr child) ex \<noteq> [] \<Longrightarrow>
      covers_spec child (filter (cidr6_contains_cidr child) ex) result"
    and result: "filter (cidr6_contains_cidr child) ex = [] \<Longrightarrow> result = Some (network6 child)"
  shows "covers_spec child ex result"
proof -
  have inside: "e \<in> set (filter (cidr6_contains_cidr child) ex)"
    if "e \<in> set ex" "cidr6_contains child y" "cidr6_contains e y" for e y
  proof -
    have "c \<noteq> e" using that(1) ex(2) by blast
    then have "prefix_len6 c < prefix_len6 e"
      using strictly_inside [of c e y] ex(1) that sub by blast
    then have "prefix_len6 child \<le> prefix_len6 e"
      using child(2) len by (simp add: word_less_nat_alt word_le_nat_alt unat_word_ariths)
    then show ?thesis using contains_cidr_shared [OF that(2,3)] that(1) by simp
  qed
  show ?thesis
  proof (cases "filter (cidr6_contains_cidr child) ex = []")
    case True
    then show ?thesis using result inside child(1) by (auto simp: covers_spec_def)
  next
    case False
    show ?thesis
    proof (cases result)
      case None
      then show ?thesis using IH [OF False] by (fastforce simp: covers_spec_def)
    next
      case (Some y)
      then show ?thesis using IH [OF False] inside by (auto simp: covers_spec_def)
    qed
  qed
qed

lemma uncovered_correct:
  assumes "cidr6_contains c (network6 c)" "\<forall>e \<in> set ex. cidr6_contains_cidr c e"
  shows "covers_spec c ex (uncovered_ipv6_address c ex)"
  using assms
proof (induction "cidr6_bits c" arbitrary: c ex rule: less_induct)
  case less
  note c = less.prems(1) and ex = less.prems(2)
  let ?p = "prefix_len6 c + 1"
  let ?step = "push_bit (128 - unat ?p) 1 :: u128"
  let ?attempt = "\<lambda>net. let child = Ipv6Cidr net ?p; cx = filter (cidr6_contains_cidr child) ex
    in if cx = [] then Some net else uncovered_ipv6_address child cx"
  have len: "prefix_len6 c \<le> 128" using c by (simp add: cidr6_contains_iff)
  show ?case
  proof (cases "c \<in> set ex \<or> list_all (\<lambda>e. \<not> cidr6_contains e (network6 c)) ex \<or> 128 \<le> prefix_len6 c")
    case True
    have "\<exists>e \<in> set ex. cidr6_contains e x"
      if "cidr6_contains c x" "\<not> list_all (\<lambda>e. \<not> cidr6_contains e (network6 c)) ex" "128 \<le> prefix_len6 c" for x
    proof -
      have "prefix_len6 c = 128" using that(3) len by simp
      then have "x = network6 c" using that(1) by (simp add: cidr6_contains_iff net_mask_def)
      then show ?thesis using that(2) by (auto simp: list_all_iff)
    qed
    then show ?thesis using True c
      by (subst uncovered_ipv6_address.simps) (auto simp: covers_spec_def list_all_iff)
  next
    case False
    then have l: "unat (prefix_len6 c) < 128" by (simp add: word_le_nat_alt)
    note kids = uncovered_child [OF c l]
    have half: "covers_spec (Ipv6Cidr net ?p) ex (?attempt net)"
      if "cidr6_contains (Ipv6Cidr net ?p) net" "\<And>x. cidr6_contains (Ipv6Cidr net ?p) x \<Longrightarrow> cidr6_contains c x" for net
      using that l False
      by (intro uncovered_half [where c = c and ex = ex, OF _ _ _ _ ex])
        (auto simp: Let_def unat_word_ariths intro!: less.hyps)
    have eq: "uncovered_ipv6_address c ex = or_else (?attempt (network6 c)) (?attempt (network6 c + ?step))"
      using False by (subst uncovered_ipv6_address.simps) (auto simp: Let_def or_else_def split: option.split)
    show ?thesis
      unfolding eq using half [OF kids(1)] half [OF kids(2)] kids(3)
      by (auto simp: covers_spec_def or_else_def split: option.splits)
  qed
qed

section \<open>The rows of a piece\<close>

lemma all_rows_map:
  fixes g wild exact decide
  assumes mk: "entry_maker mk K" and nonzero: "\<forall>(p, port) \<in> set exact. port \<noteq> 0"
  defines "rows \<equiv> all_rows mk g wild exact decide"
  shows "port \<noteq> 0 \<Longrightarrow> rows_map rows (K (protocol_number p) port) =
      (if (p, port) \<in> set exact \<and> has_policy_provenance (decide p port)
       then Some (outcome_of (decide p port)) else None)"
    and "rows_map rows (K (protocol_number p) 0) =
      (if p \<in> set wild \<and> has_policy_provenance (decide p 0)
       then Some (outcome_of (decide p 0)) else None)"
    and "rows_map rows (K 0 0) = (if has_policy_provenance g then Some (outcome_of g) else None)"
proof -
  note k = entry_makerD [OF mk]
  let ?h = "\<lambda>x. mk (protocol_number (fst x)) (snd x) (decide (fst x) (snd x))"
  let ?Px = "\<lambda>x. has_policy_provenance (decide (fst x) (snd x))"
  let ?Pw = "\<lambda>p. has_policy_provenance (decide p 0)"
  let ?G = "if has_policy_provenance g then [mk 0 0 g] else []"
  let ?W = "map (\<lambda>p. mk (protocol_number p) 0 (decide p 0)) (filter ?Pw wild)"
  let ?X = "map ?h (filter ?Px exact)"
  have rows: "rows = ?G @ ?W @ ?X"
    unfolding rows_def all_rows_def case_prod_unfold ..
  have W0: "rows_map ?W (K (protocol_number p) 0) =
      (if p \<in> set wild \<and> ?Pw p then Some (outcome_of (decide p 0)) else None)" for p
    using rows_map_table [where h = "\<lambda>p. mk (protocol_number p) 0 (decide p 0)" and
        key = "\<lambda>p. K (protocol_number p) 0" and P = ?Pw] by (simp add: k inj_def)
  have X: "rows_map ?X (K (protocol_number p) port) =
      (if (p, port) \<in> set exact \<and> ?Px (p, port) then Some (outcome_of (decide p port)) else None)"
    for p port
    using rows_map_table [where h = ?h and key = "\<lambda>x. K (protocol_number (fst x)) (snd x)" and P = ?Px
        and x = "(p, port)"] by (simp add: k inj_def prod_eq_iff)
  have W: "rows_map ?W (K (protocol_number p) port) = None" if "port \<noteq> 0" for p port
    using that by (intro rows_map_absent) (simp add: k)
  have Z: "rows_map ?W (K 0 0) = None" "rows_map ?X (K 0 0) = None"
    by (intro rows_map_absent, simp add: k)+
  have z: "(p, 0) \<notin> set exact" for p using nonzero by auto
  show "port \<noteq> 0 \<Longrightarrow> rows_map rows (K (protocol_number p) port) =
      (if (p, port) \<in> set exact \<and> has_policy_provenance (decide p port)
       then Some (outcome_of (decide p port)) else None)"
    unfolding rows rows_map_append rows_map_if by (simp add: W X k)
  show "rows_map rows (K (protocol_number p) 0) =
      (if p \<in> set wild \<and> has_policy_provenance (decide p 0)
       then Some (outcome_of (decide p 0)) else None)"
    unfolding rows rows_map_append rows_map_if by (simp add: W0 X k z)
  show "rows_map rows (K 0 0) = (if has_policy_provenance g then Some (outcome_of g) else None)"
    unfolding rows rows_map_append rows_map_if by (simp add: Z k)
qed

lemma all_rows_lookup:
  assumes mk: "entry_maker mk K" and c: "coherent g wild exact decide"
  shows "chain_lookup (rows_map (all_rows mk g wild exact decide)) K (protocol_number p) port =
    decided (decide p port)"
proof -
  let ?rows = "all_rows mk g wild exact decide"
  have nz: "\<forall>(p, port) \<in> set exact. port \<noteq> 0" using c by (simp add: coherent_def)
  have protocol: "or_else (rows_map ?rows (K (protocol_number p) 0)) (rows_map ?rows (K 0 0)) =
      decided (decide p 0)"
    using c all_rows_map(2,3) [OF mk nz, of g wild] unfolding decided_def coherent_def by auto
  show ?thesis
  proof (cases "port = 0")
    case True
    show ?thesis unfolding True chain_lookup_def or_else_absorb by (rule protocol)
  next
    case False
    show ?thesis
      unfolding chain_lookup_def protocol using c all_rows_map(1) [OF mk nz False, of g wild _ p]
      unfolding decided_def coherent_def by auto
  qed
qed

section \<open>Longest-prefix lookup\<close>

text \<open>The contract of a longest-prefix map: among the entries of a key group whose prefix contains
  the address, the one with the longest prefix.\<close>

definition longer_match :: "('k \<Rightarrow> Ipv6Cidr) \<Rightarrow> ('k \<Rightarrow> bool) \<Rightarrow> u128 \<Rightarrow> 'k policy_entry option \<Rightarrow>
  'k policy_entry \<Rightarrow> 'k policy_entry option" where
  "longer_match cidr_of sel x best e =
     (if sel (entry_key e) \<and> cidr6_contains (cidr_of (entry_key e)) x then
        (case best of None \<Rightarrow> Some e
         | Some b \<Rightarrow> if prefix_len6 (cidr_of (entry_key b)) < prefix_len6 (cidr_of (entry_key e))
             then Some e else best)
      else best)"

definition longest_match ::
  "('k \<Rightarrow> Ipv6Cidr) \<Rightarrow> ('k \<Rightarrow> bool) \<Rightarrow> 'k policy_entry list \<Rightarrow> u128 \<Rightarrow> outcome option" where
  "longest_match cidr_of sel rows x =
     map_option (\<lambda>e. (entry_decision e, entry_shadow e)) (foldl (longer_match cidr_of sel x) None rows)"

lemma longest_match_foldl:
  assumes "foldl (longer_match cidr_of sel x) best rows = Some e"
  shows "(best = Some e \<or> e \<in> set rows \<and> sel (entry_key e) \<and> cidr6_contains (cidr_of (entry_key e)) x) \<and>
    (\<forall>b. best = Some b \<longrightarrow> prefix_len6 (cidr_of (entry_key b)) \<le> prefix_len6 (cidr_of (entry_key e))) \<and>
    (\<forall>b \<in> set rows. sel (entry_key b) \<and> cidr6_contains (cidr_of (entry_key b)) x \<longrightarrow>
       prefix_len6 (cidr_of (entry_key b)) \<le> prefix_len6 (cidr_of (entry_key e)))"
  using assms
proof (induction rows arbitrary: best)
  case (Cons r rows)
  then have IH: "(longer_match cidr_of sel x best r = Some e \<or> e \<in> set rows \<and> sel (entry_key e) \<and>
      cidr6_contains (cidr_of (entry_key e)) x) \<and>
    (\<forall>b. longer_match cidr_of sel x best r = Some b \<longrightarrow>
      prefix_len6 (cidr_of (entry_key b)) \<le> prefix_len6 (cidr_of (entry_key e))) \<and>
    (\<forall>b \<in> set rows. sel (entry_key b) \<and> cidr6_contains (cidr_of (entry_key b)) x \<longrightarrow>
       prefix_len6 (cidr_of (entry_key b)) \<le> prefix_len6 (cidr_of (entry_key e)))"
    by simp
  then show ?case
    by (cases best) (auto simp: longer_match_def split: if_splits)
qed simp

lemma longest_match_None:
  "longest_match cidr_of sel rows x = None \<longleftrightarrow>
     (\<forall>e \<in> set rows. \<not> (sel (entry_key e) \<and> cidr6_contains (cidr_of (entry_key e)) x))"
proof -
  have "foldl (longer_match cidr_of sel x) best rows = None \<longleftrightarrow> best = None \<and>
     (\<forall>e \<in> set rows. \<not> (sel (entry_key e) \<and> cidr6_contains (cidr_of (entry_key e)) x))" for best
    by (induction rows arbitrary: best) (auto simp: longer_match_def split: option.splits)
  then show ?thesis by (simp add: longest_match_def)
qed

text \<open>If the piece that owns the address has the row, or no piece has it, the lookup is the piece's.\<close>

lemma longest_match_eq:
  assumes owner: "\<And>e. e \<in> set rows \<Longrightarrow> sel (entry_key e) \<Longrightarrow> cidr6_contains (cidr_of (entry_key e)) x \<Longrightarrow>
      cidr_of (entry_key e) = B \<and> e \<in> set piece \<and> entry_key e = k \<or>
      prefix_len6 (cidr_of (entry_key e)) < prefix_len6 B \<and> rows_map piece k \<noteq> None"
    and mine: "\<And>e. e \<in> set piece \<Longrightarrow> entry_key e = k \<Longrightarrow>
      e \<in> set rows \<and> sel k \<and> cidr_of k = B \<and> cidr6_contains B x"
    and "distinct (map entry_key piece)"
  shows "longest_match cidr_of sel rows x = rows_map piece k"
proof (cases "rows_map piece k")
  case None
  then have "longest_match cidr_of sel rows x = None"
    using owner unfolding longest_match_None rows_map_None by blast
  with None show ?thesis by simp
next
  case (Some v)
  then obtain e where e: "e \<in> set piece" "entry_key e = k" "v = (entry_decision e, entry_shadow e)"
    using rows_map_Some [OF assms(3)] by blast
  obtain f where f: "foldl (longer_match cidr_of sel x) None rows = Some f"
    using mine [OF e(1,2)] e(2) longest_match_None [of cidr_of sel rows x]
    by (auto simp: longest_match_def)
  from longest_match_foldl [OF f] have f': "f \<in> set rows" "sel (entry_key f)"
    "cidr6_contains (cidr_of (entry_key f)) x"
    and longest: "prefix_len6 B \<le> prefix_len6 (cidr_of (entry_key f))"
    using mine [OF e(1,2)] e(2) by auto
  then have "f \<in> set piece \<and> entry_key f = k" using owner [OF f'] by auto
  then have "rows_map piece k = Some (entry_decision f, entry_shadow f)"
    using rows_map_Some [OF assms(3)] by blast
  then show ?thesis using f by (simp add: longest_match_def)
qed

text \<open>A map that is the union of the pieces of several owners, cut at common boundaries: the lookup is
  in the piece of the longest boundary, provided that piece has every tuple the enclosing ones have.\<close>

lemma longest_match_pieces:
  assumes rows: "set rows = (\<Union>(ow, b) \<in> owners \<times> bounds. set (piece ow b))"
    and keys: "\<And>ow b e. ow \<in> owners \<Longrightarrow> b \<in> bounds \<Longrightarrow> e \<in> set (piece ow b) \<Longrightarrow>
      \<exists>u \<in> tuples ow b. entry_key e = key ow b u"
    and cidr: "\<And>ow b u. cidr_of (key ow b u) = b"
    and sel: "\<And>ow b u. ow \<in> owners \<Longrightarrow> sel (key ow b u) \<longleftrightarrow> ow = own \<and> u = t"
    and B: "B \<in> bounds" "cidr6_contains B x" "own \<in> owners"
    and longest: "\<And>c. c \<in> bounds \<Longrightarrow> cidr6_contains c x \<Longrightarrow> prefix_len6 c \<le> prefix_len6 B"
    and inner: "\<And>b. b \<in> bounds \<Longrightarrow> cidr6_contains b x \<Longrightarrow> piece own b \<noteq> [] \<Longrightarrow> t \<in> tuples own b \<Longrightarrow>
      key own B t \<in> entry_key ` set (piece own B)"
    and "distinct (map entry_key (piece own B))"
  shows "longest_match cidr_of sel rows x = rows_map (piece own B) (key own B t)"
proof (rule longest_match_eq [where B = B])
  fix e
  assume e: "e \<in> set rows" "sel (entry_key e)" "cidr6_contains (cidr_of (entry_key e)) x"
  then obtain ow b u where b: "b \<in> bounds" "ow \<in> owners" "e \<in> set (piece ow b)" "u \<in> tuples ow b"
    "entry_key e = key ow b u" using rows keys by fastforce
  with e sel have [simp]: "ow = own" "u = t" by auto
  have bx: "cidr6_contains b x" using e(3) b(5) by (simp add: cidr)
  show "cidr_of (entry_key e) = B \<and> e \<in> set (piece own B) \<and> entry_key e = key own B t \<or>
      prefix_len6 (cidr_of (entry_key e)) < prefix_len6 B \<and> rows_map (piece own B) (key own B t) \<noteq> None"
  proof (cases "prefix_len6 b = prefix_len6 B")
    case True
    then have "b = B" using same_length_eq [OF bx B(2)] by simp
    then show ?thesis using b by (simp add: cidr)
  next
    case False
    have "piece own b \<noteq> []" using b(3) by auto
    then have "key own B t \<in> entry_key ` set (piece own B)" using inner [OF b(1) bx] b(4) by simp
    then have "rows_map (piece own B) (key own B t) \<noteq> None" by (auto simp: rows_map_None)
    moreover have "prefix_len6 b < prefix_len6 B" using False longest [OF b(1) bx] by simp
    ultimately show ?thesis using b(5) by (simp add: cidr)
  qed
next
  fix e
  assume "e \<in> set (piece own B)" "entry_key e = key own B t"
  then show "e \<in> set rows \<and> sel (key own B t) \<and> cidr_of (key own B t) = B \<and> cidr6_contains B x"
    using B by (auto simp: rows cidr sel)
qed fact

section \<open>The ingress map\<close>

definition ipv6_rows ::
  "PolicyIr list \<Rightarrow> Endpoint \<Rightarrow> u128 \<Rightarrow> Ipv6Cidr \<Rightarrow> Endpoint \<Rightarrow> Ipv6PolicyMapEntry list" where
  "ipv6_rows ps src y c dst =
     (let rules = filter (\<lambda>r. selector_matches (rule_destination r) dst) (targeted_rules ps dst)
      in all_rows (ipv6_policy_map_entry c dst)
        (evaluate (global_fallback_policies ps) (pair_flow src dst None (Some y) Tcp 0))
        (rule_wildcard_protocols rules) (rule_exact_tuples rules dst)
        (\<lambda>p port. evaluate ps (pair_flow src dst None (Some y) p port)))"

abbreviation key6 :: "Ipv6Cidr \<Rightarrow> Endpoint \<Rightarrow> u8 \<Rightarrow> u16 \<Rightarrow> Ipv6PolicyMapKey" where
  "key6 c dst \<equiv> Ipv6PolicyMapKey (network6 c) (prefix_len6 c) (ep_identity dst)"

lemma compile_ipv6_pair_Ok:
  "compile_ipv6_pair ps (global_fallback_policies ps) src y c dst es = Ok es' \<Longrightarrow>
     es' = es @ ipv6_rows ps src y c dst"
  unfolding compile_ipv6_pair_def ipv6_rows_def Let_def pair_flow_def
  by (rule lower_prefix_decisions_Ok)

lemma ipv6_rows_coherent:
  fixes src dst y
  assumes "policies_wf ps" "named_ports_nonzero dst"
  defines "rules \<equiv> filter (\<lambda>r. selector_matches (rule_destination r) dst) (targeted_rules ps dst)"
  shows "coherent (evaluate (global_fallback_policies ps) (pair_flow src dst None (Some y) Tcp 0))
    (rule_wildcard_protocols rules) (rule_exact_tuples rules dst)
    (\<lambda>p port. evaluate ps (pair_flow src dst None (Some y) p port))"
  unfolding evaluate_ingress rules_def by (rule coherent_pair [OF ingress_rules_ok [OF assms(1,2)]])

lemma ipv6_rows_lookup:
  assumes "policies_wf ps" "named_ports_nonzero dst"
  shows "chain_lookup (rows_map (ipv6_rows ps src y c dst)) (key6 c dst) (protocol_number p) port =
    decided (evaluate ps (pair_flow src dst None (Some y) p port))"
  unfolding ipv6_rows_def Let_def
  by (rule all_rows_lookup [OF entry_makers(4) ipv6_rows_coherent [OF assms]])

lemma ipv6_rows_distinct:
  assumes "policies_wf ps" "named_ports_nonzero dst"
  shows "distinct (map entry_key (ipv6_rows ps src y c dst))"
  using ipv6_rows_coherent [OF assms, of src y] unfolding ipv6_rows_def Let_def
  by (intro all_rows_keys(1) [OF entry_makers(4)]) (simp_all add: coherent_def)

text \<open>Which rows a piece has does not depend on the piece when the policies that select the
  destination have enforcing defaults.\<close>

lemma evaluate_provenance_targeted:
  assumes "list_all (\<lambda>p. pol_direction p = Ingress \<and> pol_default_action p \<noteq> AuditAction) ps"
  shows "has_policy_provenance (evaluate ps (pair_flow src dst s4 s6 p port)) \<longleftrightarrow> targeted ps dst"
proof
  assume "targeted ps dst"
  then show "has_policy_provenance (evaluate ps (pair_flow src dst s4 s6 p port))"
    unfolding evaluate_ingress using assms
    by (auto simp: targeted_def list_ex_iff list_all_iff applicable_pair intro!: applicable_provenance)
next
  assume "has_policy_provenance (evaluate ps (pair_flow src dst s4 s6 p port))"
  then show "targeted ps dst" unfolding evaluate_ingress
    by (auto simp: provenance_iff targeted_def list_ex_iff applicable_pair elim!: candidate.cases)
qed

lemma global_policies_simps:
  "targeted (global_fallback_policies ps) dst = targeted ps dst"
  "list_all (\<lambda>p. pol_direction p = Ingress \<and> pol_default_action p \<noteq> AuditAction)
     (global_fallback_policies ps) =
   list_all (\<lambda>p. pol_direction p = Ingress \<and> pol_default_action p \<noteq> AuditAction) ps"
  by (simp_all add: targeted_def global_fallback_policies_def list.pred_map list_ex_iff list_all_iff)

definition row_keys :: "PolicyIr list \<Rightarrow> Endpoint \<Rightarrow> (u8 \<times> u16) set" where
  "row_keys ps dst = (let rules = filter (\<lambda>r. selector_matches (rule_destination r) dst) (targeted_rules ps dst)
     in if targeted ps dst then insert (0, 0) ((\<lambda>p. (protocol_number p, 0)) ` set (rule_wildcard_protocols rules) \<union>
       (\<lambda>(p, port). (protocol_number p, port)) ` set (rule_exact_tuples rules dst)) else {})"

lemma ipv6_rows_keys:
  assumes "list_all (\<lambda>p. pol_direction p = Ingress \<and> pol_default_action p \<noteq> AuditAction) ps"
  shows "entry_key ` set (ipv6_rows ps src y c dst) = (\<lambda>(pr, po). key6 c dst pr po) ` row_keys ps dst"
proof -
  have g: "has_policy_provenance (evaluate (global_fallback_policies ps) (pair_flow src dst s4 s6 p port)) =
      targeted ps dst" for src s4 s6 p port
    using evaluate_provenance_targeted [of "global_fallback_policies ps"] assms
    by (simp add: global_policies_simps)
  have k: "entry_key (ipv6_policy_map_entry c dst pr po d) = key6 c dst pr po" for pr po d
    by (simp add: ipv6_policy_map_entry_def)
  show ?thesis
    by (cases "targeted ps dst")
      (simp_all add: ipv6_rows_def Let_def all_rows_def g evaluate_provenance_targeted [OF assms]
        row_keys_def k image_Un image_image case_prod_unfold)
qed

definition known_endpoint6 :: "Ipv6Endpoint list \<Rightarrow> u128 \<Rightarrow> Endpoint" where
  "known_endpoint6 eps6 x = (case find (\<lambda>s. ep6_address s = x) eps6 of
     None \<Rightarrow> external_endpoint | Some s \<Rightarrow> ep6_endpoint s)"

lemma endpoint_at_known6:
  assumes "bt_ok known" "set known = (\<lambda>s. (ep6_address s, ep6_endpoint s)) ` set eps6"
  shows "endpoint_at known x = known_endpoint6 eps6 x"
proof (cases "find (\<lambda>s. ep6_address s = x) eps6")
  case None
  then have "bt_get known x = None"
    using assms(2) by (auto simp: find_None_iff bt_get_eq_None)
  with None show ?thesis by (simp add: endpoint_at_def known_endpoint6_def)
next
  case (Some s)
  then have "s \<in> set eps6" "ep6_address s = x" by (auto dest: find_SomeD)
  then have "bt_get known x = Some (ep6_endpoint s)"
    using assms by (auto simp: bt_get_eq_Some image_iff)
  with Some show ?thesis by (simp add: endpoint_at_def known_endpoint6_def)
qed

definition source_blocks6 :: "PolicyIr list \<Rightarrow> Ipv6Block list" where
  "source_blocks6 ps = concat (map (sel_ipv6_blocks \<circ> rule_source) (concat (map pol_rules ps)))"

definition piece_rows ::
  "PolicyIr list \<Rightarrow> (u128, Endpoint) btree \<Rightarrow> Ipv6Cidr list \<Rightarrow> Endpoint \<times> Ipv6Cidr \<Rightarrow>
   Ipv6PolicyMapEntry list" where
  "piece_rows ps known boundaries = (\<lambda>(dst, b).
     case uncovered_ipv6_address b (child_boundaries boundaries b) of None \<Rightarrow> []
     | Some y \<Rightarrow> ipv6_rows ps (endpoint_at known y) y b dst)"

lemma compile_ipv6_Ok:
  assumes "compile_ipv6_dataplane_entries ps eps eps6 = Ok entries"
  obtains vs known where
    "unique_endpoints eps = Ok vs" "bt_ok known"
    "set known = (\<lambda>s. (ep6_address s, ep6_endpoint s)) ` set eps6"
    "entries = sort_key entry_key
      (concat (map (piece_rows ps known (ipv6_boundaries (source_blocks6 ps) known))
        (List.product (bt_values vs) (ipv6_boundaries (source_blocks6 ps) known))))"
    "list_all (\<lambda>p. pol_direction p = Ingress) ps"
proof -
  let ?bs = "\<lambda>known. ipv6_boundaries (source_blocks6 ps) known"
  let ?step = "\<lambda>known es (dst, b). case uncovered_ipv6_address b (child_boundaries (?bs known) b) of
      None \<Rightarrow> Ok es
    | Some y \<Rightarrow> compile_ipv6_pair ps (global_fallback_policies ps) (endpoint_at known y) y b dst es"
  from assms obtain vs known es where
    dir: "ensure_ingress_dataplane_policies ps = Ok ()"
    and vs: "unique_endpoints eps = Ok vs"
    and known: "try_fold (insert_unique Ipv6MetadataConflict) []
       (map (\<lambda>s. (ep6_address s, ep6_endpoint s)) eps6) = Ok known"
    and es: "try_fold (?step known) [] (List.product (bt_values vs) (?bs known)) = Ok es"
    and entries: "entries = sort_key entry_key es"
    unfolding compile_ipv6_dataplane_entries_def Let_def endpoint_at_def [symmetric] source_blocks6_def [symmetric]
    by (simp add: res_simps) blast
  have k: "bt_ok known" "set known = (\<lambda>s. (ep6_address s, ep6_endpoint s)) ` set eps6"
    using insert_unique_fold [OF known bt_ok_Nil] by auto
  have "es = [] @ concat (map (piece_rows ps known (?bs known)) (List.product (bt_values vs) (?bs known)))"
    by (rule try_fold_rows [OF es])
      (auto simp: piece_rows_def dest: compile_ipv6_pair_Ok split: option.splits)
  moreover have "list_all (\<lambda>p. pol_direction p = Ingress) ps"
    using dir by (auto simp: ensure_ingress_dataplane_policies_def ensure_dataplane_policies_def
        list_all_iff find_None_iff split: option.splits)
  ultimately show thesis using that [OF vs k] entries by simp
qed

text \<open>The piece that owns an address: the longest boundary around it, with a representative that lies
  in the same boundaries.\<close>

lemma owning_boundary:
  assumes "Ipv6Cidr 0 0 \<in> set bs"
  obtains B y where "B \<in> set bs" "cidr6_contains B x"
    "\<And>c. c \<in> set bs \<Longrightarrow> cidr6_contains c x \<Longrightarrow> prefix_len6 c \<le> prefix_len6 B"
    "uncovered_ipv6_address B (child_boundaries bs B) = Some y"
    "\<And>c. c \<in> set bs \<Longrightarrow> cidr6_contains c y = cidr6_contains c x"
proof -
  let ?around = "{c \<in> set bs. cidr6_contains c x}"
  have root: "Ipv6Cidr 0 0 \<in> ?around" using assms by (simp add: cidr6_contains_iff net_mask_full)
  have "Max (prefix_len6 ` ?around) \<in> prefix_len6 ` ?around" using root by (intro Max_in) auto
  then obtain B where B: "B \<in> set bs" "cidr6_contains B x" "prefix_len6 B = Max (prefix_len6 ` ?around)"
    by auto
  have longest: "prefix_len6 c \<le> prefix_len6 B" if "c \<in> set bs" "cidr6_contains c x" for c
    unfolding B(3) using that by (intro Max_ge) auto
  have spec: "covers_spec B (child_boundaries bs B) (uncovered_ipv6_address B (child_boundaries bs B))"
    using contains_network [OF B(2)] by (rule uncovered_correct) (simp add: child_boundaries_def)
  have "uncovered_ipv6_address B (child_boundaries bs B) \<noteq> None"
  proof
    assume "uncovered_ipv6_address B (child_boundaries bs B) = None"
    then obtain e where "e \<in> set (child_boundaries bs B)" "cidr6_contains e x"
      using spec B(2) by (auto simp: covers_spec_def)
    then show False using longest [of e] by (auto simp: child_boundaries_def)
  qed
  then obtain y where y: "uncovered_ipv6_address B (child_boundaries bs B) = Some y" by blast
  then have By: "cidr6_contains B y" and free: "\<And>e. e \<in> set (child_boundaries bs B) \<Longrightarrow> \<not> cidr6_contains e y"
    using spec by (auto simp: covers_spec_def)
  have "cidr6_contains c y = cidr6_contains c x" if c: "c \<in> set bs" for c
  proof
    assume "cidr6_contains c x"
    then show "cidr6_contains c y" using contains_shorter [OF _ B(2) longest [OF c] By] by blast
  next
    assume cy: "cidr6_contains c y"
    then have "\<not> prefix_len6 B < prefix_len6 c"
      using free c contains_cidr_shared [OF By cy] by (fastforce simp: child_boundaries_def)
    then show "cidr6_contains c x" using contains_shorter [OF cy By _ B(2)] by simp
  qed
  with B y longest that show thesis by blast
qed

lemma ipv6_boundaries_set:
  "set (ipv6_boundaries blocks known) = insert (Ipv6Cidr 0 0)
     ((\<Union>b \<in> set blocks. insert (block6_cidr b) (set (block6_except b))) \<union>
      (\<lambda>(network, _). Ipv6Cidr network 128) ` set known)"
  by (simp add: ipv6_boundaries_def btree_set_def del: remdups.simps)

lemma host_contains: "cidr6_contains (Ipv6Cidr a 128) x \<longleftrightarrow> x = a"
  by (simp add: cidr6_contains_iff net_mask_def)

text \<open>Two addresses in the same boundaries belong to the same endpoint and the same blocks.\<close>

lemma same_boundaries:
  fixes x y :: u128
  assumes same: "\<And>c. c \<in> set (ipv6_boundaries blocks known) \<Longrightarrow> cidr6_contains c y = cidr6_contains c x"
  shows "endpoint_at known y = endpoint_at known x"
    and "b \<in> set blocks \<Longrightarrow> block6_contains b y = block6_contains b x"
proof -
  have "bt_get known y = bt_get known x"
  proof (cases "x = y")
    case False
    have "bt_get known z = None" if "z = x \<or> z = y" for z
    proof (rule ccontr)
      assume "bt_get known z \<noteq> None"
      then obtain ep where "(z, ep) \<in> set known" by (auto simp: bt_get_def dest: map_of_SomeD)
      then have "Ipv6Cidr z 128 \<in> set (ipv6_boundaries blocks known)"
        by (force simp: ipv6_boundaries_set)
      from same [OF this] that False show False by (auto simp: host_contains)
    qed
    then show ?thesis by simp
  qed simp
  then show "endpoint_at known y = endpoint_at known x" by (simp add: endpoint_at_def)
  assume "b \<in> set blocks"
  then have "c = block6_cidr b \<or> c \<in> set (block6_except b) \<Longrightarrow> cidr6_contains c y = cidr6_contains c x" for c
    by (intro same) (auto simp: ipv6_boundaries_set)
  then show "block6_contains b y = block6_contains b x" by (auto simp: block6_contains_def list_ex_iff)
qed

lemma matches_addressed_blocks:
  assumes "\<And>b. b \<in> set (sel_ipv6_blocks s) \<Longrightarrow> block6_contains b y = block6_contains b x"
  shows "matches_addressed s ep None (Some y) = matches_addressed s ep None (Some x)"
proof -
  have "list_ex (\<lambda>b. block6_contains b y) (sel_ipv6_blocks s) =
      list_ex (\<lambda>b. block6_contains b x) (sel_ipv6_blocks s)"
    using assms by (auto simp: list_ex_iff)
  then show ?thesis by (simp add: matches_addressed_def)
qed

definition ipv6_trie :: "Ipv6PolicyMapEntry list \<Rightarrow> u128 \<Rightarrow> u32 \<Rightarrow> u8 \<times> u16 \<Rightarrow> outcome option" where
  "ipv6_trie entries x identity tuple =
     longest_match (\<lambda>k. Ipv6Cidr (pk6_source_network k) (pk6_source_prefix_len k))
       (\<lambda>k. pk6_destination_identity k = identity \<and> (pk6_protocol k, pk6_destination_port k) = tuple)
       entries x"

lemma piece_rows_mem:
  assumes "list_all (\<lambda>p. pol_direction p = Ingress \<and> pol_default_action p \<noteq> AuditAction) ps"
    and "e \<in> set (piece_rows ps known bs (d, b))"
  obtains y pr po where "uncovered_ipv6_address b (child_boundaries bs b) = Some y"
    "e \<in> set (ipv6_rows ps (endpoint_at known y) y b d)"
    "entry_key e = key6 b d pr po" "(pr, po) \<in> row_keys ps d"
proof -
  from assms(2) obtain y where y: "uncovered_ipv6_address b (child_boundaries bs b) = Some y"
    "e \<in> set (ipv6_rows ps (endpoint_at known y) y b d)"
    by (cases "uncovered_ipv6_address b (child_boundaries bs b)") (auto simp: piece_rows_def)
  then have "entry_key e \<in> (\<lambda>(pr, po). key6 b d pr po) ` row_keys ps d"
    using ipv6_rows_keys [OF assms(1)] by blast
  with y that show thesis by auto
qed

lemma ipv6_trie_piece:
  assumes enforcing: "list_all (\<lambda>p. pol_direction p = Ingress \<and> pol_default_action p \<noteq> AuditAction) ps"
    and wf: "policies_wf ps" "named_ports_nonzero dst"
    and entries: "set entries = (\<Union>(d, b) \<in> set eps \<times> set bs. set (piece_rows ps known bs (d, b)))"
    and dst: "dst \<in> set eps"
    and unique: "\<And>d. d \<in> set eps \<Longrightarrow> ep_identity d = ep_identity dst \<Longrightarrow> d = dst"
    and B: "B \<in> set bs" "cidr6_contains B x" "uncovered_ipv6_address B (child_boundaries bs B) = Some y"
    and longest: "\<And>c. c \<in> set bs \<Longrightarrow> cidr6_contains c x \<Longrightarrow> prefix_len6 c \<le> prefix_len6 B"
  shows "ipv6_trie entries x (ep_identity dst) (pr, po) =
    rows_map (ipv6_rows ps (endpoint_at known y) y B dst) (key6 B dst pr po)"
proof -
  have piece: "piece_rows ps known bs (dst, B) = ipv6_rows ps (endpoint_at known y) y B dst"
    using B(3) by (simp add: piece_rows_def)
  have "ipv6_trie entries x (ep_identity dst) (pr, po) =
      rows_map (piece_rows ps known bs (dst, B)) ((\<lambda>(pr, po). key6 B dst pr po) (pr, po))"
    unfolding ipv6_trie_def
  proof (rule longest_match_pieces [OF entries, where tuples = "\<lambda>d b. row_keys ps d" and
        key = "\<lambda>d b (pr, po). key6 b d pr po"])
    fix d b e
    assume "e \<in> set (piece_rows ps known bs (d, b))"
    then show "\<exists>u \<in> row_keys ps d. entry_key e = (case u of (pr, po) \<Rightarrow> key6 b d pr po)"
      by (elim piece_rows_mem [OF enforcing]) (rule bexI, simp_all)
  next
    show "(pr, po) \<in> row_keys ps dst \<Longrightarrow> (case (pr, po) of (pr, po) \<Rightarrow> key6 B dst pr po) \<in>
        entry_key ` set (piece_rows ps known bs (dst, B))"
      unfolding piece ipv6_rows_keys [OF enforcing] by (rule imageI)
  qed (use unique dst B longest ipv6_rows_distinct [OF wf] piece in \<open>auto split: prod.splits\<close>)
  then show ?thesis by (simp add: piece)
qed

lemma ingress_same_boundaries:
  fixes x y :: u128
  assumes same: "\<And>c. c \<in> set (ipv6_boundaries (source_blocks6 ps) known) \<Longrightarrow>
    cidr6_contains c y = cidr6_contains c x"
  shows "outcome_of (evaluate ps (pair_flow src dst None (Some y) p port)) =
    outcome_of (evaluate ps (pair_flow src dst None (Some x) p port))"
  unfolding evaluate_ingress
proof (rule outcome_of_same_rules)
  fix q r
  assume "q \<in> set ps" "r \<in> set (pol_rules q)"
  then have "set (sel_ipv6_blocks (rule_source r)) \<subseteq> set (source_blocks6 ps)"
    by (auto simp: source_blocks6_def)
  then have "block6_contains b y = block6_contains b x" if "b \<in> set (sel_ipv6_blocks (rule_source r))" for b
    using that by (intro same_boundaries(2) [where blocks = "source_blocks6 ps" and known = known] same) auto
  then have "matches_addressed (rule_source r) ep None (Some y) =
      matches_addressed (rule_source r) ep None (Some x)" for ep
    by (rule matches_addressed_blocks)
  then show "rule_matches r (pair_flow src dst None (Some y) p port) no_addresses =
      rule_matches r (pair_flow src dst None (Some x) p port) no_addresses"
    by (simp only: rule_matches_def matches_source_def pair_flow_fields)
qed (simp add: applicable_pair)

text \<open>
  The IPv6 source map is a correct compilation.  For a known destination and any source address,
  the longest-prefix lookups by exact, protocol and global tuple yield what the evaluator decides for
  the flow from that address: the representative address a prefix is decided at stands for every
  address of the prefix outside the longer ones.
\<close>

lemma ipv6_lookup_correct:
  assumes "compile_ipv6_dataplane_entries ps eps eps6 = Ok entries" and "policies_wf ps"
    and "list_all (\<lambda>p. pol_default_action p \<noteq> AuditAction) ps"
    and "dst \<in> set eps" and "named_ports_nonzero dst"
  shows "chain_lookup (ipv6_trie entries x (ep_identity dst)) Pair (protocol_number p) port =
    decided (evaluate ps (pair_flow (known_endpoint6 eps6 x) dst None (Some x) p port))"
proof -
  from compile_ipv6_Ok [OF assms(1)] obtain vs known where
    vs: "unique_endpoints eps = Ok vs"
    and known: "bt_ok known" "set known = (\<lambda>s. (ep6_address s, ep6_endpoint s)) ` set eps6"
    and entries: "entries = sort_key entry_key
      (concat (map (piece_rows ps known (ipv6_boundaries (source_blocks6 ps) known))
        (List.product (bt_values vs) (ipv6_boundaries (source_blocks6 ps) known))))"
    and dir: "list_all (\<lambda>p. pol_direction p = Ingress) ps" by blast
  let ?bs = "ipv6_boundaries (source_blocks6 ps) known"
  have enforcing: "list_all (\<lambda>p. pol_direction p = Ingress \<and> pol_default_action p \<noteq> AuditAction) ps"
    using dir assms(3) by (simp add: list_all_iff)
  obtain B y where B: "B \<in> set ?bs" "cidr6_contains B x"
    and longest: "\<And>c. c \<in> set ?bs \<Longrightarrow> cidr6_contains c x \<Longrightarrow> prefix_len6 c \<le> prefix_len6 B"
    and y: "uncovered_ipv6_address B (child_boundaries ?bs B) = Some y"
    and same: "\<And>c. c \<in> set ?bs \<Longrightarrow> cidr6_contains c y = cidr6_contains c x"
    by (rule owning_boundary [of ?bs x]) (auto simp: ipv6_boundaries_set)
  have rows: "ipv6_trie entries x (ep_identity dst) (pr, po) =
      rows_map (ipv6_rows ps (endpoint_at known y) y B dst) (key6 B dst pr po)" for pr po
    by (rule ipv6_trie_piece [OF enforcing assms(2,5) _ assms(4) _ B y longest])
      (auto simp: entries unique_endpoints_Ok(1) [OF vs] assms(4) intro: unique_endpoints_Ok(3) [OF vs])
  have ep: "endpoint_at known y = endpoint_at known x"
    by (rule same_boundaries(1) [where blocks = "source_blocks6 ps"]) (rule same)
  have "outcome_of (evaluate ps (pair_flow (endpoint_at known x) dst None (Some y) p port)) =
      outcome_of (evaluate ps (pair_flow (endpoint_at known x) dst None (Some x) p port))"
    by (rule ingress_same_boundaries) (rule same)
  then show ?thesis
    using ipv6_rows_lookup [OF assms(2,5), of "endpoint_at known y" y B p port]
    unfolding chain_lookup_def rows ep endpoint_at_known6 [OF known, symmetric]
    by (simp add: decided_def provenance_outcome evaluate_ingress)
qed

section \<open>The egress map\<close>

definition egress_ipv6_rows ::
  "PolicyIr list \<Rightarrow> Endpoint \<Rightarrow> Endpoint \<Rightarrow> u128 \<Rightarrow> Ipv6Cidr \<Rightarrow> EgressIpv6PolicyMapEntry list" where
  "egress_ipv6_rows ps src dst y c =
     (let a = \<lparr>dest_ipv4 = None, dest_ipv6 = Some y\<rparr>; rules = egress_rules ps src dst a
      in all_rows (egress_ipv6_policy_map_entry src c)
        (evaluate_for_direction_with_addresses (global_fallback_policies ps) Egress
          (pair_flow src dst None None Tcp 0) a)
        (rule_wildcard_protocols rules) (rule_exact_tuples rules dst)
        (\<lambda>p port. evaluate_for_direction_with_addresses ps Egress
          (pair_flow src dst None None p port) a))"

abbreviation egress_key6 :: "Endpoint \<Rightarrow> Ipv6Cidr \<Rightarrow> u8 \<Rightarrow> u16 \<Rightarrow> EgressIpv6PolicyMapKey" where
  "egress_key6 src c \<equiv> EgressIpv6PolicyMapKey (ep_identity src) (network6 c) (prefix_len6 c)"

lemma compile_egress_ipv6_pair_Ok:
  "compile_egress_ipv6_pair ps (global_fallback_policies ps) src dst y c es = Ok es' \<Longrightarrow>
     es' = es @ egress_ipv6_rows ps src dst y c"
  unfolding compile_egress_ipv6_pair_def egress_ipv6_rows_def Let_def dataplane_flow_pair
    egress_wildcard_protocols_def egress_exact_tuples_def
  by (rule lower_prefix_decisions_Ok)

lemmas egress_rows_coherent = coherent_pair [OF egress_rules_ok]

lemma egress_ipv6_rows_lookup:
  assumes "policies_wf ps" "named_ports_nonzero dst"
  shows "chain_lookup (rows_map (egress_ipv6_rows ps src dst y c)) (egress_key6 src c)
      (protocol_number p) port =
    decided (evaluate_for_direction_with_addresses ps Egress (pair_flow src dst None None p port)
      \<lparr>dest_ipv4 = None, dest_ipv6 = Some y\<rparr>)"
  unfolding egress_ipv6_rows_def Let_def
  by (rule all_rows_lookup [OF entry_makers(5) egress_rows_coherent [OF assms]])

lemma egress_ipv6_rows_distinct:
  assumes "policies_wf ps" "named_ports_nonzero dst"
  shows "distinct (map entry_key (egress_ipv6_rows ps src dst y c))"
  using egress_rows_coherent [OF assms, of src "\<lparr>dest_ipv4 = None, dest_ipv6 = Some y\<rparr>"]
  unfolding egress_ipv6_rows_def Let_def
  by (intro all_rows_keys(1) [OF entry_makers(5)]) (simp_all add: coherent_def)

lemma egress_provenance_targeted:
  assumes "list_all (\<lambda>p. pol_direction p = Egress \<and> pol_default_action p \<noteq> AuditAction) ps"
  shows "has_policy_provenance (evaluate_for_direction_with_addresses ps Egress
    (pair_flow src dst s4 s6 p port) a) \<longleftrightarrow> targeted ps src"
proof
  assume "targeted ps src"
  then show "has_policy_provenance (evaluate_for_direction_with_addresses ps Egress
      (pair_flow src dst s4 s6 p port) a)"
    using assms
    by (auto simp: targeted_def list_ex_iff list_all_iff applicable_pair intro!: applicable_provenance)
next
  assume "has_policy_provenance (evaluate_for_direction_with_addresses ps Egress
      (pair_flow src dst s4 s6 p port) a)"
  then show "targeted ps src"
    by (auto simp: provenance_iff targeted_def list_ex_iff applicable_pair elim!: candidate.cases)
qed

lemma global_egress_simps:
  "list_all (\<lambda>p. pol_direction p = Egress \<and> pol_default_action p \<noteq> AuditAction)
     (global_fallback_policies ps) =
   list_all (\<lambda>p. pol_direction p = Egress \<and> pol_default_action p \<noteq> AuditAction) ps"
  by (simp add: global_fallback_policies_def list.pred_map list_all_iff)

text \<open>The tuples of a piece: those of the rules that match its representative.\<close>

definition egress_tuples :: "PolicyIr list \<Rightarrow> Endpoint \<Rightarrow> Endpoint \<Rightarrow> u128 \<Rightarrow> (u8 \<times> u16) set" where
  "egress_tuples ps src dst y =
     (let rules = egress_rules ps src dst \<lparr>dest_ipv4 = None, dest_ipv6 = Some y\<rparr>
      in if targeted ps src then insert (0, 0) ((\<lambda>p. (protocol_number p, 0)) ` set (rule_wildcard_protocols rules) \<union>
        (\<lambda>(p, port). (protocol_number p, port)) ` set (rule_exact_tuples rules dst)) else {})"

lemma egress_ipv6_rows_keys:
  assumes "list_all (\<lambda>p. pol_direction p = Egress \<and> pol_default_action p \<noteq> AuditAction) ps"
  shows "entry_key ` set (egress_ipv6_rows ps src dst y c) =
    (\<lambda>(pr, po). egress_key6 src c pr po) ` egress_tuples ps src dst y"
proof -
  note e = egress_provenance_targeted [OF assms]
  have g: "has_policy_provenance (evaluate_for_direction_with_addresses (global_fallback_policies ps) Egress
      (pair_flow src dst s4 s6 p port) a) = targeted ps src" for dst s4 s6 p port a
    using egress_provenance_targeted [of "global_fallback_policies ps"] assms
    by (simp add: global_egress_simps global_policies_simps)
  have k: "entry_key (egress_ipv6_policy_map_entry src c pr po d) = egress_key6 src c pr po" for pr po d
    by (simp add: egress_ipv6_policy_map_entry_def)
  show ?thesis
    by (cases "targeted ps src")
      (simp_all add: egress_ipv6_rows_def Let_def all_rows_def g e egress_tuples_def k image_Un image_image
        case_prod_unfold)
qed

definition destination_blocks6 :: "PolicyIr list \<Rightarrow> Ipv6Block list" where
  "destination_blocks6 ps = concat (map (sel_ipv6_blocks \<circ> rule_destination) (concat (map pol_rules ps)))"

definition egress_piece ::
  "PolicyIr list \<Rightarrow> (u128, Endpoint) btree \<Rightarrow> Ipv6Cidr list \<Rightarrow> Endpoint \<Rightarrow> Ipv6Cidr \<Rightarrow>
   EgressIpv6PolicyMapEntry list" where
  "egress_piece ps known bs src b = (if \<not> targeted ps src then [] else
     case uncovered_ipv6_address b (child_boundaries bs b) of None \<Rightarrow> []
     | Some y \<Rightarrow> egress_ipv6_rows ps src (endpoint_at known y) y b)"

lemma compile_egress_ipv6_Ok:
  assumes "compile_egress_ipv6_dataplane_entries ps eps eps6 = Ok entries"
  obtains vs known where
    "unique_endpoints eps = Ok vs" "bt_ok known"
    "set known = (\<lambda>s. (ep6_address s, ep6_endpoint s)) ` set eps6"
    "entries = sort_key entry_key (concat (map (\<lambda>src. concat (map
      (egress_piece ps known (ipv6_boundaries (destination_blocks6 ps) known) src)
      (ipv6_boundaries (destination_blocks6 ps) known))) (bt_values vs)))"
    "list_all (\<lambda>p. pol_direction p = Egress) ps"
proof -
  let ?bs = "\<lambda>known. ipv6_boundaries (destination_blocks6 ps) known"
  let ?step = "\<lambda>known src es b. case uncovered_ipv6_address b (child_boundaries (?bs known) b) of
      None \<Rightarrow> Ok es
    | Some y \<Rightarrow> compile_egress_ipv6_pair ps (global_fallback_policies ps) src (endpoint_at known y) y b es"
  from assms obtain vs known es where
    dir: "ensure_egress_dataplane_policies ps = Ok ()"
    and vs: "unique_endpoints eps = Ok vs"
    and known: "try_fold (insert_unique EgressIpv6MetadataConflict) []
       (map (\<lambda>s. (ep6_address s, ep6_endpoint s)) eps6) = Ok known"
    and es: "try_fold (\<lambda>es src. if \<not> targeted ps src then Ok es else
       try_fold (?step known src) es (?bs known)) [] (bt_values vs) = Ok es"
    and entries: "entries = sort_key entry_key es"
    unfolding compile_egress_ipv6_dataplane_entries_def Let_def endpoint_at_def [symmetric]
      destination_blocks6_def [symmetric] targeted_def [symmetric]
    by (simp add: res_simps) blast
  have k: "bt_ok known" "set known = (\<lambda>s. (ep6_address s, ep6_endpoint s)) ` set eps6"
    using insert_unique_fold [OF known bt_ok_Nil] by auto
  have "es = [] @ concat (map (\<lambda>src. concat (map (egress_piece ps known (?bs known) src) (?bs known)))
      (bt_values vs))"
  proof (rule try_fold_rows [OF es])
    fix es src es'
    assume f: "(if \<not> targeted ps src then Ok es else try_fold (?step known src) es (?bs known)) = Ok es'"
    show "es' = es @ concat (map (egress_piece ps known (?bs known) src) (?bs known))"
    proof (cases "targeted ps src")
      case True
      with f have "try_fold (?step known src) es (?bs known) = Ok es'" by simp
      then show ?thesis
        by (rule try_fold_rows)
          (auto simp: egress_piece_def True dest: compile_egress_ipv6_pair_Ok split: option.splits)
    qed (use f in \<open>simp add: egress_piece_def\<close>)
  qed
  moreover have "list_all (\<lambda>p. pol_direction p = Egress) ps"
    using dir by (auto simp: ensure_egress_dataplane_policies_def ensure_dataplane_policies_def
        list_all_iff find_None_iff split: option.splits)
  ultimately show thesis using that [OF vs k] entries by simp
qed

text \<open>A destination selector with address blocks selects by address alone and cuts nothing out of
  them.\<close>

definition plain_destinations :: "PolicyIr list \<Rightarrow> bool" where
  "plain_destinations ps = list_all (\<lambda>p. list_all (\<lambda>r.
     list_all (\<lambda>b. block6_except b = [] \<and> is_unconstrained (rule_destination r))
       (sel_ipv6_blocks (rule_destination r))) (pol_rules p)) ps"

lemma unconstrained_matches: "is_unconstrained s \<Longrightarrow> selector_matches s ep"
  by (simp add: is_unconstrained_def selector_matches_def labels_match_def)

lemma external_ports: "set (exact_rule_ports r external_endpoint) \<subseteq> set (exact_rule_ports r ep)"
  by (auto simp: exact_rule_ports_def external_endpoint_def resolve_named_port_def
      split: option.splits DestinationPort.splits)

lemma egress_tuples_mono:
  assumes plain: "plain_destinations ps"
    and blocks: "\<And>b. b \<in> set (destination_blocks6 ps) \<Longrightarrow> block6_contains b z \<Longrightarrow> block6_contains b y"
  shows "egress_tuples ps src external_endpoint z \<subseteq> egress_tuples ps src dst y"
proof -
  let ?rules = "\<lambda>dst y. egress_rules ps src dst \<lparr>dest_ipv4 = None, dest_ipv6 = Some y\<rparr>"
  have rules: "set (?rules external_endpoint z) \<subseteq> set (?rules dst y)"
  proof
    fix r
    assume r: "r \<in> set (?rules external_endpoint z)"
    then obtain q where q: "q \<in> set ps" "r \<in> set (pol_rules q)"
      by (auto simp: egress_rules_def targeted_rules_def)
    then have sub: "set (sel_ipv6_blocks (rule_destination r)) \<subseteq> set (destination_blocks6 ps)"
      by (auto simp: destination_blocks6_def)
    have m: "matches_addressed (rule_destination r) external_endpoint None (Some z)"
      using r by (simp add: egress_rules_def matches_destination_def)
    have "is_unconstrained (rule_destination r)"
    proof (cases "sel_ipv6_blocks (rule_destination r) = []")
      case True
      then show ?thesis using m by (auto simp: matches_addressed_def external_endpoint_def)
    next
      case False
      then show ?thesis using plain q unfolding plain_destinations_def list_all_iff
        by (metis last_in_set)
    qed
    then have "matches_addressed (rule_destination r) dst None (Some y)"
      using m blocks sub by (auto simp: matches_addressed_def list_ex_iff unconstrained_matches)
    then show "r \<in> set (?rules dst y)" using r by (simp add: egress_rules_def matches_destination_def)
  qed
  have "set (rule_wildcard_protocols (?rules external_endpoint z)) \<subseteq> set (rule_wildcard_protocols (?rules dst y))"
    using rules by (auto simp: rule_wildcard_protocols_def map_filter_def)
  moreover have "set (rule_exact_tuples (?rules external_endpoint z) external_endpoint) \<subseteq>
      set (rule_exact_tuples (?rules dst y) dst)"
    using rules external_ports by (fastforce simp: rule_exact_tuples_def)
  ultimately show ?thesis by (auto simp: egress_tuples_def Let_def)
qed

text \<open>An enclosing boundary's representative lies in no boundary the address is outside of.\<close>

lemma enclosing_representative:
  assumes b: "b \<in> set bs" "cidr6_contains b x"
    and z: "uncovered_ipv6_address b (child_boundaries bs b) = Some z"
    and c: "c \<in> set bs" "cidr6_contains c z"
  shows "cidr6_contains c x"
proof -
  have "covers_spec b (child_boundaries bs b) (Some z)"
    unfolding z [symmetric] using contains_network [OF b(2)]
    by (rule uncovered_correct) (simp add: child_boundaries_def)
  then have bz: "cidr6_contains b z" and free: "c \<notin> set (child_boundaries bs b)"
    using c(2) by (auto simp: covers_spec_def)
  then have "\<not> prefix_len6 b < prefix_len6 c"
    using c contains_cidr_shared [OF bz c(2)] by (auto simp: child_boundaries_def)
  then show ?thesis using contains_shorter [OF c(2) bz _ b(2)] by simp
qed

lemma host_boundary:
  "endpoint_at known z \<noteq> external_endpoint \<Longrightarrow> Ipv6Cidr z 128 \<in> set (ipv6_boundaries blocks known)"
  by (force simp: endpoint_at_def bt_get_def ipv6_boundaries_set dest: map_of_SomeD split: option.splits)

lemma plain_contains:
  assumes "plain_destinations ps" "b \<in> set (destination_blocks6 ps)"
  shows "block6_contains b y = cidr6_contains (block6_cidr b) y"
proof -
  have "block6_except b = []"
    using assms by (auto simp: plain_destinations_def destination_blocks6_def list_all_iff)
  then show ?thesis by (simp add: block6_contains_def)
qed

definition egress_ipv6_trie ::
  "EgressIpv6PolicyMapEntry list \<Rightarrow> u32 \<Rightarrow> u128 \<Rightarrow> u8 \<times> u16 \<Rightarrow> outcome option" where
  "egress_ipv6_trie entries identity x tuple =
     longest_match (\<lambda>k. Ipv6Cidr (ek6_destination_network k) (ek6_destination_prefix_len k))
       (\<lambda>k. ek6_source_identity k = identity \<and> (ek6_protocol k, ek6_destination_port k) = tuple)
       entries x"

lemma egress_trie_piece:
  fixes x y :: u128
  assumes enforcing: "list_all (\<lambda>p. pol_direction p = Egress \<and> pol_default_action p \<noteq> AuditAction) ps"
    and plain: "plain_destinations ps"
    and wf: "policies_wf ps" "named_ports_nonzero (endpoint_at known y)"
    and bs: "bs = ipv6_boundaries (destination_blocks6 ps) known"
    and entries: "set entries = (\<Union>(s, b) \<in> set eps \<times> set bs. set (egress_piece ps known bs s b))"
    and src: "src \<in> set eps"
    and unique: "\<And>d. d \<in> set eps \<Longrightarrow> ep_identity d = ep_identity src \<Longrightarrow> d = src"
    and B: "B \<in> set bs" "cidr6_contains B x" "uncovered_ipv6_address B (child_boundaries bs B) = Some y"
    and longest: "\<And>c. c \<in> set bs \<Longrightarrow> cidr6_contains c x \<Longrightarrow> prefix_len6 c \<le> prefix_len6 B"
    and same: "\<And>c. c \<in> set bs \<Longrightarrow> cidr6_contains c y = cidr6_contains c x"
    and target: "targeted ps src"
  shows "egress_ipv6_trie entries (ep_identity src) x (pr, po) =
    rows_map (egress_ipv6_rows ps src (endpoint_at known y) y B) (egress_key6 src B pr po)"
proof -
  let ?tuples = "\<lambda>s b. case uncovered_ipv6_address b (child_boundaries bs b) of None \<Rightarrow> {}
    | Some z \<Rightarrow> egress_tuples ps s (endpoint_at known z) z"
  have piece: "egress_piece ps known bs src B = egress_ipv6_rows ps src (endpoint_at known y) y B"
    using B(3) target by (simp add: egress_piece_def)
  have mono: "egress_tuples ps src (endpoint_at known z) z \<subseteq> egress_tuples ps src (endpoint_at known y) y"
    if b: "b \<in> set bs" "cidr6_contains b x" and z: "uncovered_ipv6_address b (child_boundaries bs b) = Some z" for b z
  proof (cases "endpoint_at known z = external_endpoint")
    case True
    have "block6_contains c y" if c: "c \<in> set (destination_blocks6 ps)" "block6_contains c z" for c
    proof -
      have "block6_cidr c \<in> set bs" using c(1) by (auto simp: bs ipv6_boundaries_set)
      then show ?thesis using enclosing_representative [OF b z, of "block6_cidr c"] c same
        by (simp add: plain_contains [OF plain c(1)])
    qed
    then show ?thesis unfolding True by (rule egress_tuples_mono [OF plain])
  next
    case False
    then have "Ipv6Cidr z 128 \<in> set bs" unfolding bs by (rule host_boundary)
    then have "y = z" using enclosing_representative [OF b z, of "Ipv6Cidr z 128"] same [of "Ipv6Cidr z 128"]
      by (simp add: host_contains)
    then show ?thesis by simp
  qed
  have "egress_ipv6_trie entries (ep_identity src) x (pr, po) =
      rows_map (egress_piece ps known bs src B) ((\<lambda>(pr, po). egress_key6 src B pr po) (pr, po))"
    unfolding egress_ipv6_trie_def
  proof (rule longest_match_pieces [OF entries, where tuples = ?tuples and
        key = "\<lambda>s b (pr, po). egress_key6 s b pr po"])
    fix s b e
    assume "e \<in> set (egress_piece ps known bs s b)"
    then obtain z where z: "uncovered_ipv6_address b (child_boundaries bs b) = Some z"
      "e \<in> set (egress_ipv6_rows ps s (endpoint_at known z) z b)"
      by (cases "uncovered_ipv6_address b (child_boundaries bs b)") (auto simp: egress_piece_def split: if_splits)
    then have "entry_key e \<in> (\<lambda>(pr, po). egress_key6 s b pr po) ` egress_tuples ps s (endpoint_at known z) z"
      using egress_ipv6_rows_keys [OF enforcing] by blast
    then show "\<exists>u \<in> ?tuples s b. entry_key e = (case u of (pr, po) \<Rightarrow> egress_key6 s b pr po)"
      using z(1) by (simp add: image_iff)
  next
    fix b
    assume b: "b \<in> set bs" "cidr6_contains b x" and "(pr, po) \<in> ?tuples src b"
    then have "(pr, po) \<in> egress_tuples ps src (endpoint_at known y) y"
      using mono by (auto split: option.splits)
    then show "(case (pr, po) of (pr, po) \<Rightarrow> egress_key6 src B pr po) \<in> entry_key ` set (egress_piece ps known bs src B)"
      unfolding piece egress_ipv6_rows_keys [OF enforcing] by (rule imageI)
  qed (use unique src B longest egress_ipv6_rows_distinct [OF wf] piece in \<open>auto split: prod.splits\<close>)
  then show ?thesis by (simp add: piece)
qed

lemma egress_trie_untargeted:
  assumes "set entries = (\<Union>(s, b) \<in> set eps \<times> set bs. set (egress_piece ps known bs s b))"
    and "\<And>d. d \<in> set eps \<Longrightarrow> ep_identity d = ep_identity src \<Longrightarrow> d = src" and "\<not> targeted ps src"
  shows "egress_ipv6_trie entries (ep_identity src) x u = None"
proof -
  have "set entries \<inter> {e. ek6_source_identity (entry_key e) = ep_identity src} = {}"
    using assms(2,3)
    by (fastforce simp: assms(1) egress_piece_def egress_ipv6_rows_def all_rows_def Let_def
        egress_ipv6_policy_map_entry_def split: if_splits option.splits)
  then show ?thesis by (auto simp: egress_ipv6_trie_def longest_match_None)
qed

lemma egress_same_boundaries:
  fixes x y :: u128
  assumes same: "\<And>c. c \<in> set (ipv6_boundaries (destination_blocks6 ps) known) \<Longrightarrow>
    cidr6_contains c y = cidr6_contains c x"
  shows "outcome_of (evaluate_for_direction_with_addresses ps Egress (pair_flow src dst None None p port)
      \<lparr>dest_ipv4 = None, dest_ipv6 = Some y\<rparr>) =
    outcome_of (evaluate_for_direction_with_addresses ps Egress (pair_flow src dst None None p port)
      \<lparr>dest_ipv4 = None, dest_ipv6 = Some x\<rparr>)"
proof (rule outcome_of_same_rules)
  fix q r
  assume "q \<in> set ps" "r \<in> set (pol_rules q)"
  then have "set (sel_ipv6_blocks (rule_destination r)) \<subseteq> set (destination_blocks6 ps)"
    by (auto simp: destination_blocks6_def)
  then have "block6_contains b y = block6_contains b x" if "b \<in> set (sel_ipv6_blocks (rule_destination r))" for b
    using that by (intro same_boundaries(2) [where blocks = "destination_blocks6 ps" and known = known] same) auto
  then have "matches_addressed (rule_destination r) ep None (Some y) =
      matches_addressed (rule_destination r) ep None (Some x)" for ep
    by (rule matches_addressed_blocks)
  then show "rule_matches r (pair_flow src dst None None p port) \<lparr>dest_ipv4 = None, dest_ipv6 = Some y\<rparr> =
      rule_matches r (pair_flow src dst None None p port) \<lparr>dest_ipv4 = None, dest_ipv6 = Some x\<rparr>"
    by (simp only: rule_matches_def matches_destination_def pair_flow_fields DestinationAddresses.simps)
qed simp

text \<open>
  The IPv6 destination map is a correct compilation for policies whose address blocks have no
  exceptions.  For a known source and any destination address, the longest-prefix lookups by exact,
  protocol and global tuple yield what the evaluator decides for egress to that address.
\<close>

lemma egress_ipv6_lookup_correct:
  assumes "compile_egress_ipv6_dataplane_entries ps eps eps6 = Ok entries" and "policies_wf ps"
    and "list_all (\<lambda>p. pol_default_action p \<noteq> AuditAction) ps" and "plain_destinations ps"
    and "src \<in> set eps" and "named_ports_nonzero (known_endpoint6 eps6 x)"
  shows "chain_lookup (egress_ipv6_trie entries (ep_identity src) x) Pair (protocol_number p) port =
    decided (evaluate_for_direction_with_addresses ps Egress
      (pair_flow src (known_endpoint6 eps6 x) None None p port) \<lparr>dest_ipv4 = None, dest_ipv6 = Some x\<rparr>)"
proof -
  from compile_egress_ipv6_Ok [OF assms(1)] obtain vs known where
    vs: "unique_endpoints eps = Ok vs"
    and known: "bt_ok known" "set known = (\<lambda>s. (ep6_address s, ep6_endpoint s)) ` set eps6"
    and list: "entries = sort_key entry_key (concat (map (\<lambda>src. concat (map
      (egress_piece ps known (ipv6_boundaries (destination_blocks6 ps) known) src)
      (ipv6_boundaries (destination_blocks6 ps) known))) (bt_values vs)))"
    and dir: "list_all (\<lambda>p. pol_direction p = Egress) ps" by blast
  let ?bs = "ipv6_boundaries (destination_blocks6 ps) known"
  have entries: "set entries = (\<Union>(s, b) \<in> set eps \<times> set ?bs. set (egress_piece ps known ?bs s b))"
    by (auto simp: list unique_endpoints_Ok(1) [OF vs])
  have enforcing: "list_all (\<lambda>p. pol_direction p = Egress \<and> pol_default_action p \<noteq> AuditAction) ps"
    using dir assms(3) by (simp add: list_all_iff)
  note unique = unique_endpoints_Ok(3) [OF vs _ assms(5)]
  obtain B y where B: "B \<in> set ?bs" "cidr6_contains B x"
    and longest: "\<And>c. c \<in> set ?bs \<Longrightarrow> cidr6_contains c x \<Longrightarrow> prefix_len6 c \<le> prefix_len6 B"
    and y: "uncovered_ipv6_address B (child_boundaries ?bs B) = Some y"
    and same: "\<And>c. c \<in> set ?bs \<Longrightarrow> cidr6_contains c y = cidr6_contains c x"
    by (rule owning_boundary [of ?bs x]) (auto simp: ipv6_boundaries_set)
  have ep: "endpoint_at known y = endpoint_at known x"
    by (rule same_boundaries(1) [where blocks = "destination_blocks6 ps"]) (rule same)
  note known6 = endpoint_at_known6 [OF known, symmetric]
  note nonzero = assms(6) [unfolded known6]
  show ?thesis
  proof (cases "targeted ps src")
    case False
    then show ?thesis using egress_trie_untargeted [OF entries unique False]
      by (simp add: chain_lookup_def decided_def egress_provenance_targeted [OF enforcing])
  next
    case True
    have rows: "egress_ipv6_trie entries (ep_identity src) x (pr, po) =
        rows_map (egress_ipv6_rows ps src (endpoint_at known y) y B) (egress_key6 src B pr po)" for pr po
      by (rule egress_trie_piece [OF enforcing assms(4,2) _ refl entries assms(5) unique B y longest same True])
        (simp_all add: nonzero ep)
    show ?thesis
      using egress_ipv6_rows_lookup [OF assms(2) nonzero, of src y B p port] egress_same_boundaries [OF same]
      unfolding chain_lookup_def rows ep known6
      by (simp add: decided_def provenance_outcome)
  qed
qed

text \<open>
  C34: the representative search is correct and complete.  For a canonical block and blocks inside it,
  \<open>uncovered_ipv6_address\<close> returns an address of the block outside all of them, and it returns none
  exactly when they cover the block.
\<close>

theorem uncovered_address_correct:
  assumes "cidr6_contains c (network6 c)" and "\<forall>e \<in> set excluded. cidr6_contains_cidr c e"
  shows "case uncovered_ipv6_address c excluded of
      Some y \<Rightarrow> cidr6_contains c y \<and> \<not> list_ex (\<lambda>e. cidr6_contains e y) excluded
    | None \<Rightarrow> (\<forall>x. cidr6_contains c x \<longrightarrow> list_ex (\<lambda>e. cidr6_contains e x) excluded)"
  using uncovered_correct [OF assms] by (auto simp: covers_spec_def list_ex_iff split: option.splits)

section \<open>Concrete prefix maps\<close>

lemma lower_prefix_decisions_total:
  assumes "length es + (1 + length wild + length exact) \<le> POLICY_MAP_BANK_ENTRY_LIMIT"
  shows "\<exists>es'. lower_prefix_decisions mk g wild exact decide es = Ok es' \<and>
    length es' \<le> length es + (1 + length wild + length exact)"
proof -
  obtain es1 where g: "(if has_policy_provenance g then push_dataplane_entry es (mk 0 0 g) else Ok es) = Ok es1"
    and l1: "length es1 \<le> Suc (length es)"
    using push_if_total [of es] assms by fastforce
  have "\<exists>es2. try_fold (\<lambda>es p. if has_policy_provenance (decide p 0)
      then push_dataplane_entry es (mk (protocol_number p) 0 (decide p 0)) else Ok es) es1 wild = Ok es2 \<and>
      length es2 \<le> length es1 + sum_list (map (\<lambda>_. 1) wild)"
    by (rule try_fold_total [where size_of = length and w = "\<lambda>_. 1"])
      (use l1 assms in \<open>auto simp: push_dataplane_entry_Ok sum_list_triv\<close>)
  then obtain es2 where w: "try_fold (\<lambda>es p. if has_policy_provenance (decide p 0)
      then push_dataplane_entry es (mk (protocol_number p) 0 (decide p 0)) else Ok es) es1 wild = Ok es2"
    and l2: "length es2 \<le> length es1 + length wild" by (auto simp: sum_list_triv)
  have "\<exists>es3. try_fold (\<lambda>es (p, port). if has_policy_provenance (decide p port)
      then push_dataplane_entry es (mk (protocol_number p) port (decide p port)) else Ok es) es2 exact = Ok es3 \<and>
      length es3 \<le> length es2 + sum_list (map (\<lambda>_. 1) exact)"
    by (rule try_fold_total [where size_of = length and w = "\<lambda>_. 1"])
      (use l1 l2 assms in \<open>auto simp: push_dataplane_entry_Ok sum_list_triv split: prod.splits\<close>)
  with g w l1 l2 show ?thesis
    by (auto simp: lower_prefix_decisions_def Let_def sum_list_triv)
qed

definition excepting_block :: Ipv6Block where
  "excepting_block = \<lparr>block6_cidr = Ipv6Cidr 0x20010DB8000000000000000000000000 126,
     block6_except = [Ipv6Cidr 0x20010DB8000000000000000000000002 128]\<rparr>"

definition excepting_rule :: PolicyRule where
  "excepting_rule = (sample_rule AllowAction 443)
     \<lparr>rule_destination := any_selector\<lparr>sel_ipv6_blocks := [excepting_block]\<rparr>\<rparr>"

definition excepting_policy :: PolicyIr where
  "excepting_policy = (web_policy Egress)\<lparr>pol_rules := [excepting_rule]\<rparr>"

lemma excepting_simps [simp]:
  "pol_rules excepting_policy = [excepting_rule]" "pol_target excepting_policy = any_selector"
  "pol_direction excepting_policy = Egress" "rule_protocol excepting_rule = Some Tcp"
  "rule_destination_port excepting_rule = Number 443"
  "sel_ipv6_blocks (rule_destination excepting_rule) = [excepting_block]"
  by (simp_all add: excepting_policy_def excepting_rule_def sample_rule_def)

lemma ex_mono_length:
  "\<exists>es'. f = Ok es' \<and> length es' \<le> m \<Longrightarrow> m \<le> n \<Longrightarrow> \<exists>es'. f = Ok es' \<and> length es' \<le> n"
  by auto

text \<open>One rule with one port gives every piece at most two rows.\<close>

lemma single_port_rows:
  assumes "rule_protocol r = Some Tcp" "rule_destination_port r = Number 443"
  shows "rule_wildcard_protocols (filter P [r]) = []" "length (rule_exact_tuples (filter P [r]) dst) \<le> 1"
  using assms by (simp_all add: rule_wildcard_protocols_def rule_exact_tuples_def exact_rule_ports_def
      btree_set_def map_filter_def)

lemma single_port_pairs:
  assumes r: "rule_protocol r = Some Tcp" "rule_destination_port r = Number 443"
    and q: "pol_rules q = [r]" "pol_target q = any_selector"
  shows "length es + 2 \<le> POLICY_MAP_BANK_ENTRY_LIMIT \<Longrightarrow>
      \<exists>es'. compile_egress_ipv6_pair [q] gs src dst y c es = Ok es' \<and> length es' \<le> length es + 2"
    and "length es6 + 2 \<le> POLICY_MAP_BANK_ENTRY_LIMIT \<Longrightarrow>
      \<exists>es'. compile_ipv6_pair [q] gs src y c dst es6 = Ok es' \<and> length es' \<le> length es6 + 2"
proof -
  have rules: "targeted_rules [q] ep = [r]" for ep using q by (simp add: targeted_rules_def)
  note n = single_port_rows [OF r]
  have size: "k + (1 + length [] + length (rule_exact_tuples (filter P [r]) ep)) \<le> k + 2" for k P ep
    using n(2) [of P ep] by (simp del: filter.simps)
  show "\<exists>es'. compile_egress_ipv6_pair [q] gs src dst y c es = Ok es' \<and> length es' \<le> length es + 2"
    if "length es + 2 \<le> POLICY_MAP_BANK_ENTRY_LIMIT"
    unfolding compile_egress_ipv6_pair_def Let_def egress_wildcard_protocols_def egress_exact_tuples_def
      egress_rules_def rules n(1)
    by (rule ex_mono_length [OF lower_prefix_decisions_total size]) (rule order_trans [OF size that])
  show "\<exists>es'. compile_ipv6_pair [q] gs src y c dst es6 = Ok es' \<and> length es' \<le> length es6 + 2"
    if "length es6 + 2 \<le> POLICY_MAP_BANK_ENTRY_LIMIT"
    unfolding compile_ipv6_pair_def Let_def rules n(1)
    by (rule ex_mono_length [OF lower_prefix_decisions_total size]) (rule order_trans [OF size that])
qed

lemma single_port_egress_entries:
  assumes r: "rule_protocol r = Some Tcp" "rule_destination_port r = Number 443"
    and q: "pol_rules q = [r]" "pol_target q = any_selector" "pol_direction q = Egress"
    and small: "length (ipv6_boundaries (sel_ipv6_blocks (rule_destination r)) []) \<le> 3"
  shows "\<exists>entries. compile_egress_ipv6_dataplane_entries [q] [ep] [] = Ok entries"
proof -
  let ?bs = "ipv6_boundaries (sel_ipv6_blocks (rule_destination r)) []"
  have "\<exists>es'. try_fold (\<lambda>es b. case uncovered_ipv6_address b (child_boundaries ?bs b) of None \<Rightarrow> Ok es
      | Some y \<Rightarrow> compile_egress_ipv6_pair [q] (global_fallback_policies [q]) ep
        (case bt_get [] y of None \<Rightarrow> external_endpoint | Some ep \<Rightarrow> ep) y b es)
      [] ?bs = Ok es' \<and> length es' \<le> length ([] :: EgressIpv6PolicyMapEntry list) + sum_list (map (\<lambda>_. 2) ?bs)"
    by (rule try_fold_total [where size_of = length and w = "\<lambda>_. 2"])
      (use single_port_pairs(1) [OF r q(1,2)] small in
        \<open>auto simp: sum_list_triv comp_def POLICY_MAP_BANK_ENTRY_LIMIT_def split: option.split\<close>)
  then show ?thesis using small
    by (auto simp: compile_egress_ipv6_dataplane_entries_def ensure_egress_dataplane_policies_def
        ensure_dataplane_policies_def unique_endpoints_def insert_unique_def bt_get_def bt_values_def q Let_def
        POLICY_MAP_BANK_ENTRY_LIMIT_def)
qed

lemma single_port_ingress_entries:
  assumes r: "rule_protocol r = Some Tcp" "rule_destination_port r = Number 443"
    and q: "pol_rules q = [r]" "pol_target q = any_selector" "pol_direction q = Ingress"
    and small: "length (ipv6_boundaries (sel_ipv6_blocks (rule_source r)) []) \<le> 3"
  shows "\<exists>entries. compile_ipv6_dataplane_entries [q] [ep] [] = Ok entries"
proof -
  let ?bs = "ipv6_boundaries (sel_ipv6_blocks (rule_source r)) []"
  have "\<exists>es'. try_fold (\<lambda>es (dst, b). case uncovered_ipv6_address b (child_boundaries ?bs b) of None \<Rightarrow> Ok es
      | Some y \<Rightarrow> compile_ipv6_pair [q] (global_fallback_policies [q])
        (case bt_get [] y of None \<Rightarrow> external_endpoint | Some ep \<Rightarrow> ep) y b dst es)
      [] (List.product [ep] ?bs) = Ok es' \<and>
      length es' \<le> length ([] :: Ipv6PolicyMapEntry list) + sum_list (map (\<lambda>_. 2) (List.product [ep] ?bs))"
    by (rule try_fold_total [where size_of = length and w = "\<lambda>_. 2"])
      (use single_port_pairs(2) [OF r q(1,2)] small in
        \<open>auto simp: sum_list_triv comp_def POLICY_MAP_BANK_ENTRY_LIMIT_def split: option.split\<close>)
  then show ?thesis using small
    by (auto simp: compile_ipv6_dataplane_entries_def ensure_ingress_dataplane_policies_def
        ensure_dataplane_policies_def unique_endpoints_def insert_unique_def bt_get_def bt_values_def q Let_def
        POLICY_MAP_BANK_ENTRY_LIMIT_def)
qed

lemma web_rule_simps [simp]:
  "rule_protocol (sample_rule act port) = Some Tcp" "rule_destination_port (sample_rule act port) = Number port"
  "sel_ipv6_blocks (rule_source (sample_rule act port)) = []"
  "sel_ipv6_blocks (rule_destination (sample_rule act port)) = []"
  by (simp_all add: sample_rule_def any_selector_def)

lemma no_blocks_boundaries: "length (ipv6_boundaries [] []) \<le> 3"
  by (simp add: ipv6_boundaries_def btree_set_def)

theorem uncovered_address_correct_witness:
  "uncovered_ipv6_address (Ipv6Cidr 0x20010DB8000000000000000000000000 126)
     [Ipv6Cidr 0x20010DB8000000000000000000000000 127] = Some 0x20010DB8000000000000000000000002 \<and>
   cidr6_contains (Ipv6Cidr 0x20010DB8000000000000000000000000 126) 0x20010DB8000000000000000000000002 \<and>
   \<not> cidr6_contains (Ipv6Cidr 0x20010DB8000000000000000000000000 127) 0x20010DB8000000000000000000000002"
proof -
  have found: "uncovered_ipv6_address (Ipv6Cidr 0x20010DB8000000000000000000000000 126)
      [Ipv6Cidr 0x20010DB8000000000000000000000000 127] = Some 0x20010DB8000000000000000000000002"
    by code_simp
  have "cidr6_contains (Ipv6Cidr 0x20010DB8000000000000000000000000 126) 0x20010DB8000000000000000000000000"
    "cidr6_contains_cidr (Ipv6Cidr 0x20010DB8000000000000000000000000 126)
      (Ipv6Cidr 0x20010DB8000000000000000000000000 127)" by code_simp+
  then show ?thesis
    using uncovered_address_correct [of "Ipv6Cidr 0x20010DB8000000000000000000000000 126"
      "[Ipv6Cidr 0x20010DB8000000000000000000000000 127]"] found by simp
qed

text \<open>The rows of the policy that allows port 443 of a /126 block except one address.\<close>

definition excepting_entries :: "EgressIpv6PolicyMapEntry list" where
  "excepting_entries = sort_key entry_key (concat (map
     (egress_piece [excepting_policy] [] (ipv6_boundaries (destination_blocks6 [excepting_policy]) [])
       (sample_endpoint 1)) (ipv6_boundaries (destination_blocks6 [excepting_policy]) [])))"

lemma excepting_compiles:
  "compile_egress_ipv6_dataplane_entries [excepting_policy] [sample_endpoint 1] [] = Ok excepting_entries"
proof -
  have "length (ipv6_boundaries (sel_ipv6_blocks (rule_destination excepting_rule)) []) \<le> 3" by code_simp
  then obtain entries where entries:
    "compile_egress_ipv6_dataplane_entries [excepting_policy] [sample_endpoint 1] [] = Ok entries"
    using single_port_egress_entries [of excepting_rule excepting_policy] by auto
  from compile_egress_ipv6_Ok [OF this] obtain vs known where
    "unique_endpoints [sample_endpoint 1] = Ok vs" "set known = {}"
    "entries = sort_key entry_key (concat (map (\<lambda>src. concat (map
      (egress_piece [excepting_policy] known (ipv6_boundaries (destination_blocks6 [excepting_policy]) known) src)
      (ipv6_boundaries (destination_blocks6 [excepting_policy]) known))) (bt_values vs)))"
    by auto
  then have "entries = excepting_entries"
    by (auto simp: excepting_entries_def unique_endpoints_def insert_unique_def bt_get_def bt_values_def)
  with entries show ?thesis by simp
qed

text \<open>
  C35: an exception inside an allowed IPv6 block is not enforced on egress.  The policy allows port 443
  of a block except one address; for that address the evaluator denies, but its prefix has only a
  global row, so the lookup of the port finds the row of the enclosing block and allows.
\<close>

theorem egress_ipv6_exception_allowed:
  "compile_egress_ipv6_dataplane_entries [excepting_policy] [sample_endpoint 1] [] = Ok excepting_entries \<and>
   map_option (rec_verdict \<circ> fst) (chain_lookup
     (egress_ipv6_trie excepting_entries 1 0x20010DB8000000000000000000000002) Pair 6 443) = Some AllowVerdict \<and>
   dec_verdict (evaluate_for_direction_with_addresses [excepting_policy] Egress
     (pair_flow (sample_endpoint 1) external_endpoint None None Tcp 443)
     \<lparr>dest_ipv4 = None, dest_ipv6 = Some 0x20010DB8000000000000000000000002\<rparr>) = DenyVerdict"
proof (intro conjI excepting_compiles)
  show "map_option (rec_verdict \<circ> fst) (chain_lookup
     (egress_ipv6_trie excepting_entries 1 0x20010DB8000000000000000000000002) Pair 6 443) = Some AllowVerdict"
    by code_simp
  show "dec_verdict (evaluate_for_direction_with_addresses [excepting_policy] Egress
     (pair_flow (sample_endpoint 1) external_endpoint None None Tcp 443)
     \<lparr>dest_ipv4 = None, dest_ipv6 = Some 0x20010DB8000000000000000000000002\<rparr>) = DenyVerdict"
    by code_simp
qed

end
