(* ===== verification/Policy_Encoding.thy ===== *)
theory Policy_Encoding
  imports Policy_Prefixes
begin

text \<open>
  The fixed layouts in which the agent (\<^verbatim>\<open>bins/unf-agent/src/main.rs\<close>) hands compiled policy entries to
  the kernel maps: map keys of 12 bytes and longest-prefix keys of 24 bytes, values of 32 bytes and
  the configuration of 24 bytes, with the checks on the way in and the checks on recovery of pinned
  maps.  Arrays are byte lists in offset order; native byte order is little endian, that of the
  \<^verbatim>\<open>bpfel\<close> target.  The layouts are shown to lose nothing, and the checks to agree: what the agent
  writes is what it accepts back.
\<close>

section \<open>Byte order\<close>

definition le_bytes :: "nat \<Rightarrow> 'a::len word \<Rightarrow> u8 list" where
  "le_bytes n w = map (\<lambda>i. ucast (drop_bit (8 * i) w)) [0..<n]"

definition be_bytes :: "nat \<Rightarrow> 'a::len word \<Rightarrow> u8 list" where
  "be_bytes n w = rev (le_bytes n w)"

fun of_le_bytes :: "u8 list \<Rightarrow> 'a::len word" where
  "of_le_bytes [] = 0"
| "of_le_bytes (b # bs) = ucast b OR push_bit 8 (of_le_bytes bs)"

lemma length_bytes [simp]: "length (le_bytes n w) = n" "length (be_bytes n w) = n"
  by (simp_all add: le_bytes_def be_bytes_def)

lemma le_bytes_Suc: "le_bytes (Suc n) w = ucast w # le_bytes n (drop_bit 8 w)"
proof -
  have "[0..<Suc n] = 0 # map Suc [0..<n]" by (simp add: upt_conv_Cons map_Suc_upt del: upt_Suc)
  then show ?thesis by (simp add: le_bytes_def comp_def add.commute del: upt_Suc)
qed

lemma of_le_bytes_le_bytes_take:
  fixes w :: "'a::len word"
  shows "(of_le_bytes (le_bytes n w) :: 'a word) = take_bit (8 * n) w"
proof (induction n arbitrary: w)
  case 0
  then show ?case by (simp add: le_bytes_def)
next
  case (Suc n)
  show ?case unfolding le_bytes_Suc of_le_bytes.simps Suc
  proof (rule bit_word_eqI)
    fix k
    assume k: "k < LENGTH('a)"
    show "bit (ucast (ucast w :: u8) OR push_bit 8 (take_bit (8 * n) (drop_bit 8 w)) :: 'a word) k =
        bit (take_bit (8 * Suc n) w) k"
      using k
      by (simp add: bit_or_iff bit_push_bit_iff bit_unsigned_iff bit_take_bit_iff bit_drop_bit_eq)
        (cases "k < 8"; auto)
  qed
qed

lemma of_le_bytes_le_bytes:
  fixes w :: "'a::len word"
  assumes "LENGTH('a) \<le> 8 * n"
  shows "(of_le_bytes (le_bytes n w) :: 'a word) = w"
  unfolding of_le_bytes_le_bytes_take using assms by (rule take_bit_word_eq_self)

lemma bytes_inject:
  fixes v w :: "'a::len word"
  assumes "LENGTH('a) \<le> 8 * n"
  shows "le_bytes n v = le_bytes n w \<longleftrightarrow> v = w" "be_bytes n v = be_bytes n w \<longleftrightarrow> v = w"
proof -
  show le: "le_bytes n v = le_bytes n w \<longleftrightarrow> v = w"
    using of_le_bytes_le_bytes [OF assms, of v] of_le_bytes_le_bytes [OF assms, of w] by metis
  show "be_bytes n v = be_bytes n w \<longleftrightarrow> v = w" by (simp add: be_bytes_def le)
qed

section \<open>Keys\<close>

definition POLICY_MAP_ABI_VERSION :: u16 where
  "POLICY_MAP_ABI_VERSION = 3"

definition POLICY_BANK_COUNT :: u8 where
  "POLICY_BANK_COUNT = 2"

definition POLICY_FLAG_HAS_POLICY :: u16 where
  "POLICY_FLAG_HAS_POLICY = push_bit 0 1"

definition POLICY_FLAG_HAS_RULE :: u16 where
  "POLICY_FLAG_HAS_RULE = push_bit 1 1"

definition POLICY_FLAG_HAS_SHADOW :: u16 where
  "POLICY_FLAG_HAS_SHADOW = push_bit 2 1"

definition POLICY_FLAG_SHADOW_HAS_POLICY :: u16 where
  "POLICY_FLAG_SHADOW_HAS_POLICY = push_bit 3 1"

definition POLICY_FLAG_SHADOW_HAS_RULE :: u16 where
  "POLICY_FLAG_SHADOW_HAS_RULE = push_bit 4 1"

lemmas policy_flag_defs = POLICY_FLAG_HAS_POLICY_def POLICY_FLAG_HAS_RULE_def
  POLICY_FLAG_HAS_SHADOW_def POLICY_FLAG_SHADOW_HAS_POLICY_def POLICY_FLAG_SHADOW_HAS_RULE_def

type_synonym bytes = "u8 list"

type_synonym lpm_key = "u32 \<times> bytes"

definition encode_policy_key :: "PolicyMapEntry \<Rightarrow> u8 \<Rightarrow> bytes" where
  "encode_policy_key entry bank =
     le_bytes 4 (pk_source_identity (entry_key entry)) @
     le_bytes 4 (pk_destination_identity (entry_key entry)) @
     be_bytes 2 (pk_destination_port (entry_key entry)) @ [pk_protocol (entry_key entry), bank]"

definition encode_ipv4_policy_key :: "Ipv4PolicyMapEntry \<Rightarrow> u8 \<Rightarrow> bytes" where
  "encode_ipv4_policy_key entry bank =
     be_bytes 4 (pk4_source_address (entry_key entry)) @
     le_bytes 4 (pk4_destination_identity (entry_key entry)) @
     be_bytes 2 (pk4_destination_port (entry_key entry)) @ [pk4_protocol (entry_key entry), bank]"

definition encode_ipv6_policy_key :: "Ipv6PolicyMapEntry \<Rightarrow> u8 \<Rightarrow> lpm_key" where
  "encode_ipv6_policy_key entry bank =
     (64 + ucast (pk6_source_prefix_len (entry_key entry)),
      le_bytes 4 (pk6_destination_identity (entry_key entry)) @
      be_bytes 2 (pk6_destination_port (entry_key entry)) @ [pk6_protocol (entry_key entry), bank] @
      be_bytes 16 (pk6_source_network (entry_key entry)))"

definition encode_egress_ipv4_policy_key :: "EgressIpv4PolicyMapEntry \<Rightarrow> u8 \<Rightarrow> bytes" where
  "encode_egress_ipv4_policy_key entry bank =
     be_bytes 4 (ek4_destination_address (entry_key entry)) @
     le_bytes 4 (ek4_source_identity (entry_key entry)) @
     be_bytes 2 (ek4_destination_port (entry_key entry)) @ [ek4_protocol (entry_key entry), bank]"

definition encode_egress_ipv6_policy_key :: "EgressIpv6PolicyMapEntry \<Rightarrow> u8 \<Rightarrow> lpm_key" where
  "encode_egress_ipv6_policy_key entry bank =
     (64 + ucast (ek6_destination_prefix_len (entry_key entry)),
      le_bytes 4 (ek6_source_identity (entry_key entry)) @
      be_bytes 2 (ek6_destination_port (entry_key entry)) @ [ek6_protocol (entry_key entry), bank] @
      be_bytes 16 (ek6_destination_network (entry_key entry)))"

section \<open>Values\<close>

fun verdict_number :: "Verdict \<Rightarrow> u8" where
  "verdict_number UnknownVerdict = 0"
| "verdict_number AllowVerdict = 1"
| "verdict_number DenyVerdict = 2"
| "verdict_number AuditVerdict = 3"

fun reason_number :: "PolicyReason \<Rightarrow> u8" where
  "reason_number NoApplicablePolicy = 0"
| "reason_number ExplicitRule = 1"
| "reason_number DefaultAction = 2"

definition id_bytes :: "u32 option \<Rightarrow> bytes" where
  "id_bytes v = (case v of None \<Rightarrow> [0, 0, 0, 0] | Some n \<Rightarrow> le_bytes 4 n)"

definition flag_if :: "'a option \<Rightarrow> u16 \<Rightarrow> u16" where
  "flag_if v flag = (case v of None \<Rightarrow> 0 | Some _ \<Rightarrow> flag)"

definition encode_policy_decisions ::
  "PolicyDecisionRecord \<Rightarrow> PolicyDecisionRecord option \<Rightarrow> u64 \<Rightarrow> bytes" where
  "encode_policy_decisions decision shadow revision =
     (let flags = flag_if (rec_policy_id decision) POLICY_FLAG_HAS_POLICY OR
          flag_if (rec_rule_id decision) POLICY_FLAG_HAS_RULE;
        (shadow_ids, shadow_flags, shadow_result) = (case shadow of
           None \<Rightarrow> (id_bytes None @ id_bytes None, 0, [0, 0])
         | Some shadow \<Rightarrow> (id_bytes (rec_policy_id shadow) @ id_bytes (rec_rule_id shadow),
             POLICY_FLAG_HAS_SHADOW OR flag_if (rec_policy_id shadow) POLICY_FLAG_SHADOW_HAS_POLICY OR
               flag_if (rec_rule_id shadow) POLICY_FLAG_SHADOW_HAS_RULE,
             [verdict_number (rec_verdict shadow), reason_number (rec_reason shadow)]))
      in id_bytes (rec_policy_id decision) @ id_bytes (rec_rule_id decision) @ shadow_ids @
         le_bytes 8 revision @ le_bytes 2 POLICY_MAP_ABI_VERSION @ le_bytes 2 (flags OR shadow_flags) @
         [verdict_number (rec_verdict decision), reason_number (rec_reason decision)] @ shadow_result)"

definition encode_policy_value :: "PolicyMapEntry \<Rightarrow> u64 \<Rightarrow> bytes" where
  "encode_policy_value entry revision =
     encode_policy_decisions (entry_decision entry) (entry_shadow entry) revision"

section \<open>Checks on the way in\<close>

datatype PolicySyncError =
    InvalidBank u8
  | BankCapacity nat
  | ReservedIdentity
  | InvalidTransport
  | InvalidPrefixLength
  | NonCanonicalNetwork
  | InvalidVerdict
  | ReservedPolicyId
  | InvalidProvenance
  | DuplicateKey
  | EntryCountOverflow
  | IncompatibleValue
  | IncompatibleConfig

definition validate_policy_bank_capacity :: "nat \<Rightarrow> (PolicySyncError, unit) res" where
  "validate_policy_bank_capacity entry_count =
     (if entry_count > POLICY_MAP_BANK_ENTRY_LIMIT then Err (BankCapacity entry_count) else Ok ())"

definition validate_policy_transport :: "u8 \<Rightarrow> u16 \<Rightarrow> (PolicySyncError, unit) res" where
  "validate_policy_transport protocol destination_port =
     (if protocol = 0 \<and> destination_port = 0 \<or> protocol \<in> {6, 17, 132} then Ok ()
      else Err InvalidTransport)"

definition platform_node_exception ::
  "PolicyDecisionRecord \<Rightarrow> PolicyDecisionRecord option \<Rightarrow> bool" where
  "platform_node_exception decision shadow \<longleftrightarrow>
     rec_verdict decision = AllowVerdict \<and> rec_reason decision = NoApplicablePolicy \<and>
     rec_policy_id decision = None \<and> rec_rule_id decision = None \<and> shadow = None"

definition validate_policy_decision :: "PolicyDecisionRecord \<Rightarrow> (PolicySyncError, unit) res" where
  "validate_policy_decision decision =
     (if rec_verdict decision \<notin> {AllowVerdict, DenyVerdict} then Err InvalidVerdict else
      if rec_policy_id decision = Some 0 then Err ReservedPolicyId else
      case rec_reason decision of
        NoApplicablePolicy \<Rightarrow>
          if rec_policy_id decision \<noteq> None \<or> rec_rule_id decision \<noteq> None
          then Err InvalidProvenance else Ok ()
      | ExplicitRule \<Rightarrow>
          if rec_policy_id decision = None \<or> rec_rule_id decision = None
          then Err InvalidProvenance else Ok ()
      | DefaultAction \<Rightarrow>
          if rec_policy_id decision = None \<or> rec_rule_id decision \<noteq> None
          then Err InvalidProvenance else Ok ())"

text \<open>The checks of the decision and the shadow decision every kind of entry ends with.\<close>

definition validate_entry_decisions :: "'k policy_entry \<Rightarrow> (PolicySyncError, unit) res" where
  "validate_entry_decisions entry =
     rbind (validate_policy_decision (entry_decision entry)) (\<lambda>_.
     case entry_shadow entry of None \<Rightarrow> Ok () | Some shadow \<Rightarrow> validate_policy_decision shadow)"

definition validate_policy_entry :: "PolicyMapEntry \<Rightarrow> (PolicySyncError, unit) res" where
  "validate_policy_entry entry =
     (if pk_source_identity (entry_key entry) = 0 \<or> pk_destination_identity (entry_key entry) = 0
      then Err ReservedIdentity else
      rbind (validate_policy_transport (pk_protocol (entry_key entry))
        (pk_destination_port (entry_key entry))) (\<lambda>_. validate_entry_decisions entry))"

definition validate_ipv4_policy_entry :: "Ipv4PolicyMapEntry \<Rightarrow> (PolicySyncError, unit) res" where
  "validate_ipv4_policy_entry entry =
     (if pk4_destination_identity (entry_key entry) = 0 \<and>
         \<not> (pk4_source_address (entry_key entry) \<noteq> 0 \<and> pk4_protocol (entry_key entry) = 0 \<and>
            pk4_destination_port (entry_key entry) = 0 \<and>
            platform_node_exception (entry_decision entry) (entry_shadow entry))
      then Err ReservedIdentity else
      rbind (validate_policy_transport (pk4_protocol (entry_key entry))
        (pk4_destination_port (entry_key entry))) (\<lambda>_. validate_entry_decisions entry))"

definition prefix_mask :: "u8 \<Rightarrow> u128" where
  "prefix_mask prefix_len = (if prefix_len = 0 then 0 else push_bit (128 - unat prefix_len) (- 1))"

definition validate_ipv6_policy_entry :: "Ipv6PolicyMapEntry \<Rightarrow> (PolicySyncError, unit) res" where
  "validate_ipv6_policy_entry entry =
     (if pk6_destination_identity (entry_key entry) = 0 \<and>
         \<not> (pk6_source_network (entry_key entry) \<noteq> 0 \<and> pk6_source_prefix_len (entry_key entry) = 128 \<and>
            pk6_protocol (entry_key entry) = 0 \<and> pk6_destination_port (entry_key entry) = 0 \<and>
            platform_node_exception (entry_decision entry) (entry_shadow entry))
      then Err ReservedIdentity else
      if pk6_source_prefix_len (entry_key entry) > 128 then Err InvalidPrefixLength else
      if pk6_source_network (entry_key entry) AND prefix_mask (pk6_source_prefix_len (entry_key entry)) \<noteq>
         pk6_source_network (entry_key entry)
      then Err NonCanonicalNetwork else
      rbind (validate_policy_transport (pk6_protocol (entry_key entry))
        (pk6_destination_port (entry_key entry))) (\<lambda>_. validate_entry_decisions entry))"

definition validate_egress_ipv4_policy_entry ::
  "EgressIpv4PolicyMapEntry \<Rightarrow> (PolicySyncError, unit) res" where
  "validate_egress_ipv4_policy_entry entry =
     (if ek4_source_identity (entry_key entry) = 0 \<and>
         \<not> (ek4_destination_address (entry_key entry) \<noteq> 0 \<and> ek4_protocol (entry_key entry) = 0 \<and>
            ek4_destination_port (entry_key entry) = 0 \<and>
            platform_node_exception (entry_decision entry) (entry_shadow entry))
      then Err ReservedIdentity else
      rbind (validate_policy_transport (ek4_protocol (entry_key entry))
        (ek4_destination_port (entry_key entry))) (\<lambda>_. validate_entry_decisions entry))"

definition validate_egress_ipv6_policy_entry ::
  "EgressIpv6PolicyMapEntry \<Rightarrow> (PolicySyncError, unit) res" where
  "validate_egress_ipv6_policy_entry entry =
     (if ek6_source_identity (entry_key entry) = 0 \<and>
         \<not> (ek6_destination_network (entry_key entry) \<noteq> 0 \<and>
            ek6_destination_prefix_len (entry_key entry) = 128 \<and>
            ek6_protocol (entry_key entry) = 0 \<and> ek6_destination_port (entry_key entry) = 0 \<and>
            platform_node_exception (entry_decision entry) (entry_shadow entry))
      then Err ReservedIdentity else
      if ek6_destination_prefix_len (entry_key entry) > 128 then Err InvalidPrefixLength else
      if ek6_destination_network (entry_key entry) AND
           prefix_mask (ek6_destination_prefix_len (entry_key entry)) \<noteq>
         ek6_destination_network (entry_key entry)
      then Err NonCanonicalNetwork else
      rbind (validate_policy_transport (ek6_protocol (entry_key entry))
        (ek6_destination_port (entry_key entry))) (\<lambda>_. validate_entry_decisions entry))"

section \<open>The entries of a bank\<close>

definition insert_desired ::
  "('k policy_entry \<Rightarrow> (PolicySyncError, unit) res) \<Rightarrow> ('k policy_entry \<Rightarrow> 'b::linorder) \<Rightarrow> u64 \<Rightarrow>
   ('b, bytes) btree \<Rightarrow> 'k policy_entry \<Rightarrow> (PolicySyncError, ('b, bytes) btree) res" where
  "insert_desired validate encode_key revision desired entry =
     rbind (validate entry) (\<lambda>_.
     let key = encode_key entry;
         value = encode_policy_decisions (entry_decision entry) (entry_shadow entry) revision
     in if bt_get desired key \<noteq> None then Err DuplicateKey else Ok (bt_insert key value desired))"

definition desired_entries ::
  "('k policy_entry \<Rightarrow> (PolicySyncError, unit) res) \<Rightarrow> ('k policy_entry \<Rightarrow> u8 \<Rightarrow> 'b::linorder) \<Rightarrow>
   'k policy_entry list \<Rightarrow> u64 \<Rightarrow> u8 \<Rightarrow> (PolicySyncError, ('b, bytes) btree) res" where
  "desired_entries validate encode_key entries revision bank =
     (if bank \<ge> POLICY_BANK_COUNT then Err (InvalidBank bank) else
      rbind (validate_policy_bank_capacity (length entries)) (\<lambda>_.
      try_fold (insert_desired validate (\<lambda>entry. encode_key entry bank) revision) [] entries))"

definition desired_policy_entries ::
  "PolicyMapEntry list \<Rightarrow> u64 \<Rightarrow> u8 \<Rightarrow> (PolicySyncError, (bytes, bytes) btree) res" where
  "desired_policy_entries = desired_entries validate_policy_entry encode_policy_key"

definition desired_ipv4_policy_entries ::
  "Ipv4PolicyMapEntry list \<Rightarrow> u64 \<Rightarrow> u8 \<Rightarrow> (PolicySyncError, (bytes, bytes) btree) res" where
  "desired_ipv4_policy_entries = desired_entries validate_ipv4_policy_entry encode_ipv4_policy_key"

definition desired_ipv6_policy_entries ::
  "Ipv6PolicyMapEntry list \<Rightarrow> u64 \<Rightarrow> u8 \<Rightarrow> (PolicySyncError, (lpm_key, bytes) btree) res" where
  "desired_ipv6_policy_entries = desired_entries validate_ipv6_policy_entry encode_ipv6_policy_key"

definition desired_egress_ipv4_policy_entries ::
  "EgressIpv4PolicyMapEntry list \<Rightarrow> u64 \<Rightarrow> u8 \<Rightarrow> (PolicySyncError, (bytes, bytes) btree) res" where
  "desired_egress_ipv4_policy_entries =
     desired_entries validate_egress_ipv4_policy_entry encode_egress_ipv4_policy_key"

definition desired_egress_ipv6_policy_entries ::
  "EgressIpv6PolicyMapEntry list \<Rightarrow> u64 \<Rightarrow> u8 \<Rightarrow> (PolicySyncError, (lpm_key, bytes) btree) res" where
  "desired_egress_ipv6_policy_entries =
     desired_entries validate_egress_ipv6_policy_entry encode_egress_ipv6_policy_key"

section \<open>Configuration\<close>

definition encode_map_config ::
  "u64 \<Rightarrow> u64 \<Rightarrow> nat \<Rightarrow> u16 \<Rightarrow> u8 \<Rightarrow> u8 \<Rightarrow> (PolicySyncError, bytes) res" where
  "encode_map_config source_epoch revision entry_count schema_version active_bank bank_count =
     (if active_bank \<ge> bank_count then Err (InvalidBank active_bank) else
      if entry_count \<ge> 2 ^ 32 then Err EntryCountOverflow else
      Ok (le_bytes 8 source_epoch @ le_bytes 8 revision @ le_bytes 4 (of_nat entry_count :: u32) @
        le_bytes 2 schema_version @ [active_bank, 0]))"

definition encode_policy_config :: "u64 \<Rightarrow> u64 \<Rightarrow> nat \<Rightarrow> u8 \<Rightarrow> (PolicySyncError, bytes) res" where
  "encode_policy_config source_epoch revision entry_count active_bank =
     encode_map_config source_epoch revision entry_count POLICY_MAP_ABI_VERSION active_bank
       POLICY_BANK_COUNT"

text \<open>A field of \<open>n\<close> bytes at an offset of an array.\<close>

definition field :: "bytes \<Rightarrow> nat \<Rightarrow> nat \<Rightarrow> 'a::len word" where
  "field bs offset n = of_le_bytes (take n (drop offset bs))"

definition decode_recovered_config ::
  "bytes \<Rightarrow> u16 \<Rightarrow> u8 \<Rightarrow> (PolicySyncError, (u64 \<times> u64 \<times> u32 \<times> u8) option) res" where
  "decode_recovered_config config expected_schema bank_count =
     (if config = replicate 24 0 then Ok None else
      let epoch = field config 0 8; revision = field config 8 8; count = field config 16 4;
          schema = field config 20 2; bank = config ! 22
      in if epoch = 0 \<or> revision = 0 \<or> schema \<noteq> expected_schema \<or> bank \<ge> bank_count \<or> config ! 23 \<noteq> 0
         then Err IncompatibleConfig else Ok (Some (epoch, revision, count, bank)))"

definition decode_recovered_policy_config ::
  "bytes \<Rightarrow> (PolicySyncError, (u64 \<times> u64 \<times> u32 \<times> u8) option) res" where
  "decode_recovered_policy_config config =
     decode_recovered_config config POLICY_MAP_ABI_VERSION POLICY_BANK_COUNT"

section \<open>Checks on recovery\<close>

definition policy_bank :: "u8 \<Rightarrow> (PolicySyncError, nat) res" where
  "policy_bank bank = (if bank \<ge> POLICY_BANK_COUNT then Err (InvalidBank bank) else Ok (unat bank))"

definition recovered_verdict_reason_is_valid :: "u8 \<Rightarrow> u8 \<Rightarrow> bool" where
  "recovered_verdict_reason_is_valid verdict reason \<longleftrightarrow>
     verdict = 1 \<and> reason \<le> 2 \<or> verdict = 2 \<and> reason \<in> {1, 2}"

definition recovered_provenance_is_valid :: "u16 \<Rightarrow> u8 \<Rightarrow> bool \<Rightarrow> bool" where
  "recovered_provenance_is_valid flags reason shadow =
     (let (policy_flag, rule_flag) = (if shadow
            then (POLICY_FLAG_SHADOW_HAS_POLICY, POLICY_FLAG_SHADOW_HAS_RULE)
            else (POLICY_FLAG_HAS_POLICY, POLICY_FLAG_HAS_RULE));
          has_policy = flags AND policy_flag \<noteq> 0;
          has_rule = flags AND rule_flag \<noteq> 0
      in if reason = reason_number NoApplicablePolicy then \<not> has_policy \<and> \<not> has_rule
         else if reason = reason_number ExplicitRule then has_policy \<and> has_rule
         else if reason = reason_number DefaultAction then has_policy \<and> \<not> has_rule
         else False)"

definition validate_recovered_policy_value :: "bytes \<Rightarrow> (PolicySyncError, unit) res" where
  "validate_recovered_policy_value value =
     (let revision = field value 16 8 :: u64;
          schema = field value 24 2 :: u16;
          flags = field value 26 2 :: u16;
          known_flags = POLICY_FLAG_HAS_POLICY OR POLICY_FLAG_HAS_RULE OR POLICY_FLAG_HAS_SHADOW OR
            POLICY_FLAG_SHADOW_HAS_POLICY OR POLICY_FLAG_SHADOW_HAS_RULE;
          actual_valid = recovered_verdict_reason_is_valid (value ! 28) (value ! 29) \<and>
            recovered_provenance_is_valid flags (value ! 29) False;
          shadow_valid = (if flags AND POLICY_FLAG_HAS_SHADOW \<noteq> 0
            then recovered_verdict_reason_is_valid (value ! 30) (value ! 31) \<and>
              recovered_provenance_is_valid flags (value ! 31) True
            else flags AND (POLICY_FLAG_SHADOW_HAS_POLICY OR POLICY_FLAG_SHADOW_HAS_RULE) = 0 \<and>
              take 8 (drop 8 value) = replicate 8 0 \<and> take 2 (drop 30 value) = replicate 2 0)
      in if revision = 0 \<or> schema \<noteq> POLICY_MAP_ABI_VERSION \<or> flags AND NOT known_flags \<noteq> 0 \<or>
            \<not> actual_valid \<or> \<not> shadow_valid
         then Err IncompatibleValue else Ok ())"

section \<open>The layout loses nothing\<close>

text \<open>The fields of an encoded value.\<close>

lemma length_id_bytes [simp]: "length (id_bytes v) = 4"
  by (simp add: id_bytes_def split: option.split)

definition decision_flags :: "PolicyDecisionRecord \<Rightarrow> PolicyDecisionRecord option \<Rightarrow> u16" where
  "decision_flags decision shadow =
     flag_if (rec_policy_id decision) POLICY_FLAG_HAS_POLICY OR
     flag_if (rec_rule_id decision) POLICY_FLAG_HAS_RULE OR
     (case shadow of None \<Rightarrow> 0 | Some s \<Rightarrow>
        POLICY_FLAG_HAS_SHADOW OR flag_if (rec_policy_id s) POLICY_FLAG_SHADOW_HAS_POLICY OR
        flag_if (rec_rule_id s) POLICY_FLAG_SHADOW_HAS_RULE)"

definition shadow_id :: "(PolicyDecisionRecord \<Rightarrow> u32 option) \<Rightarrow> PolicyDecisionRecord option \<Rightarrow> u32 option" where
  "shadow_id get shadow = (case shadow of None \<Rightarrow> None | Some s \<Rightarrow> get s)"

definition shadow_byte :: "(PolicyDecisionRecord \<Rightarrow> u8) \<Rightarrow> PolicyDecisionRecord option \<Rightarrow> u8" where
  "shadow_byte get shadow = (case shadow of None \<Rightarrow> 0 | Some s \<Rightarrow> get s)"

lemma encode_policy_decisions_layout:
  "encode_policy_decisions d shadow revision =
     id_bytes (rec_policy_id d) @ id_bytes (rec_rule_id d) @ id_bytes (shadow_id rec_policy_id shadow) @
     id_bytes (shadow_id rec_rule_id shadow) @ le_bytes 8 revision @ le_bytes 2 POLICY_MAP_ABI_VERSION @
     le_bytes 2 (decision_flags d shadow) @
     [verdict_number (rec_verdict d), reason_number (rec_reason d),
      shadow_byte (verdict_number \<circ> rec_verdict) shadow, shadow_byte (reason_number \<circ> rec_reason) shadow]"
  by (cases shadow)
    (simp_all add: encode_policy_decisions_def decision_flags_def shadow_id_def shadow_byte_def ac_simps)

lemma encoded_fields:
  fixes d shadow revision
  defines "v \<equiv> encode_policy_decisions d shadow revision"
  shows "length v = 32"
    and "field v 16 8 = revision" "field v 24 2 = POLICY_MAP_ABI_VERSION"
    and "field v 26 2 = decision_flags d shadow"
    and "take 4 v = id_bytes (rec_policy_id d)" "take 4 (drop 4 v) = id_bytes (rec_rule_id d)"
    and "take 4 (drop 8 v) = id_bytes (shadow_id rec_policy_id shadow)"
    and "take 4 (drop 12 v) = id_bytes (shadow_id rec_rule_id shadow)"
    and "v ! 28 = verdict_number (rec_verdict d)" "v ! 29 = reason_number (rec_reason d)"
    and "v ! 30 = shadow_byte (verdict_number \<circ> rec_verdict) shadow"
    and "v ! 31 = shadow_byte (reason_number \<circ> rec_reason) shadow"
  by (simp_all add: v_def encode_policy_decisions_layout field_def of_le_bytes_le_bytes nth_append)

lemma decision_flags_tests:
  "decision_flags d s AND POLICY_FLAG_HAS_POLICY = 0 \<longleftrightarrow> rec_policy_id d = None"
  "decision_flags d s AND POLICY_FLAG_HAS_RULE = 0 \<longleftrightarrow> rec_rule_id d = None"
  "decision_flags d s AND POLICY_FLAG_HAS_SHADOW = 0 \<longleftrightarrow> s = None"
  "decision_flags d s AND POLICY_FLAG_SHADOW_HAS_POLICY = 0 \<longleftrightarrow> shadow_id rec_policy_id s = None"
  "decision_flags d s AND POLICY_FLAG_SHADOW_HAS_RULE = 0 \<longleftrightarrow> shadow_id rec_rule_id s = None"
  "decision_flags d s AND NOT (POLICY_FLAG_HAS_POLICY OR POLICY_FLAG_HAS_RULE OR POLICY_FLAG_HAS_SHADOW OR
     POLICY_FLAG_SHADOW_HAS_POLICY OR POLICY_FLAG_SHADOW_HAS_RULE) = 0"
  by (simp_all add: decision_flags_def policy_flag_defs flag_if_def shadow_id_def split: option.split)

text \<open>The records both checks and the dataplane accept: an absent policy never denies.\<close>

definition record_ok :: "PolicyDecisionRecord \<Rightarrow> bool" where
  "record_ok r \<longleftrightarrow> validate_policy_decision r = Ok () \<and>
     (rec_reason r = NoApplicablePolicy \<longrightarrow> rec_verdict r = AllowVerdict)"

lemma validate_decision_Ok:
  "validate_policy_decision r = Ok () \<longleftrightarrow>
     rec_verdict r \<in> {AllowVerdict, DenyVerdict} \<and> rec_policy_id r \<noteq> Some 0 \<and>
     (rec_policy_id r = None \<longleftrightarrow> rec_reason r = NoApplicablePolicy) \<and>
     (rec_rule_id r = None \<longleftrightarrow> rec_reason r \<noteq> ExplicitRule)"
  by (auto simp: validate_policy_decision_def split: PolicyReason.split)

lemma recovered_verdict_reason:
  assumes "validate_policy_decision r = Ok ()"
  shows "recovered_verdict_reason_is_valid (verdict_number (rec_verdict r)) (reason_number (rec_reason r)) \<longleftrightarrow>
    record_ok r"
  using assms
  by (cases "rec_verdict r"; cases "rec_reason r")
    (simp_all add: recovered_verdict_reason_is_valid_def record_ok_def validate_decision_Ok)

lemma recovered_provenance:
  "validate_policy_decision d = Ok () \<Longrightarrow>
     recovered_provenance_is_valid (decision_flags d s) (reason_number (rec_reason d)) False"
  "validate_policy_decision r = Ok () \<Longrightarrow>
     recovered_provenance_is_valid (decision_flags d (Some r)) (reason_number (rec_reason r)) True"
  by (cases "rec_reason d"; cases "rec_reason r";
      simp add: recovered_provenance_is_valid_def validate_decision_Ok decision_flags_tests shadow_id_def)+

text \<open>
  What the agent writes it accepts back after a restart.  For decisions that passed its checks, a
  value with a nonzero revision survives recovery exactly when neither decision is a denial without a
  policy.
\<close>

lemma recovery_accepts_encoded:
  assumes "validate_policy_decision d = Ok ()" and "\<forall>s \<in> set_option shadow. validate_policy_decision s = Ok ()"
    and "revision \<noteq> 0"
  shows "validate_recovered_policy_value (encode_policy_decisions d shadow revision) = Ok () \<longleftrightarrow>
    record_ok d \<and> (\<forall>s \<in> set_option shadow. record_ok s)"
proof -
  note f = encoded_fields [of d shadow revision]
  have zeros: "replicate 8 (0 :: u8) = [0, 0, 0, 0, 0, 0, 0, 0]" "replicate 2 (0 :: u8) = [0, 0]"
    "id_bytes None = [0, 0, 0, 0]" by (simp_all add: numeral_eq_Suc id_bytes_def)
  have ids: "take 8 (drop 8 (encode_policy_decisions d None revision)) = replicate 8 0"
    "take 2 (drop 30 (encode_policy_decisions d None revision)) = replicate 2 0"
    by (simp_all add: encode_policy_decisions_layout shadow_id_def shadow_byte_def zeros)
  show ?thesis
  proof (cases shadow)
    case None
    then show ?thesis using assms f ids
      by (simp add: validate_recovered_policy_value_def Let_def recovered_verdict_reason recovered_provenance(1)
          decision_flags_tests)
        (simp add: decision_flags_def policy_flag_defs flag_if_def split: option.split)
  next
    case (Some s)
    then show ?thesis using assms f
      by (simp add: validate_recovered_policy_value_def Let_def recovered_verdict_reason recovered_provenance
          decision_flags_tests shadow_byte_def)
        (simp add: decision_flags_def policy_flag_defs flag_if_def split: option.split)
  qed
qed

text \<open>Encoded keys determine the entry key and the bank.\<close>

lemma append_bytes_eq:
  "length xs = length ys \<Longrightarrow> xs @ us = ys @ vs \<longleftrightarrow> xs = ys \<and> us = vs"
  by simp

lemmas key_bytes_eq = append_bytes_eq [of "le_bytes n x" "le_bytes n y" for n x y]
  append_bytes_eq [of "be_bytes n x" "be_bytes n y" for n x y]

lemma encode_key_inject:
  "encode_policy_key e b = encode_policy_key e' b' \<longleftrightarrow> entry_key e = entry_key e' \<and> b = b'"
  "encode_ipv4_policy_key e4 b = encode_ipv4_policy_key e4' b' \<longleftrightarrow> entry_key e4 = entry_key e4' \<and> b = b'"
  "encode_egress_ipv4_policy_key x4 b = encode_egress_ipv4_policy_key x4' b' \<longleftrightarrow>
     entry_key x4 = entry_key x4' \<and> b = b'"
  "encode_ipv6_policy_key e6 b = encode_ipv6_policy_key e6' b' \<longleftrightarrow> entry_key e6 = entry_key e6' \<and> b = b'"
  "encode_egress_ipv6_policy_key x6 b = encode_egress_ipv6_policy_key x6' b' \<longleftrightarrow>
     entry_key x6 = entry_key x6' \<and> b = b'"
proof -
  have "ucast (ucast p :: u32) = p" for p :: u8
    by (rule bit_word_eqI) (simp add: bit_unsigned_iff)
  then have prefix: "(ucast p :: u32) = ucast q \<longleftrightarrow> p = q" for p q :: u8 by metis
  show "encode_policy_key e b = encode_policy_key e' b' \<longleftrightarrow> entry_key e = entry_key e' \<and> b = b'"
    by (auto simp: encode_policy_key_def key_bytes_eq bytes_inject PolicyMapKey.expand)
  show "encode_ipv4_policy_key e4 b = encode_ipv4_policy_key e4' b' \<longleftrightarrow> entry_key e4 = entry_key e4' \<and> b = b'"
    by (auto simp: encode_ipv4_policy_key_def key_bytes_eq bytes_inject Ipv4PolicyMapKey.expand)
  show "encode_egress_ipv4_policy_key x4 b = encode_egress_ipv4_policy_key x4' b' \<longleftrightarrow>
      entry_key x4 = entry_key x4' \<and> b = b'"
    by (auto simp: encode_egress_ipv4_policy_key_def key_bytes_eq bytes_inject EgressIpv4PolicyMapKey.expand)
  show "encode_ipv6_policy_key e6 b = encode_ipv6_policy_key e6' b' \<longleftrightarrow> entry_key e6 = entry_key e6' \<and> b = b'"
    by (auto simp: encode_ipv6_policy_key_def key_bytes_eq bytes_inject prefix Ipv6PolicyMapKey.expand)
  show "encode_egress_ipv6_policy_key x6 b = encode_egress_ipv6_policy_key x6' b' \<longleftrightarrow>
      entry_key x6 = entry_key x6' \<and> b = b'"
    by (auto simp: encode_egress_ipv6_policy_key_def key_bytes_eq bytes_inject prefix EgressIpv6PolicyMapKey.expand)
qed

text \<open>The bank of a key, as the agent reads it back.\<close>

definition key_bank :: "bytes \<Rightarrow> u8" where
  "key_bank key = key ! 11"

definition lpm_key_bank :: "lpm_key \<Rightarrow> u8" where
  "lpm_key_bank key = snd key ! 7"

lemma encoded_key_bank [simp]:
  "key_bank (encode_policy_key e bank) = bank"
  "key_bank (encode_ipv4_policy_key e4 bank) = bank"
  "key_bank (encode_egress_ipv4_policy_key x4 bank) = bank"
  "lpm_key_bank (encode_ipv6_policy_key e6 bank) = bank"
  "lpm_key_bank (encode_egress_ipv6_policy_key x6 bank) = bank"
  by (simp_all add: key_bank_def lpm_key_bank_def encode_policy_key_def encode_ipv4_policy_key_def
      encode_egress_ipv4_policy_key_def encode_ipv6_policy_key_def encode_egress_ipv6_policy_key_def
      nth_append)

section \<open>The bank image\<close>

text \<open>The interface of the five entry kinds: a check and an encoding of keys that determines the key.\<close>

locale entry_kind =
  fixes validate :: "'k policy_entry \<Rightarrow> (PolicySyncError, unit) res"
    and encode_key :: "'k policy_entry \<Rightarrow> u8 \<Rightarrow> 'b::linorder" and bank_of :: "'b \<Rightarrow> u8"
  assumes encode_inject: "encode_key e b = encode_key e' b' \<longleftrightarrow> entry_key e = entry_key e' \<and> b = b'"
    and bank_of_encode: "bank_of (encode_key e b) = b"
begin

lemma insert_desired_Ok:
  "insert_desired validate (\<lambda>e. encode_key e bank) revision m e = Ok m' \<longleftrightarrow>
     validate e = Ok () \<and> bt_get m (encode_key e bank) = None \<and>
     m' = bt_insert (encode_key e bank) (encode_policy_decisions (entry_decision e) (entry_shadow e) revision) m"
  by (auto simp: insert_desired_def Let_def res_simps)

lemma fold_insert_desired:
  assumes "try_fold (insert_desired validate (\<lambda>e. encode_key e bank) revision) m entries = Ok m'" "bt_ok m"
  shows "bt_ok m' \<and> distinct (map entry_key entries) \<and> list_all (\<lambda>e. validate e = Ok ()) entries \<and>
    (\<forall>k. bt_get m' k = (case find (\<lambda>e. encode_key e bank = k) entries of None \<Rightarrow> bt_get m k
      | Some e \<Rightarrow> Some (encode_policy_decisions (entry_decision e) (entry_shadow e) revision))) \<and>
    (\<forall>e \<in> set entries. bt_get m (encode_key e bank) = None)"
  using assms
proof (induction entries arbitrary: m)
  case (Cons e entries)
  from Cons.prems(1) obtain m1 where step: "validate e = Ok ()" "bt_get m (encode_key e bank) = None"
    "m1 = bt_insert (encode_key e bank) (encode_policy_decisions (entry_decision e) (entry_shadow e) revision) m"
    and rest: "try_fold (insert_desired validate (\<lambda>e. encode_key e bank) revision) m1 entries = Ok m'"
    by (auto simp: rbind_eq_Inr insert_desired_Ok)
  have m1: "bt_ok m1" using step(3) Cons.prems(2) by (simp add: bt_ok_insert)
  have get: "bt_get m1 = (bt_get m)(encode_key e bank \<mapsto>
      encode_policy_decisions (entry_decision e) (entry_shadow e) revision)"
    using step(3) Cons.prems(2) by (simp add: bt_get_insert)
  note IH = Cons.IH [OF rest m1]
  have fresh: "bt_get m (encode_key x bank) = None \<and> entry_key x \<noteq> entry_key e" if "x \<in> set entries" for x
    using IH that by (auto simp: get encode_inject split: if_splits)
  have "find (\<lambda>x. encode_key x bank = encode_key e bank) entries = None"
    using fresh by (auto simp: find_None_iff encode_inject)
  then have "bt_get m' k = (case find (\<lambda>e. encode_key e bank = k) (e # entries) of None \<Rightarrow> bt_get m k
      | Some e \<Rightarrow> Some (encode_policy_decisions (entry_decision e) (entry_shadow e) revision))" for k
    using IH by (cases "encode_key e bank = k") (auto simp: get split: option.split)
  moreover have "distinct (map entry_key (e # entries))" using IH fresh by force
  ultimately show ?case using IH fresh step(1,2) by simp
qed simp

text \<open>The image of an entry list holds the decisions of its rows under the encoded keys, and only keys
  of its bank.\<close>

lemma desired_entries_image:
  assumes "desired_entries validate encode_key entries revision bank = Ok m"
  shows "bt_ok m" "distinct (map entry_key entries)" "list_all (\<lambda>e. validate e = Ok ()) entries"
    and "\<And>e. bt_get m (encode_key e bank) =
      map_option (\<lambda>(d, s). encode_policy_decisions d s revision) (rows_map entries (entry_key e))"
    and "\<And>k. k \<in> fst ` set m \<Longrightarrow> \<exists>e \<in> set entries. k = encode_key e bank"
    and "\<And>k. k \<in> fst ` set m \<Longrightarrow> bank_of k = bank" and "length entries \<le> POLICY_MAP_BANK_ENTRY_LIMIT"
proof -
  from assms have f: "try_fold (insert_desired validate (\<lambda>e. encode_key e bank) revision) [] entries = Ok m"
    and len: "length entries \<le> POLICY_MAP_BANK_ENTRY_LIMIT"
    by (auto simp: desired_entries_def validate_policy_bank_capacity_def res_simps split: if_splits)
  have fold: "bt_ok m" "distinct (map entry_key entries)" "list_all (\<lambda>e. validate e = Ok ()) entries"
    and get: "\<And>k. bt_get m k = (case find (\<lambda>e. encode_key e bank = k) entries of None \<Rightarrow> None
      | Some e \<Rightarrow> Some (encode_policy_decisions (entry_decision e) (entry_shadow e) revision))"
    using fold_insert_desired [OF f bt_ok_Nil] by (auto simp: bt_get_def [of "[]"] split: option.split)
  show "bt_ok m" "distinct (map entry_key entries)" "list_all (\<lambda>e. validate e = Ok ()) entries" by fact+
  show "length entries \<le> POLICY_MAP_BANK_ENTRY_LIMIT" by fact
  show "bt_get m (encode_key e bank) =
      map_option (\<lambda>(d, s). encode_policy_decisions d s revision) (rows_map entries (entry_key e))" for e
  proof (cases "find (\<lambda>x. entry_key x = entry_key e) entries")
    case None
    then have "rows_map entries (entry_key e) = None" by (auto simp: rows_map_None find_None_iff)
    with None show ?thesis by (simp add: get encode_inject)
  next
    case (Some x)
    then have "rows_map entries (entry_key e) = Some (entry_decision x, entry_shadow x)"
      using rows_map_Some [OF fold(2)] by (auto dest: find_SomeD)
    with Some show ?thesis by (simp add: get encode_inject)
  qed
  show key: "\<exists>e \<in> set entries. k = encode_key e bank" if "k \<in> fst ` set m" for k
  proof -
    have "bt_get m k \<noteq> None" using that by (simp add: bt_get_eq_None)
    then show ?thesis by (auto simp: get split: option.splits dest: find_SomeD)
  qed
  show "bank_of k = bank" if "k \<in> fst ` set m" for k
    using key [OF that] by (auto simp: bank_of_encode)
qed

text \<open>Entries with distinct keys that pass the check have an image.\<close>

lemma desired_entries_total:
  assumes "bank < POLICY_BANK_COUNT" "length entries \<le> POLICY_MAP_BANK_ENTRY_LIMIT"
    and "distinct (map entry_key entries)" "list_all (\<lambda>e. validate e = Ok ()) entries"
  shows "\<exists>m. desired_entries validate encode_key entries revision bank = Ok m"
proof -
  have "\<exists>m'. try_fold (insert_desired validate (\<lambda>e. encode_key e bank) revision) m entries = Ok m'"
    if "bt_ok m" "\<forall>e \<in> set entries. bt_get m (encode_key e bank) = None" for m
    using assms(3,4) that
  proof (induction entries arbitrary: m)
    case (Cons e entries)
    let ?m = "bt_insert (encode_key e bank)
      (encode_policy_decisions (entry_decision e) (entry_shadow e) revision) m"
    have "insert_desired validate (\<lambda>e. encode_key e bank) revision m e = Ok ?m"
      using Cons.prems by (simp add: insert_desired_Ok)
    moreover have "\<exists>m'. try_fold (insert_desired validate (\<lambda>e. encode_key e bank) revision) ?m entries = Ok m'"
      using Cons.prems by (intro Cons.IH) (auto simp: bt_ok_insert bt_get_insert encode_inject image_iff)
    ultimately show ?case by simp
  qed simp
  from this [of "[]"] assms(1,2) show ?thesis
    by (auto simp: desired_entries_def validate_policy_bank_capacity_def bt_get_def not_le)
qed

end

interpretation identity_kind: entry_kind validate_policy_entry encode_policy_key key_bank
  by unfold_locales (simp_all add: encode_key_inject)

interpretation ipv4_kind: entry_kind validate_ipv4_policy_entry encode_ipv4_policy_key key_bank
  by unfold_locales (simp_all add: encode_key_inject)

interpretation ipv6_kind: entry_kind validate_ipv6_policy_entry encode_ipv6_policy_key lpm_key_bank
  by unfold_locales (simp_all add: encode_key_inject)

interpretation egress_ipv4_kind:
  entry_kind validate_egress_ipv4_policy_entry encode_egress_ipv4_policy_key key_bank
  by unfold_locales (simp_all add: encode_key_inject)

interpretation egress_ipv6_kind:
  entry_kind validate_egress_ipv6_policy_entry encode_egress_ipv6_policy_key lpm_key_bank
  by unfold_locales (simp_all add: encode_key_inject)

section \<open>The agent accepts what the compiler emits\<close>

text \<open>Policies with nonzero identifiers, transport protocols only, and enforcing compatibility rules.\<close>

definition policies_named :: "PolicyIr list \<Rightarrow> bool" where
  "policies_named ps = list_all (\<lambda>p. pol_id p \<noteq> 0 \<and> list_all (\<lambda>r.
     prov_policy_id (rule_provenance r) \<noteq> 0 \<and> rule_protocol r \<noteq> Some Icmp \<and>
     (pol_origin p = KubernetesNetworkPolicy \<longrightarrow> rule_action r \<noteq> AuditAction)) (pol_rules p)) ps"

lemma policies_named_global [simp]: "policies_named ps \<Longrightarrow> policies_named (global_fallback_policies ps)"
  by (auto simp: policies_named_def global_fallback_policies_def list_all_iff)

lemma candidate_named:
  assumes "candidate Q f a mode c" "Q \<subseteq> set ps" "policies_named ps"
  shows "case decision_outcome c of (v, reason, i, r) \<Rightarrow> v \<in> {AllowVerdict, DenyVerdict} \<and>
    i \<noteq> None \<and> i \<noteq> Some 0 \<and> reason \<noteq> NoApplicablePolicy \<and> (r = None \<longleftrightarrow> reason \<noteq> ExplicitRule)"
  using assms
proof (induction rule: candidate.induct)
  case (native_rule p r)
  then show ?case by (cases "rule_action r") (auto simp: policies_named_def list_all_iff)
next
  case (native_default p)
  then show ?case by (cases "pol_default_action p") (auto simp: policies_named_def list_all_iff)
next
  case (compat_rule p r)
  then show ?case by (cases "rule_action r") (auto simp: policies_named_def list_all_iff)
next
  case (compat_default p)
  then show ?case by (cases "pol_default_action p") (auto simp: policies_named_def list_all_iff)
qed

lemma evaluate_records_ok:
  fixes dir f a
  assumes "policies_named ps"
  defines "d \<equiv> evaluate_for_direction_with_addresses ps dir f a"
  shows "record_ok (policy_decision_record d)" "\<forall>s \<in> set_option (shadow_policy_decision_record d). record_ok s"
proof -
  let ?Q = "filter (applicable dir f) ps"
  have named: "case x of (v, reason, i, r) \<Rightarrow> v \<in> {AllowVerdict, DenyVerdict} \<and>
      i \<noteq> None \<and> i \<noteq> Some 0 \<and> reason \<noteq> NoApplicablePolicy \<and> (r = None \<longleftrightarrow> reason \<noteq> ExplicitRule)"
    if "decide_for_mode ?Q f a mode = Some x" for mode x
  proof -
    from that obtain c where "candidate (set ?Q) f a mode c" "x = decision_outcome c"
      by (auto simp: decide_for_mode_Some_iff is_arg_min_def)
    then show ?thesis using candidate_named [OF _ _ assms(1), of "set ?Q"] by auto
  qed
  show "record_ok (policy_decision_record d)"
    using named [of Enforce]
    by (auto simp: d_def evaluate_for_direction_with_addresses_def Let_def policy_decision_record_def
        record_ok_def validate_decision_Ok split: option.split prod.split)
  show "\<forall>s \<in> set_option (shadow_policy_decision_record d). record_ok s"
    using named [of Shadow]
    by (auto simp: d_def evaluate_for_direction_with_addresses_def Let_def shadow_policy_decision_record_def
        record_ok_def validate_decision_Ok split: option.splits prod.splits)
qed

text \<open>The rows of a pair carry evaluated decisions at transport tuples.\<close>

lemma kept_rows_mem:
  assumes "e \<in> set (kept_rows mk g wild exact decide)"
  obtains pr po d where "e = mk pr po d" "d = g \<or> (\<exists>p port. d = decide p port)"
    "pr = 0 \<and> po = 0 \<or> (\<exists>p. pr = protocol_number p \<and> p \<in> set wild \<union> fst ` set exact)"
  using assms by (auto simp: kept_rows_def split: if_splits) (metis fst_conv image_eqI)+

lemma exact_rule_ports_protocol: "(p, port) \<in> set (exact_rule_ports r dst) \<Longrightarrow> rule_protocol r = Some p"
  by (cases "rule_destination_port r")
    (auto simp: exact_rule_ports_def split: option.splits)

lemma tuple_protocols:
  assumes "policies_named ps" "\<forall>r \<in> set rules. \<exists>p \<in> set ps. r \<in> set (pol_rules p)"
    and "p \<in> set (rule_wildcard_protocols rules) \<union> fst ` set (rule_exact_tuples rules dst)"
  shows "protocol_number p \<in> {6, 17, 132}"
proof -
  from assms(3) obtain r where "r \<in> set rules" "rule_protocol r = Some p"
    by (auto simp: rule_wildcard_protocols_def rule_exact_tuples_def map_filter_def
        dest: exact_rule_ports_protocol)
  then have "p \<noteq> Icmp" using assms(1,2) by (auto simp: policies_named_def list_all_iff)
  then show ?thesis by (cases p) simp_all
qed

lemma validate_policy_entry_Ok:
  assumes "ep_identity s \<noteq> 0" "ep_identity t \<noteq> 0" "pr = 0 \<and> po = 0 \<or> pr \<in> {6, 17, 132}"
    and "record_ok (policy_decision_record d)" "\<forall>s \<in> set_option (shadow_policy_decision_record d). record_ok s"
  shows "validate_policy_entry (policy_map_entry s t pr po d) = Ok ()"
  using assms
  by (auto simp: validate_policy_entry_def policy_map_entry_def validate_policy_transport_def
      validate_entry_decisions_def record_ok_def split: option.split)

text \<open>
  C23: the agent accepts what the compiler emits.  For policies with nonzero identifiers and transport
  protocols, and endpoints with nonzero identities and ports, the compiled identity entries pass every
  check of the agent and fill either bank.
\<close>

theorem agent_accepts_compiled:
  assumes "compile_dataplane_entries ps eps = Ok entries" and "policies_wf ps" and "policies_named ps"
    and "list_all (\<lambda>ep. ep_identity ep \<noteq> 0 \<and> named_ports_nonzero ep) eps" and "bank < POLICY_BANK_COUNT"
  shows "\<exists>m. desired_policy_entries entries revision bank = Ok m"
proof -
  have sorted: "sorted_wrt (<) (map entry_key entries)" "length entries \<le> POLICY_MAP_BANK_ENTRY_LIMIT"
    using identity_entries_sorted [OF assms(1,2)] assms(4) by (auto simp: list_all_iff)
  from assms(1) obtain vs where entries: "entries = sort_key entry_key
      (concat (map (\<lambda>(s, t). identity_rows ps s t) (List.product vs vs)))" and vs: "set vs = set eps"
    using compile_dataplane_entries_Ok by blast
  have "validate_policy_entry e = Ok ()" if "e \<in> set entries" for e
  proof -
    from that obtain s t where st: "s \<in> set eps" "t \<in> set eps" "e \<in> set (identity_rows ps s t)"
      unfolding entries using vs by auto
    let ?rules = "filter (\<lambda>r. matches_source (rule_source r) s None None \<and>
      selector_matches (rule_destination r) t) (targeted_rules ps t)"
    from st(3) obtain pr po d where e: "e = policy_map_entry s t pr po d"
      and d: "d = evaluate (global_fallback_policies ps) (pair_flow s t None None Tcp 0) \<or>
        (\<exists>p port. d = evaluate ps (pair_flow s t None None p port))"
      and tuple: "pr = 0 \<and> po = 0 \<or> (\<exists>p. pr = protocol_number p \<and>
        p \<in> set (rule_wildcard_protocols ?rules) \<union> fst ` set (rule_exact_tuples ?rules t))"
      unfolding identity_rows_def Let_def by (elim kept_rows_mem)
    have "\<forall>r \<in> set ?rules. \<exists>p \<in> set ps. r \<in> set (pol_rules p)" by (auto simp: targeted_rules_def)
    then have "pr = 0 \<and> po = 0 \<or> pr \<in> {6, 17, 132}" using tuple tuple_protocols [OF assms(3)] by blast
    moreover obtain qs f where "d = evaluate_for_direction_with_addresses qs Ingress f no_addresses"
      "policies_named qs"
      using d assms(3) policies_named_global [OF assms(3)] unfolding evaluate_ingress by blast
    then have "record_ok (policy_decision_record d)"
      "\<forall>s \<in> set_option (shadow_policy_decision_record d). record_ok s"
      using evaluate_records_ok by simp_all
    ultimately show ?thesis unfolding e using st assms(4)
      by (intro validate_policy_entry_Ok) (auto simp: list_all_iff)
  qed
  then show ?thesis unfolding desired_policy_entries_def
    using sorted assms(5)
    by (intro identity_kind.desired_entries_total) (auto simp: list_all_iff strict_sorted_iff)
qed

theorem agent_accepts_compiled_witness:
  "\<exists>entries m. compile_dataplane_entries sample_policies sample_endpoints = Ok entries \<and>
     desired_policy_entries entries 1 1 = Ok m"
proof -
  obtain entries where "compile_dataplane_entries sample_policies sample_endpoints = Ok entries"
    using sample_identity_entries by blast
  moreover from this have "\<exists>m. desired_policy_entries entries 1 1 = Ok m"
    by (rule agent_accepts_compiled)
      (simp_all add: policies_wf_def rule_wf_def sample_policy_def sample_rule_def policies_named_def
        sample_endpoint_def named_ports_nonzero_def POLICY_BANK_COUNT_def)
  ultimately show ?thesis by blast
qed

section \<open>The configuration survives a restart\<close>

lemma config_fields:
  assumes "encode_map_config epoch revision entry_count schema bank banks = Ok config"
  shows "length config = 24" "field config 0 8 = epoch" "field config 8 8 = revision"
    and "field config 16 4 = (of_nat entry_count :: u32)" "field config 20 2 = schema"
    and "config ! 22 = bank" "config ! 23 = 0" "bank < banks" "entry_count < 2 ^ 32"
  using assms
  by (auto simp: encode_map_config_def field_def of_le_bytes_le_bytes nth_append split: if_splits)

text \<open>
  The configuration round trip.  The configuration the agent activates a bank with is read back
  after a restart with the same epoch, revision, entry count and bank, for nonzero epochs and
  revisions.
\<close>

lemma config_roundtrip:
  assumes "encode_policy_config epoch revision entry_count bank = Ok config" and "epoch \<noteq> 0" and "revision \<noteq> 0"
  shows "decode_recovered_policy_config config = Ok (Some (epoch, revision, of_nat entry_count, bank)) \<and>
    unat (of_nat entry_count :: u32) = entry_count"
proof -
  note f = config_fields [OF assms(1) [unfolded encode_policy_config_def]]
  have "field (replicate 24 0) 0 8 = (0 :: u64)" by (simp add: field_def numeral_eq_Suc)
  then have "config \<noteq> replicate 24 0" using f(2) assms(2) by auto
  then show ?thesis using f assms(2,3)
    by (simp add: decode_recovered_policy_config_def decode_recovered_config_def unsigned_of_nat
        take_bit_nat_eq_self)
qed

end
