(* ===== verification/Policy_Banks.thy ===== *)
theory Policy_Banks
  imports Policy_Encoding
begin

text \<open>
  How the agent publishes a policy snapshot (\<^verbatim>\<open>bins/unf-agent/src/main.rs\<close>): it stages the entries in
  the bank the dataplane does not read, checks them, and flips the configuration; any failure rolls
  the staging bank back.  The kernel maps are not part of the sources: their calls are the parameters
  \<open>map_ops\<close> of the operations, over an arbitrary state that may fail at any call, and \<open>map_contract\<close>
  states what the agent relies on.
\<close>

section \<open>Kernel maps\<close>

record ('s, 'k) map_ops =
  map_insert :: "'k \<Rightarrow> bytes \<Rightarrow> 's \<Rightarrow> bool \<times> 's"
  map_remove :: "'k \<Rightarrow> 's \<Rightarrow> bool \<times> 's"
  map_get :: "'k \<Rightarrow> 's \<Rightarrow> bytes option"
  map_keys :: "'s \<Rightarrow> 'k list option"

text \<open>A call that reports success did what it says, one that reports failure did nothing; a listing
  has exactly the keys present.\<close>

definition map_contract :: "('s, 'k) map_ops \<Rightarrow> ('s \<Rightarrow> 'k \<rightharpoonup> bytes) \<Rightarrow> bool" where
  "map_contract ops view \<longleftrightarrow>
     (\<forall>k v s ok s'. map_insert ops k v s = (ok, s') \<longrightarrow> view s' = (if ok then (view s)(k \<mapsto> v) else view s)) \<and>
     (\<forall>k s ok s'. map_remove ops k s = (ok, s') \<longrightarrow> view s' = (if ok then (view s)(k := None) else view s)) \<and>
     (\<forall>s ks. map_keys ops s = Some ks \<longrightarrow> set ks = dom (view s))"

text \<open>A loop of calls that stops at the first failure.\<close>

fun run_calls :: "('s \<Rightarrow> bool \<times> 's) list \<Rightarrow> 's \<Rightarrow> bool \<times> 's" where
  "run_calls [] s = (True, s)"
| "run_calls (c # cs) s = (let (ok, s') = c s in if ok then run_calls cs s' else (False, s'))"

definition replace_policy_entries ::
  "('s, 'k::linorder) map_ops \<Rightarrow> ('k, bytes) btree \<Rightarrow> ('k, bytes) btree \<Rightarrow> 's \<Rightarrow> bool \<times> 's" where
  "replace_policy_entries ops current desired =
     run_calls (map (map_remove ops) (filter (\<lambda>key. bt_get desired key = None) (map fst current)) @
       map (\<lambda>(key, value). map_insert ops key value) desired)"

definition restore_policy_entries ::
  "('s, 'k::linorder) map_ops \<Rightarrow> ('k \<Rightarrow> u8) \<Rightarrow> ('k, bytes) btree \<Rightarrow> u8 \<Rightarrow> 's \<Rightarrow> bool \<times> 's" where
  "restore_policy_entries ops bank_of previous bank s =
     (case map_keys ops s of None \<Rightarrow> (False, s)
      | Some keys \<Rightarrow> run_calls (map (map_remove ops) (filter (\<lambda>key. bank_of key = bank) keys) @
          map (\<lambda>(key, value). map_insert ops key value) previous) s)"

definition clear_policy_bank ::
  "('s, 'k::linorder) map_ops \<Rightarrow> ('k, bytes) btree \<Rightarrow> 's \<Rightarrow> bool \<times> 's" where
  "clear_policy_bank ops entries = run_calls (map (map_remove ops) (map fst entries))"

definition validate_staged_policy_entries ::
  "('s, 'k::linorder) map_ops \<Rightarrow> ('k, bytes) btree \<Rightarrow> 's \<Rightarrow> bool" where
  "validate_staged_policy_entries ops desired s =
     list_all (\<lambda>(key, expected). map_get ops key s = Some expected) desired"

section \<open>The synchronizer\<close>

record policy_bank_entries =
  bank_identity :: "(bytes, bytes) btree"
  bank_ipv4 :: "(bytes, bytes) btree"
  bank_ipv6 :: "(lpm_key, bytes) btree"
  bank_egress_ipv4 :: "(bytes, bytes) btree"
  bank_egress_ipv6 :: "(lpm_key, bytes) btree"

record ('s, 't, 'c) PolicySynchronizer =
  identity_map :: 's
  ipv4_map :: 's
  ipv6_map :: 't
  egress_ipv4_map :: 's
  egress_ipv6_map :: 't
  sync_config :: 'c
  policy_banks :: "policy_bank_entries list"
  active_bank :: u8
  applied_epoch :: u64

definition empty_bank :: policy_bank_entries where
  "empty_bank = \<lparr>bank_identity = [], bank_ipv4 = [], bank_ipv6 = [], bank_egress_ipv4 = [],
     bank_egress_ipv6 = []\<rparr>"

text \<open>The calls of the agent on its kernel objects: two kinds of maps and the configuration array.\<close>

record ('s, 't, 'c) kernel_calls =
  hash_ops :: "('s, bytes) map_ops"
  lpm_ops :: "('t, lpm_key) map_ops"
  config_set :: "bytes \<Rightarrow> 'c \<Rightarrow> bool \<times> 'c"

definition stage_policy_entries ::
  "('s, 't, 'c) kernel_calls \<Rightarrow> policy_bank_entries \<Rightarrow> policy_bank_entries \<Rightarrow>
   ('s, 't, 'c) PolicySynchronizer \<Rightarrow> bool \<times> ('s, 't, 'c) PolicySynchronizer" where
  "stage_policy_entries os previous desired =
     run_calls
      [\<lambda>s. let (ok, m) = replace_policy_entries (hash_ops os) (bank_identity previous)
             (bank_identity desired) (identity_map s) in (ok, s\<lparr>identity_map := m\<rparr>),
       \<lambda>s. let (ok, m) = replace_policy_entries (hash_ops os) (bank_ipv4 previous)
             (bank_ipv4 desired) (ipv4_map s) in (ok, s\<lparr>ipv4_map := m\<rparr>),
       \<lambda>s. let (ok, m) = replace_policy_entries (lpm_ops os) (bank_ipv6 previous)
             (bank_ipv6 desired) (ipv6_map s) in (ok, s\<lparr>ipv6_map := m\<rparr>),
       \<lambda>s. let (ok, m) = replace_policy_entries (hash_ops os) (bank_egress_ipv4 previous)
             (bank_egress_ipv4 desired) (egress_ipv4_map s) in (ok, s\<lparr>egress_ipv4_map := m\<rparr>),
       \<lambda>s. let (ok, m) = replace_policy_entries (lpm_ops os) (bank_egress_ipv6 previous)
             (bank_egress_ipv6 desired) (egress_ipv6_map s) in (ok, s\<lparr>egress_ipv6_map := m\<rparr>)]"

definition rollback_policy_stages ::
  "('s, 't, 'c) kernel_calls \<Rightarrow> policy_bank_entries \<Rightarrow> u8 \<Rightarrow> ('s, 't, 'c) PolicySynchronizer \<Rightarrow>
   bool \<times> ('s, 't, 'c) PolicySynchronizer" where
  "rollback_policy_stages os previous bank s =
     (let (identity, m1) = restore_policy_entries (hash_ops os) key_bank (bank_identity previous) bank
            (identity_map s);
          (ipv4, m2) = restore_policy_entries (hash_ops os) key_bank (bank_ipv4 previous) bank
            (ipv4_map s);
          (ipv6, m3) = restore_policy_entries (lpm_ops os) lpm_key_bank (bank_ipv6 previous) bank
            (ipv6_map s);
          (egress_ipv4, m4) = restore_policy_entries (hash_ops os) key_bank
            (bank_egress_ipv4 previous) bank (egress_ipv4_map s);
          (egress_ipv6, m5) = restore_policy_entries (lpm_ops os) lpm_key_bank
            (bank_egress_ipv6 previous) bank (egress_ipv6_map s)
      in (identity \<and> ipv4 \<and> ipv6 \<and> egress_ipv4 \<and> egress_ipv6,
          s\<lparr>identity_map := m1, ipv4_map := m2, ipv6_map := m3, egress_ipv4_map := m4,
            egress_ipv6_map := m5\<rparr>))"

definition validate_staged ::
  "('s, 't, 'c) kernel_calls \<Rightarrow> policy_bank_entries \<Rightarrow> ('s, 't, 'c) PolicySynchronizer \<Rightarrow> bool" where
  "validate_staged os desired s \<longleftrightarrow>
     validate_staged_policy_entries (hash_ops os) (bank_identity desired) (identity_map s) \<and>
     validate_staged_policy_entries (hash_ops os) (bank_ipv4 desired) (ipv4_map s) \<and>
     validate_staged_policy_entries (lpm_ops os) (bank_ipv6 desired) (ipv6_map s) \<and>
     validate_staged_policy_entries (hash_ops os) (bank_egress_ipv4 desired) (egress_ipv4_map s) \<and>
     validate_staged_policy_entries (lpm_ops os) (bank_egress_ipv6 desired) (egress_ipv6_map s)"

text \<open>Garbage collection of the bank that was active: each map alone, keeping the record of a bank
  whose removal failed.\<close>

definition collect_old_bank ::
  "('s, 't, 'c) kernel_calls \<Rightarrow> nat \<Rightarrow> ('s, 't, 'c) PolicySynchronizer \<Rightarrow> ('s, 't, 'c) PolicySynchronizer" where
  "collect_old_bank os previous s =
     (let old = policy_banks s ! previous;
          (ok1, m1) = clear_policy_bank (hash_ops os) (bank_identity old) (identity_map s);
          (ok2, m2) = clear_policy_bank (hash_ops os) (bank_ipv4 old) (ipv4_map s);
          (ok3, m3) = clear_policy_bank (lpm_ops os) (bank_ipv6 old) (ipv6_map s);
          (ok4, m4) = clear_policy_bank (hash_ops os) (bank_egress_ipv4 old) (egress_ipv4_map s);
          (ok5, m5) = clear_policy_bank (lpm_ops os) (bank_egress_ipv6 old) (egress_ipv6_map s);
          kept = \<lparr>bank_identity = (if ok1 then [] else bank_identity old),
            bank_ipv4 = (if ok2 then [] else bank_ipv4 old),
            bank_ipv6 = (if ok3 then [] else bank_ipv6 old),
            bank_egress_ipv4 = (if ok4 then [] else bank_egress_ipv4 old),
            bank_egress_ipv6 = (if ok5 then [] else bank_egress_ipv6 old)\<rparr>
      in s\<lparr>identity_map := m1, ipv4_map := m2, ipv6_map := m3, egress_ipv4_map := m4,
           egress_ipv6_map := m5, policy_banks := (policy_banks s)[previous := kept]\<rparr>)"

datatype apply_result = Applied | RolledBack | RollbackFailed

definition rolled_back :: "bool \<times> 'a \<Rightarrow> apply_result \<times> 'a" where
  "rolled_back r = (if fst r then RolledBack else RollbackFailed, snd r)"

definition bank_entry_count :: "policy_bank_entries \<Rightarrow> nat" where
  "bank_entry_count bank = length (bank_identity bank) + length (bank_ipv4 bank) +
     length (bank_ipv6 bank) + length (bank_egress_ipv4 bank) + length (bank_egress_ipv6 bank)"

definition apply_policy_entries ::
  "('s, 't, 'c) kernel_calls \<Rightarrow> policy_bank_entries \<Rightarrow> u64 \<Rightarrow> u64 \<Rightarrow> u8 \<Rightarrow>
   ('s, 't, 'c) PolicySynchronizer \<Rightarrow> apply_result \<times> ('s, 't, 'c) PolicySynchronizer" where
  "apply_policy_entries os desired source_epoch revision staging_bank synchronizer =
     (let staging_index = unat staging_bank;
          previous = policy_banks synchronizer ! staging_index;
          rollback = \<lambda>s. rolled_back (rollback_policy_stages os previous staging_bank s);
          (staged, s) = stage_policy_entries os previous desired synchronizer
      in if \<not> staged then rollback s
         else if \<not> validate_staged os desired s then rollback s
         else case encode_policy_config source_epoch revision (bank_entry_count desired) staging_bank of
           Err _ \<Rightarrow> rollback s
         | Ok config \<Rightarrow>
             (let (set_ok, c) = config_set os config (sync_config s); s = s\<lparr>sync_config := c\<rparr>
              in if \<not> set_ok then rollback s
                 else let previous_active = active_bank s;
                          s = s\<lparr>policy_banks := (policy_banks s)[staging_index := desired],
                                active_bank := staging_bank\<rparr>
                      in (Applied, if previous_active \<noteq> staging_bank
                                   then collect_old_bank os (unat previous_active) s else s)))"

section \<open>One map\<close>

lemma run_calls_Cons:
  "run_calls (c # cs) s = (if fst (c s) then run_calls cs (snd (c s)) else (False, snd (c s)))"
  by (simp add: split_beta)

declare run_calls.simps(2) [simp del] run_calls_Cons [simp]

lemma run_calls_append:
  "run_calls (xs @ ys) s = (if fst (run_calls xs s) then run_calls ys (snd (run_calls xs s))
     else (False, snd (run_calls xs s)))"
  by (induction xs arbitrary: s) auto

lemma run_calls_frame:
  assumes "\<And>c s. c \<in> set cs \<Longrightarrow> P s (snd (c s))" "\<And>s. P s s" "\<And>s t u. P s t \<Longrightarrow> P t u \<Longrightarrow> P s u"
  shows "P s (snd (run_calls cs s))"
  using assms(1)
proof (induction cs arbitrary: s)
  case (Cons c cs)
  have "P s (snd (c s))" using Cons.prems by simp
  moreover have "P (snd (c s)) (snd (run_calls cs (snd (c s))))" using Cons by simp
  ultimately show ?case using assms(3) by auto
qed (simp add: assms(2))

lemma contractD:
  assumes "map_contract ops view"
  shows "map_insert ops k v s = (ok, s') \<Longrightarrow> view s' = (if ok then (view s)(k \<mapsto> v) else view s)"
    and "map_remove ops k s = (ok, s') \<Longrightarrow> view s' = (if ok then (view s)(k := None) else view s)"
    and "map_keys ops s = Some ks \<Longrightarrow> set ks = dom (view s)"
  using assms unfolding map_contract_def by blast+

text \<open>Two states agree off a bank.\<close>

definition same_off :: "('s \<Rightarrow> 'k \<rightharpoonup> bytes) \<Rightarrow> ('k \<Rightarrow> u8) \<Rightarrow> u8 \<Rightarrow> 's \<Rightarrow> 's \<Rightarrow> bool" where
  "same_off view bank_of b s s' \<longleftrightarrow> (\<forall>k. bank_of k \<noteq> b \<longrightarrow> view s' k = view s k)"

definition keys_in :: "('k \<Rightarrow> u8) \<Rightarrow> u8 \<Rightarrow> ('k \<times> bytes) list \<Rightarrow> bool" where
  "keys_in bank_of b m \<longleftrightarrow> (\<forall>k \<in> fst ` set m. bank_of k = b)"

lemma same_off_refl [simp]: "same_off view bank_of b s s"
  by (simp add: same_off_def)

lemma same_off_trans: "same_off view bank_of b s t \<Longrightarrow> same_off view bank_of b t u \<Longrightarrow> same_off view bank_of b s u"
  by (simp add: same_off_def)

lemma contract_views:
  assumes "map_contract ops view"
  shows "view (snd (map_insert ops k v s)) = (if fst (map_insert ops k v s) then (view s)(k \<mapsto> v) else view s)"
    and "view (snd (map_remove ops k s)) = (if fst (map_remove ops k s) then (view s)(k := None) else view s)"
  by (rule contractD [OF assms] surjective_pairing)+

abbreviation removals :: "('s, 'k) map_ops \<Rightarrow> 'k list \<Rightarrow> ('s \<Rightarrow> bool \<times> 's) list" where
  "removals ops ks \<equiv> map (map_remove ops) ks"

abbreviation insertions :: "('s, 'k) map_ops \<Rightarrow> ('k \<times> bytes) list \<Rightarrow> ('s \<Rightarrow> bool \<times> 's) list" where
  "insertions ops m \<equiv> map (\<lambda>(k, v). map_insert ops k v) m"

lemma calls_same_off:
  assumes "map_contract ops view" "\<forall>k \<in> set ks. bank_of k = b" "keys_in bank_of b m"
  shows "same_off view bank_of b s (snd (run_calls (removals ops ks @ insertions ops m) s))"
proof (rule run_calls_frame [where P = "same_off view bank_of b"])
  fix c s
  assume "c \<in> set (removals ops ks @ insertions ops m)"
  then consider k where "bank_of k = b" "c = map_remove ops k" | k v where "bank_of k = b" "c = map_insert ops k v"
    using assms(2,3) by (fastforce simp: keys_in_def)
  then show "same_off view bank_of b s (snd (c s))"
    by cases (auto simp: same_off_def contract_views [OF assms(1)])
qed (auto intro: same_off_trans)

lemma replace_same_off:
  assumes "map_contract ops view" "keys_in bank_of b current" "keys_in bank_of b desired"
  shows "same_off view bank_of b s (snd (replace_policy_entries ops current desired s))"
  unfolding replace_policy_entries_def
  by (rule calls_same_off [OF assms(1)]) (use assms(2,3) in \<open>auto simp: keys_in_def\<close>)

lemma restore_same_off:
  assumes "map_contract ops view" "keys_in bank_of b previous"
  shows "same_off view bank_of b s (snd (restore_policy_entries ops bank_of previous b s))"
proof (cases "map_keys ops s")
  case (Some keys)
  then show ?thesis unfolding restore_policy_entries_def
    by simp (rule calls_same_off [OF assms(1) _ assms(2)], simp)
qed (simp add: restore_policy_entries_def)

lemma clear_same_off:
  assumes "map_contract ops view" "keys_in bank_of b entries"
  shows "same_off view bank_of b s (snd (clear_policy_bank ops entries s))"
  using calls_same_off [OF assms(1), of "map fst entries" bank_of b "[]"] assms(2)
  by (simp add: clear_policy_bank_def keys_in_def)

text \<open>What a loop of calls leaves when every call succeeds.\<close>

lemma removals_view:
  assumes "map_contract ops view" "fst (run_calls (removals ops ks) s)"
  shows "view (snd (run_calls (removals ops ks) s)) k = (if k \<in> set ks then None else view s k)"
  using assms(2)
proof (induction ks arbitrary: s)
  case (Cons x ks)
  from Cons.prems have "fst (map_remove ops x s)" "fst (run_calls (removals ops ks) (snd (map_remove ops x s)))"
    by (auto split: if_splits)
  then show ?case using Cons.IH by (auto simp: contract_views [OF assms(1)])
qed simp

lemma insertions_view:
  assumes "map_contract ops view" "fst (run_calls (insertions ops m) s)" "distinct (map fst m)"
  shows "view (snd (run_calls (insertions ops m) s)) k = or_else (map_of m k) (view s k)"
  using assms(2,3)
proof (induction m arbitrary: s)
  case (Cons e m)
  obtain x v where e: "e = (x, v)" by (cases e)
  from Cons.prems have "fst (map_insert ops x v s)" "fst (run_calls (insertions ops m) (snd (map_insert ops x v s)))"
    by (auto simp: e split: if_splits)
  moreover have "x \<notin> dom (map_of m)" using Cons.prems e by (simp add: dom_map_of_conv_image_fst)
  ultimately show ?case using Cons.IH Cons.prems
    by (auto simp: e contract_views [OF assms(1)] domIff)
qed simp

lemma replace_view:
  assumes "map_contract ops view" "bt_ok desired" "fst (replace_policy_entries ops current desired s)"
  shows "view (snd (replace_policy_entries ops current desired s)) k =
    or_else (bt_get desired k) (if k \<in> fst ` set current then None else view s k)"
proof -
  let ?ks = "filter (\<lambda>key. bt_get desired key = None) (map fst current)"
  let ?s = "snd (run_calls (removals ops ?ks) s)"
  have ok: "fst (run_calls (removals ops ?ks) s)" "fst (run_calls (insertions ops desired) ?s)"
    and eq: "replace_policy_entries ops current desired s = run_calls (insertions ops desired) ?s"
    using assms(3) by (auto simp: replace_policy_entries_def run_calls_append split: if_splits)
  have d: "distinct (map fst desired)" using assms(2) by (rule bt_ok_distinct)
  show ?thesis unfolding eq insertions_view [OF assms(1) ok(2) d] removals_view [OF assms(1) ok(1)]
    by (cases "bt_get desired k") (auto simp: bt_get_def)
qed

lemma restore_view:
  assumes "map_contract ops view" "bt_ok previous" "fst (restore_policy_entries ops bank_of previous b s)"
    and "bank_of k = b"
  shows "view (snd (restore_policy_entries ops bank_of previous b s)) k = bt_get previous k"
proof (cases "map_keys ops s")
  case None
  then show ?thesis using assms(3) by (simp add: restore_policy_entries_def)
next
  case (Some keys)
  let ?ks = "filter (\<lambda>key. bank_of key = b) keys"
  let ?s = "snd (run_calls (removals ops ?ks) s)"
  have ok: "fst (run_calls (removals ops ?ks) s)" "fst (run_calls (insertions ops previous) ?s)"
    and eq: "restore_policy_entries ops bank_of previous b s = run_calls (insertions ops previous) ?s"
    using assms(3) Some
    by (auto simp: restore_policy_entries_def run_calls_append split: if_splits)
  have "view ?s k = None"
    using removals_view [OF assms(1) ok(1), of k] contractD(3) [OF assms(1) Some] assms(4) by (auto simp: domIff)
  then show ?thesis unfolding eq insertions_view [OF assms(1) ok(2) bt_ok_distinct [OF assms(2)]]
    by (simp add: bt_get_def)
qed

section \<open>The five maps\<close>

text \<open>A bank record holds keys of its bank only.\<close>

definition bank_wf :: "u8 \<Rightarrow> policy_bank_entries \<Rightarrow> bool" where
  "bank_wf b bank \<longleftrightarrow>
     bt_ok (bank_identity bank) \<and> bt_ok (bank_ipv4 bank) \<and> bt_ok (bank_ipv6 bank) \<and>
     bt_ok (bank_egress_ipv4 bank) \<and> bt_ok (bank_egress_ipv6 bank) \<and>
     keys_in key_bank b (bank_identity bank) \<and> keys_in key_bank b (bank_ipv4 bank) \<and>
     keys_in lpm_key_bank b (bank_ipv6 bank) \<and> keys_in key_bank b (bank_egress_ipv4 bank) \<and>
     keys_in lpm_key_bank b (bank_egress_ipv6 bank)"

text \<open>What the agent relies on, for maps seen through \<open>vh\<close> and \<open>vl\<close> and a configuration seen through
  \<open>vc\<close>.\<close>

definition kernel_contract ::
  "('s, 't, 'c) kernel_calls \<Rightarrow> ('s \<Rightarrow> bytes \<rightharpoonup> bytes) \<Rightarrow> ('t \<Rightarrow> lpm_key \<rightharpoonup> bytes) \<Rightarrow> ('c \<Rightarrow> bytes) \<Rightarrow> bool" where
  "kernel_contract os vh vl vc \<longleftrightarrow> map_contract (hash_ops os) vh \<and> map_contract (lpm_ops os) vl \<and>
     (\<forall>v c ok c'. config_set os v c = (ok, c') \<longrightarrow> vc c' = (if ok then v else vc c))"

text \<open>The maps agree off bank \<open>b\<close>.\<close>

definition same_off_bank ::
  "('s \<Rightarrow> bytes \<rightharpoonup> bytes) \<Rightarrow> ('t \<Rightarrow> lpm_key \<rightharpoonup> bytes) \<Rightarrow> u8 \<Rightarrow> ('s, 't, 'c) PolicySynchronizer \<Rightarrow>
   ('s, 't, 'c) PolicySynchronizer \<Rightarrow> bool" where
  "same_off_bank vh vl b s s' \<longleftrightarrow>
     same_off vh key_bank b (identity_map s) (identity_map s') \<and>
     same_off vh key_bank b (ipv4_map s) (ipv4_map s') \<and>
     same_off vl lpm_key_bank b (ipv6_map s) (ipv6_map s') \<and>
     same_off vh key_bank b (egress_ipv4_map s) (egress_ipv4_map s') \<and>
     same_off vl lpm_key_bank b (egress_ipv6_map s) (egress_ipv6_map s')"

text \<open>Bank \<open>b\<close> of the maps is exactly the recorded bank.\<close>

definition holds_bank ::
  "('s \<Rightarrow> bytes \<rightharpoonup> bytes) \<Rightarrow> ('t \<Rightarrow> lpm_key \<rightharpoonup> bytes) \<Rightarrow> u8 \<Rightarrow> policy_bank_entries \<Rightarrow>
   ('s, 't, 'c) PolicySynchronizer \<Rightarrow> bool" where
  "holds_bank vh vl b bank s \<longleftrightarrow>
     (\<forall>k. key_bank k = b \<longrightarrow> vh (identity_map s) k = bt_get (bank_identity bank) k) \<and>
     (\<forall>k. key_bank k = b \<longrightarrow> vh (ipv4_map s) k = bt_get (bank_ipv4 bank) k) \<and>
     (\<forall>k. lpm_key_bank k = b \<longrightarrow> vl (ipv6_map s) k = bt_get (bank_ipv6 bank) k) \<and>
     (\<forall>k. key_bank k = b \<longrightarrow> vh (egress_ipv4_map s) k = bt_get (bank_egress_ipv4 bank) k) \<and>
     (\<forall>k. lpm_key_bank k = b \<longrightarrow> vl (egress_ipv6_map s) k = bt_get (bank_egress_ipv6 bank) k)"

text \<open>Every key of bank \<open>b\<close> in the maps is recorded.\<close>

definition covered :: "('s \<Rightarrow> 'k \<rightharpoonup> bytes) \<Rightarrow> ('k \<Rightarrow> u8) \<Rightarrow> u8 \<Rightarrow> ('k \<times> bytes) list \<Rightarrow> 's \<Rightarrow> bool" where
  "covered view bank_of b m s \<longleftrightarrow> (\<forall>k. bank_of k = b \<and> view s k \<noteq> None \<longrightarrow> k \<in> fst ` set m)"

definition covers_bank ::
  "('s \<Rightarrow> bytes \<rightharpoonup> bytes) \<Rightarrow> ('t \<Rightarrow> lpm_key \<rightharpoonup> bytes) \<Rightarrow> u8 \<Rightarrow> policy_bank_entries \<Rightarrow>
   ('s, 't, 'c) PolicySynchronizer \<Rightarrow> bool" where
  "covers_bank vh vl b bank s \<longleftrightarrow>
     covered vh key_bank b (bank_identity bank) (identity_map s) \<and>
     covered vh key_bank b (bank_ipv4 bank) (ipv4_map s) \<and>
     covered vl lpm_key_bank b (bank_ipv6 bank) (ipv6_map s) \<and>
     covered vh key_bank b (bank_egress_ipv4 bank) (egress_ipv4_map s) \<and>
     covered vl lpm_key_bank b (bank_egress_ipv6 bank) (egress_ipv6_map s)"

lemma covered_same_off:
  assumes "same_off view bank_of b s t" "covered view bank_of a m s" "a \<noteq> b"
  shows "covered view bank_of a m t"
  using assms unfolding covered_def same_off_def by metis

lemma covers_same_off:
  assumes "same_off_bank vh vl b s t" "covers_bank vh vl a bank s" "a \<noteq> b"
  shows "covers_bank vh vl a bank t"
  using assms unfolding covers_bank_def same_off_bank_def by (blast intro: covered_same_off)

lemma exact_covered:
  assumes "\<And>k. bank_of k = b \<Longrightarrow> view s k = bt_get m k"
  shows "covered view bank_of b m s"
  unfolding covered_def using assms bt_get_eq_None [of m] by metis

lemma holds_covers: "holds_bank vh vl b bank s \<Longrightarrow> covers_bank vh vl b bank s"
  unfolding covers_bank_def holds_bank_def by (intro conjI exact_covered) blast+

text \<open>The fields other than the maps.\<close>

definition same_books :: "('s, 't, 'c) PolicySynchronizer \<Rightarrow> ('s, 't, 'c) PolicySynchronizer \<Rightarrow> bool" where
  "same_books s s' \<longleftrightarrow> sync_config s' = sync_config s \<and> policy_banks s' = policy_banks s \<and>
     active_bank s' = active_bank s \<and> applied_epoch s' = applied_epoch s"

lemma stage_frame:
  assumes "map_contract (hash_ops os) vh" "map_contract (lpm_ops os) vl"
    and "bank_wf b previous" "bank_wf b desired"
  shows "same_off_bank vh vl b s (snd (stage_policy_entries os previous desired s)) \<and>
    same_books s (snd (stage_policy_entries os previous desired s))"
  unfolding stage_policy_entries_def
proof (rule run_calls_frame [where P = "\<lambda>s s'. same_off_bank vh vl b s s' \<and> same_books s s'"],
    goal_cases)
  case (1 c s)
  then show ?case
    using replace_same_off [OF assms(1)] replace_same_off [OF assms(2)] assms(3,4)
    by (auto simp: bank_wf_def split_beta Let_def same_off_bank_def same_books_def)
qed (auto simp: same_off_bank_def same_books_def intro: same_off_trans)

lemma stage_Ok:
  assumes "fst (stage_policy_entries os previous desired s)"
  shows "fst (replace_policy_entries (hash_ops os) (bank_identity previous) (bank_identity desired) (identity_map s))"
    and "fst (replace_policy_entries (hash_ops os) (bank_ipv4 previous) (bank_ipv4 desired) (ipv4_map s))"
    and "fst (replace_policy_entries (lpm_ops os) (bank_ipv6 previous) (bank_ipv6 desired) (ipv6_map s))"
    and "fst (replace_policy_entries (hash_ops os) (bank_egress_ipv4 previous) (bank_egress_ipv4 desired)
      (egress_ipv4_map s))"
    and "fst (replace_policy_entries (lpm_ops os) (bank_egress_ipv6 previous) (bank_egress_ipv6 desired)
      (egress_ipv6_map s))"
    and "snd (stage_policy_entries os previous desired s) = s\<lparr>
      identity_map := snd (replace_policy_entries (hash_ops os) (bank_identity previous) (bank_identity desired)
        (identity_map s)),
      ipv4_map := snd (replace_policy_entries (hash_ops os) (bank_ipv4 previous) (bank_ipv4 desired) (ipv4_map s)),
      ipv6_map := snd (replace_policy_entries (lpm_ops os) (bank_ipv6 previous) (bank_ipv6 desired) (ipv6_map s)),
      egress_ipv4_map := snd (replace_policy_entries (hash_ops os) (bank_egress_ipv4 previous)
        (bank_egress_ipv4 desired) (egress_ipv4_map s)),
      egress_ipv6_map := snd (replace_policy_entries (lpm_ops os) (bank_egress_ipv6 previous)
        (bank_egress_ipv6 desired) (egress_ipv6_map s))\<rparr>"
  using assms by (auto simp: stage_policy_entries_def split_beta Let_def split: if_splits)

lemma rollback_frame:
  assumes "map_contract (hash_ops os) vh" "map_contract (lpm_ops os) vl" "bank_wf b previous"
  shows "same_off_bank vh vl b s (snd (rollback_policy_stages os previous b s)) \<and>
    same_books s (snd (rollback_policy_stages os previous b s))"
  using restore_same_off [OF assms(1)] restore_same_off [OF assms(2)] assms(3)
  by (simp add: rollback_policy_stages_def split_beta Let_def same_off_bank_def same_books_def bank_wf_def)

lemma rollback_holds:
  assumes "map_contract (hash_ops os) vh" "map_contract (lpm_ops os) vl" "bank_wf b previous"
    and "fst (rollback_policy_stages os previous b s)"
  shows "holds_bank vh vl b previous (snd (rollback_policy_stages os previous b s))"
  using restore_view [OF assms(1)] restore_view [OF assms(2)] assms(3,4)
  by (simp add: rollback_policy_stages_def split_beta Let_def holds_bank_def bank_wf_def)

lemma clear_shrinks:
  assumes "map_contract ops view" "view (snd (clear_policy_bank ops entries s)) k \<noteq> None"
  shows "view s k \<noteq> None"
proof -
  have "view (snd (run_calls (removals ops (map fst entries)) s)) k \<noteq> None \<longrightarrow> view s k \<noteq> None"
    by (rule run_calls_frame [where P = "\<lambda>s s'. view s' k \<noteq> None \<longrightarrow> view s k \<noteq> None"])
      (auto simp: contract_views [OF assms(1)] split: if_splits)
  then show ?thesis using assms(2) by (simp add: clear_policy_bank_def)
qed

lemma clear_covered:
  assumes "map_contract ops view" "covered view bank_of b m s"
  shows "covered view bank_of b (if fst (clear_policy_bank ops m s) then [] else m) (snd (clear_policy_bank ops m s))"
proof (cases "fst (clear_policy_bank ops m s)")
  case True
  then have "view (snd (clear_policy_bank ops m s)) k = (if k \<in> fst ` set m then None else view s k)" for k
    using removals_view [OF assms(1), of "map fst m" s k] by (simp add: clear_policy_bank_def)
  then show ?thesis using True assms(2) by (auto simp: covered_def)
next
  case False
  then show ?thesis using assms(2) clear_shrinks [OF assms(1)] unfolding covered_def by fastforce
qed

lemma collect_frame:
  fixes s :: "('s, 't, 'c) PolicySynchronizer"
  assumes "map_contract (hash_ops os) vh" "map_contract (lpm_ops os) vl"
    and "bank_wf b (policy_banks s ! i)" "i < length (policy_banks s)"
  defines "s' \<equiv> collect_old_bank os i s"
  shows "same_off_bank vh vl b s s'" "sync_config s' = sync_config s" "active_bank s' = active_bank s"
    "applied_epoch s' = applied_epoch s" "length (policy_banks s') = length (policy_banks s)"
    "j \<noteq> i \<Longrightarrow> policy_banks s' ! j = policy_banks s ! j" "bank_wf b (policy_banks s' ! i)"
    "covers_bank vh vl b (policy_banks s ! i) s \<Longrightarrow> covers_bank vh vl b (policy_banks s' ! i) s'"
proof -
  show "same_off_bank vh vl b s s'"
    using clear_same_off [OF assms(1)] clear_same_off [OF assms(2)] assms(3)
    by (simp add: s'_def collect_old_bank_def split_beta Let_def same_off_bank_def bank_wf_def)
  show "sync_config s' = sync_config s" "active_bank s' = active_bank s" "applied_epoch s' = applied_epoch s"
    "length (policy_banks s') = length (policy_banks s)" "j \<noteq> i \<Longrightarrow> policy_banks s' ! j = policy_banks s ! j"
    by (simp_all add: s'_def collect_old_bank_def split_beta Let_def)
  show "bank_wf b (policy_banks s' ! i)"
    using assms(3,4) by (simp add: s'_def collect_old_bank_def split_beta Let_def bank_wf_def keys_in_def)
  show "covers_bank vh vl b (policy_banks s' ! i) s'" if "covers_bank vh vl b (policy_banks s ! i) s"
    using that assms(4) clear_covered [OF assms(1)] clear_covered [OF assms(2)]
    by (simp add: s'_def collect_old_bank_def split_beta Let_def covers_bank_def)
qed

lemma staged_holds:
  assumes "map_contract (hash_ops os) vh" "map_contract (lpm_ops os) vl" "bank_wf b desired"
    and "covers_bank vh vl b previous s" "fst (stage_policy_entries os previous desired s)"
  shows "holds_bank vh vl b desired (snd (stage_policy_entries os previous desired s))"
proof -
  note ok = stage_Ok [OF assms(5)]
  have one: "view (snd (replace_policy_entries ops cur des m)) k = bt_get des k"
    if "map_contract ops view" "bt_ok des" "fst (replace_policy_entries ops cur des m)"
      "covered view bank_of b cur m" "bank_of k = b"
    for ops :: "('x, 'k::linorder) map_ops" and view cur des m bank_of k
    using replace_view [OF that(1,2,3), of k] that(4,5)
    by (cases "view m k") (auto simp: covered_def split: if_splits)
  show ?thesis unfolding ok(6) holds_bank_def
    using ok(1-5) one [OF assms(1)] one [OF assms(2)] assms(3,4) unfolding bank_wf_def covers_bank_def
    by simp blast
qed

section \<open>Publishing is atomic\<close>

text \<open>The stages of \<open>apply_policy_entries\<close>: either a rollback of a state that differs from the start in
  the staging bank only, or an activation.\<close>

lemma apply_cases:
  assumes "kernel_contract os vh vl vc"
    and "bank_wf b (policy_banks s ! unat b)" "bank_wf b desired"
    and "apply_policy_entries os desired epoch revision b s = (r, s')"
  obtains
    (rollback) t where "same_off_bank vh vl b s t" "policy_banks t = policy_banks s"
      "active_bank t = active_bank s" "applied_epoch t = applied_epoch s"
      "vc (sync_config t) = vc (sync_config s)"
      "(r, s') = rolled_back (rollback_policy_stages os (policy_banks s ! unat b) b t)"
  | (activate) t c config where "fst (stage_policy_entries os (policy_banks s ! unat b) desired s)"
      "t = snd (stage_policy_entries os (policy_banks s ! unat b) desired s)" "r = Applied"
      "encode_policy_config epoch revision (bank_entry_count desired) b = Ok config" "vc c = config"
      "s' = (let u = t\<lparr>sync_config := c, policy_banks := (policy_banks s)[unat b := desired], active_bank := b\<rparr>
        in if active_bank s \<noteq> b then collect_old_bank os (unat (active_bank s)) u else u)"
proof -
  note k = assms(1) [unfolded kernel_contract_def]
  let ?prev = "policy_banks s ! unat b"
  let ?t = "snd (stage_policy_entries os ?prev desired s)"
  have t: "same_off_bank vh vl b s ?t" "same_books s ?t"
    using stage_frame [of os vh vl b ?prev desired s] k assms(2,3) by auto
  show thesis
  proof (cases "fst (stage_policy_entries os ?prev desired s) \<and> validate_staged os desired ?t")
    case False
    then have "(r, s') = rolled_back (rollback_policy_stages os ?prev b ?t)"
      using assms(4) by (auto simp: apply_policy_entries_def Let_def split_beta split: if_splits)
    then show thesis using t by (intro rollback [of ?t]) (auto simp: same_books_def)
  next
    case True
    show thesis
    proof (cases "encode_policy_config epoch revision (bank_entry_count desired) b")
      case (Inl e)
      then have "(r, s') = rolled_back (rollback_policy_stages os ?prev b ?t)"
        using assms(4) True by (auto simp: apply_policy_entries_def Let_def split_beta)
      then show thesis using t by (intro rollback [of ?t]) (auto simp: same_books_def)
    next
      case (Inr config)
      obtain ok c where c: "config_set os config (sync_config ?t) = (ok, c)" by (cases "config_set os config (sync_config ?t)")
      with k have vc: "vc c = (if ok then config else vc (sync_config ?t))" by blast
      show thesis
      proof (cases ok)
        case False
        then have "(r, s') = rolled_back (rollback_policy_stages os ?prev b (?t\<lparr>sync_config := c\<rparr>))"
          using assms(4) True Inr c by (auto simp: apply_policy_entries_def Let_def split_beta)
        then show thesis using t vc False
          by (intro rollback [of "?t\<lparr>sync_config := c\<rparr>"]) (auto simp: same_books_def same_off_bank_def)
      next
        case ok: True
        show thesis
          by (rule activate [of ?t config c])
            (use assms(4) True Inr c vc ok t in
              \<open>auto simp: apply_policy_entries_def Let_def split_beta same_books_def\<close>)
      qed
    qed
  qed
qed

text \<open>The 32-bit check of the entry count, computed on integers.\<close>

lemma encode_map_config_code [code]:
  "encode_map_config source_epoch revision entry_count schema_version bank bank_count =
     (if bank \<ge> bank_count then Err (InvalidBank bank) else
      if 4294967296 \<le> int entry_count then Err EntryCountOverflow else
      Ok (le_bytes 8 source_epoch @ le_bytes 8 revision @ le_bytes 4 (of_nat entry_count :: u32) @
        le_bytes 2 schema_version @ [bank, 0]))"
  by (simp add: encode_map_config_def)

text \<open>
  A failed publication changes nothing the dataplane reads.  Whatever call fails and however the
  rollback goes, the configuration, the recorded banks and every map entry outside the staging bank
  stay as they were; if the rollback succeeds, the staging bank is restored as well.
\<close>

lemma failed_apply_invisible:
  assumes "kernel_contract os vh vl vc" and "bank_wf b (policy_banks s ! unat b)" and "bank_wf b desired"
    and "apply_policy_entries os desired epoch revision b s = (r, s')" and "r \<noteq> Applied"
  shows "vc (sync_config s') = vc (sync_config s) \<and> same_off_bank vh vl b s s' \<and>
    policy_banks s' = policy_banks s \<and> active_bank s' = active_bank s \<and> applied_epoch s' = applied_epoch s \<and>
    (r = RolledBack \<longrightarrow> holds_bank vh vl b (policy_banks s ! unat b) s')"
  using assms(1-4)
proof (cases rule: apply_cases)
  case (rollback t)
  note k = assms(1) [unfolded kernel_contract_def]
  let ?r = "rollback_policy_stages os (policy_banks s ! unat b) b t"
  have s': "s' = snd ?r" "r = RolledBack \<longleftrightarrow> fst ?r" using rollback(6) by (auto simp: rolled_back_def split: if_splits)
  have "same_off_bank vh vl b t s'" "same_books t s'"
    using rollback_frame [of os vh vl b "policy_banks s ! unat b" t] k assms(2) s' by auto
  moreover have "holds_bank vh vl b (policy_banks s ! unat b) s'" if "r = RolledBack"
    using rollback_holds [of os vh vl b "policy_banks s ! unat b" t] k assms(2) s' that by auto
  ultimately show ?thesis using rollback
    by (auto simp: same_books_def same_off_bank_def intro: same_off_trans)
next
  case (activate t c config)
  then show ?thesis using assms(5) by simp
qed

text \<open>What activation leaves: the staged bank under the new configuration, and the old bank collected.\<close>

lemma activated:
  assumes k: "map_contract (hash_ops os) vh" "map_contract (lpm_ops os) vl"
    and wf: "bank_wf b (policy_banks s ! unat b)" "bank_wf b desired"
      "bank_wf (active_bank s) (policy_banks s ! unat (active_bank s))"
    and cov: "covers_bank vh vl b (policy_banks s ! unat b) s"
    and range: "unat (active_bank s) < length (policy_banks s)" "unat b < length (policy_banks s)"
      "active_bank s \<noteq> b"
    and stage: "fst (stage_policy_entries os (policy_banks s ! unat b) desired s)"
      "t = snd (stage_policy_entries os (policy_banks s ! unat b) desired s)"
    and s': "s' = collect_old_bank os (unat (active_bank s))
      (t\<lparr>sync_config := c, policy_banks := (policy_banks s)[unat b := desired], active_bank := b\<rparr>)"
  shows "holds_bank vh vl b desired s'" "sync_config s' = c" "active_bank s' = b"
    "length (policy_banks s') = length (policy_banks s)" "policy_banks s' ! unat b = desired"
    "bank_wf (active_bank s) (policy_banks s' ! unat (active_bank s))"
    "covers_bank vh vl (active_bank s) (policy_banks s ! unat (active_bank s)) s \<Longrightarrow>
      covers_bank vh vl (active_bank s) (policy_banks s' ! unat (active_bank s)) s'"
proof -
  let ?a = "active_bank s"
  let ?u = "t\<lparr>sync_config := c, policy_banks := (policy_banks s)[unat b := desired], active_bank := b\<rparr>"
  have neq: "unat ?a \<noteq> unat b" using range(3) by (simp add: word_unat_eq_iff)
  have old: "policy_banks ?u ! unat ?a = policy_banks s ! unat ?a" using neq by simp
  have wf_u: "bank_wf ?a (policy_banks ?u ! unat ?a)" "unat ?a < length (policy_banks ?u)"
    using wf(3) range(1) old by simp_all
  note g = collect_frame [OF k wf_u, folded s']
  have "holds_bank vh vl b desired t" using staged_holds [OF k wf(2) cov stage(1)] stage(2) by simp
  then show "holds_bank vh vl b desired s'"
    using g(1) range(3) unfolding holds_bank_def same_off_bank_def same_off_def by simp
  show "sync_config s' = c" "active_bank s' = b" "length (policy_banks s') = length (policy_banks s)"
    using g(2,3,5) by simp_all
  show "policy_banks s' ! unat b = desired" using g(6) [of "unat b"] neq range(2) by simp
  show "bank_wf ?a (policy_banks s' ! unat ?a)" by (rule g(7))
  assume "covers_bank vh vl ?a (policy_banks s ! unat ?a) s"
  moreover have "same_off_bank vh vl b s t" using stage_frame [OF k wf(1,2)] stage(2) by simp
  ultimately have "covers_bank vh vl ?a (policy_banks s ! unat ?a) ?u"
    using covers_same_off [of vh vl b s t ?a] range(3) by (simp add: covers_bank_def)
  then show "covers_bank vh vl ?a (policy_banks s' ! unat ?a) s'" using g(8) old by simp
qed

text \<open>The invariant of the synchronizer: two banks of their own keys, recording every key the maps
  have.\<close>

definition sync_ok ::
  "('s \<Rightarrow> bytes \<rightharpoonup> bytes) \<Rightarrow> ('t \<Rightarrow> lpm_key \<rightharpoonup> bytes) \<Rightarrow> ('s, 't, 'c) PolicySynchronizer \<Rightarrow> bool" where
  "sync_ok vh vl s \<longleftrightarrow> length (policy_banks s) = 2 \<and> active_bank s < POLICY_BANK_COUNT \<and>
     (\<forall>b \<in> {0, 1}. bank_wf b (policy_banks s ! unat b) \<and> covers_bank vh vl b (policy_banks s ! unat b) s)"

lemma two_banks: "b < POLICY_BANK_COUNT \<longleftrightarrow> b = 0 \<or> b = 1"
proof -
  have "unat b < 2 \<longleftrightarrow> unat b = 0 \<or> unat b = 1" by auto
  then show ?thesis by (simp add: POLICY_BANK_COUNT_def word_less_nat_alt word_unat_eq_iff)
qed

text \<open>
  A successful publication installs exactly the snapshot.  From a synchronizer whose records cover
  its maps, activation makes the new configuration current and leaves in the staging bank exactly the
  desired entries, whatever the collection of the old bank did.
\<close>

lemma apply_installs_bank:
  assumes "kernel_contract os vh vl vc" and "sync_ok vh vl s" and "bank_wf b desired"
    and "b < POLICY_BANK_COUNT" and "b \<noteq> active_bank s"
    and "apply_policy_entries os desired epoch revision b s = (Applied, s')"
  shows "encode_policy_config epoch revision (bank_entry_count desired) b = Ok (vc (sync_config s')) \<and>
    active_bank s' = b \<and> policy_banks s' ! unat b = desired \<and> holds_bank vh vl b desired s'"
proof -
  note k = assms(1) [unfolded kernel_contract_def]
  have banks: "active_bank s \<in> {0, 1}" "b \<in> {0, 1}"
    using assms(2,4) by (auto simp: sync_ok_def two_banks)
  have wf: "bank_wf b (policy_banks s ! unat b)" "covers_bank vh vl b (policy_banks s ! unat b) s"
    "bank_wf (active_bank s) (policy_banks s ! unat (active_bank s))"
    and range: "unat (active_bank s) < length (policy_banks s)" "unat b < length (policy_banks s)"
    using assms(2) banks unfolding sync_ok_def by (auto simp del: One_nat_def)
  from assms(1) wf(1) assms(3,6) show ?thesis
  proof (cases rule: apply_cases)
    case (rollback t)
    then show ?thesis by (auto simp: rolled_back_def split: if_splits)
  next
    case (activate t c config)
    then have s': "s' = collect_old_bank os (unat (active_bank s))
      (t\<lparr>sync_config := c, policy_banks := (policy_banks s)[unat b := desired], active_bank := b\<rparr>)"
      using assms(5) by simp
    note a = activated [OF _ _ wf(1) assms(3) wf(3,2) range _ activate(1,2) s']
    show ?thesis using a(1-3,5) k assms(5) activate(4,5) by auto
  qed
qed

text \<open>
  Publication keeps the synchronizer's invariant.  Whatever call fails, the two bank records hold
  keys of their own bank and record every key the maps have, unless a rollback itself failed.
\<close>

lemma apply_keeps_sync_ok:
  assumes "kernel_contract os vh vl vc" and "sync_ok vh vl s" and "bank_wf b desired"
    and "b < POLICY_BANK_COUNT" and "b \<noteq> active_bank s"
    and "apply_policy_entries os desired epoch revision b s = (r, s')" and "r \<noteq> RollbackFailed"
  shows "sync_ok vh vl s'"
proof -
  let ?a = "active_bank s"
  have pair: "{0, 1} = {?a, b}" using assms(2,4,5) by (auto simp: sync_ok_def two_banks)
  note inv = assms(2) [unfolded sync_ok_def pair]
  have range: "unat ?a < length (policy_banks s)" "unat b < length (policy_banks s)"
    using inv assms(4) by (simp_all add: POLICY_BANK_COUNT_def word_less_nat_alt)
  note k = assms(1) [unfolded kernel_contract_def]
  have wf: "bank_wf b (policy_banks s ! unat b)" using inv by simp
  from assms(1) wf assms(3,6) show ?thesis
  proof (cases rule: apply_cases)
    case (rollback t)
    let ?r = "rollback_policy_stages os (policy_banks s ! unat b) b t"
    have s': "s' = snd ?r" "fst ?r" using rollback(6) assms(7) by (auto simp: rolled_back_def split: if_splits)
    have "same_off_bank vh vl b t s'" "same_books t s'" "holds_bank vh vl b (policy_banks s ! unat b) s'"
      using rollback_frame [of os vh vl b "policy_banks s ! unat b" t]
        rollback_holds [of os vh vl b "policy_banks s ! unat b" t] k inv s' by auto
    then show ?thesis using rollback inv assms(5) unfolding sync_ok_def pair same_books_def
      by (auto intro: covers_same_off holds_covers)
  next
    case (activate t c config)
    then have s': "s' = collect_old_bank os (unat ?a)
      (t\<lparr>sync_config := c, policy_banks := (policy_banks s)[unat b := desired], active_bank := b\<rparr>)"
      using assms(5) by simp
    have "bank_wf ?a (policy_banks s ! unat ?a)" "covers_bank vh vl b (policy_banks s ! unat b) s"
      using inv by simp_all
    note a = activated [OF _ _ wf assms(3) this range _ activate(1,2) s']
    show ?thesis using a k inv assms(3,4,5) unfolding sync_ok_def pair by (auto intro: holds_covers)
  qed
qed

end
