(* ===== verification/Tc_Policy.thy ===== *)
theory Tc_Policy
  imports Policy_Banks
begin

text \<open>
  The policy enforcement of the traffic-control program (\<^verbatim>\<open>ebpf/unf-ebpf-tc/src/main.rs\<close>): the policy
  lookups of a packet, the decoding of map values, the combination of both directions and the
  connection table that lets replies of allowed flows pass.  Keys and values are read with the layout
  of their \<^verbatim>\<open>repr(C)\<close> structs in \<^verbatim>\<open>ebpf/unf-ebpf-common/src/lib.rs\<close>.  The kernel maps are not part of the
  sources: their lookups are the fields of \<open>policy_maps\<close>, a parameter of the program.
\<close>

section \<open>Map layouts\<close>

record PolicyMapValue =
  val_policy_id :: u32
  val_rule_id :: u32
  val_shadow_policy_id :: u32
  val_shadow_rule_id :: u32
  val_revision :: u64
  val_schema_version :: u16
  val_flags :: u16
  val_verdict :: u8
  val_reason :: u8
  val_shadow_verdict :: u8
  val_shadow_reason :: u8

definition policy_map_value :: "bytes \<Rightarrow> PolicyMapValue" where
  "policy_map_value raw = \<lparr>val_policy_id = field raw 0 4, val_rule_id = field raw 4 4,
     val_shadow_policy_id = field raw 8 4, val_shadow_rule_id = field raw 12 4,
     val_revision = field raw 16 8, val_schema_version = field raw 24 2, val_flags = field raw 26 2,
     val_verdict = raw ! 28, val_reason = raw ! 29, val_shadow_verdict = raw ! 30,
     val_shadow_reason = raw ! 31\<rparr>"

record PolicyMapConfig =
  cfg_source_epoch :: u64
  cfg_revision :: u64
  cfg_entry_count :: u32
  cfg_schema_version :: u16
  cfg_active_bank :: u8
  cfg_flags :: u8

definition policy_map_config :: "bytes \<Rightarrow> PolicyMapConfig" where
  "policy_map_config raw = \<lparr>cfg_source_epoch = field raw 0 8, cfg_revision = field raw 8 8,
     cfg_entry_count = field raw 16 4, cfg_schema_version = field raw 20 2, cfg_active_bank = raw ! 22,
     cfg_flags = raw ! 23\<rparr>"

definition policy_key :: "u32 \<Rightarrow> u32 \<Rightarrow> bytes \<Rightarrow> u8 \<Rightarrow> u8 \<Rightarrow> bytes" where
  "policy_key source_identity destination_identity destination_port protocol bank =
     le_bytes 4 source_identity @ le_bytes 4 destination_identity @ destination_port @ [protocol, bank]"

definition ipv4_policy_key :: "bytes \<Rightarrow> u32 \<Rightarrow> bytes \<Rightarrow> u8 \<Rightarrow> u8 \<Rightarrow> bytes" where
  "ipv4_policy_key source_address destination_identity destination_port protocol bank =
     source_address @ le_bytes 4 destination_identity @ destination_port @ [protocol, bank]"

definition ipv6_policy_data :: "u32 \<Rightarrow> bytes \<Rightarrow> u8 \<Rightarrow> u8 \<Rightarrow> bytes \<Rightarrow> bytes" where
  "ipv6_policy_data destination_identity destination_port protocol bank source_address =
     le_bytes 4 destination_identity @ destination_port @ [protocol, bank] @ source_address"

definition egress_ipv4_policy_key :: "bytes \<Rightarrow> u32 \<Rightarrow> bytes \<Rightarrow> u8 \<Rightarrow> u8 \<Rightarrow> bytes" where
  "egress_ipv4_policy_key destination_address source_identity destination_port protocol bank =
     destination_address @ le_bytes 4 source_identity @ destination_port @ [protocol, bank]"

definition egress_ipv6_policy_data :: "u32 \<Rightarrow> bytes \<Rightarrow> u8 \<Rightarrow> u8 \<Rightarrow> bytes \<Rightarrow> bytes" where
  "egress_ipv6_policy_data source_identity destination_port protocol bank destination_address =
     le_bytes 4 source_identity @ destination_port @ [protocol, bank] @ destination_address"

text \<open>The kernel lookups of the program.  The last fields say whether the per-CPU scratch slots the
  program asks for are there, which the kernel guarantees for the fixed indices it uses.\<close>

record policy_maps =
  policy_rules_get :: "bytes \<Rightarrow> bytes option"
  policy_ipv4_get :: "bytes \<Rightarrow> bytes option"
  policy_ipv6_get :: "lpm_key \<Rightarrow> bytes option"
  egress_ipv4_get :: "bytes \<Rightarrow> bytes option"
  egress_ipv6_get :: "lpm_key \<Rightarrow> bytes option"
  policy_config_get :: "bytes option"
  direction_scratch :: bool
  decision_scratch :: bool
  connection_scratch :: bool
  event_scratch :: bool
  counter_slot :: bool

section \<open>Decisions\<close>

datatype ReasonCode = Observed | AllowExplicit | DenyExplicit | DenyDefault | IdentityUnknown |
  AllowDefault | AllowEstablished

fun reason_code :: "ReasonCode \<Rightarrow> u8" where
  "reason_code Observed = 0"
| "reason_code AllowExplicit = 1"
| "reason_code DenyExplicit = 2"
| "reason_code DenyDefault = 3"
| "reason_code IdentityUnknown = 4"
| "reason_code AllowDefault = 5"
| "reason_code AllowEstablished = 6"

record DataplaneDecision =
  dd_policy_revision :: u64
  dd_policy_id :: u32
  dd_rule_id :: u32
  dd_shadow_policy_id :: u32
  dd_shadow_rule_id :: u32
  dd_verdict :: Verdict
  dd_reason :: u8
  dd_shadow_verdict :: u8
  dd_shadow_reason :: u8
  dd_direction :: PolicyDirection

definition observed :: "PolicyDirection \<Rightarrow> ReasonCode \<Rightarrow> DataplaneDecision" where
  "observed direction reason = \<lparr>dd_policy_revision = 0, dd_policy_id = 0, dd_rule_id = 0,
     dd_shadow_policy_id = 0, dd_shadow_rule_id = 0, dd_verdict = AllowVerdict,
     dd_reason = reason_code reason, dd_shadow_verdict = verdict_number UnknownVerdict,
     dd_shadow_reason = reason_code Observed, dd_direction = direction\<rparr>"

definition established :: "DataplaneDecision \<Rightarrow> DataplaneDecision" where
  "established denied = \<lparr>dd_policy_revision = dd_policy_revision denied, dd_policy_id = 0,
     dd_rule_id = 0, dd_shadow_policy_id = 0, dd_shadow_rule_id = 0, dd_verdict = AllowVerdict,
     dd_reason = reason_code AllowEstablished, dd_shadow_verdict = verdict_number UnknownVerdict,
     dd_shadow_reason = reason_code Observed, dd_direction = dd_direction denied\<rparr>"

definition active_policy_config :: "policy_maps \<Rightarrow> PolicyMapConfig option" where
  "active_policy_config maps = (case policy_config_get maps of None \<Rightarrow> None
   | Some raw \<Rightarrow> let config = policy_map_config raw in
       if cfg_schema_version config = POLICY_MAP_ABI_VERSION \<and>
          cfg_active_bank config < POLICY_BANK_COUNT \<and> cfg_revision config \<noteq> 0
       then Some config else None)"

definition active_policy_revision :: "policy_maps \<Rightarrow> u64" where
  "active_policy_revision maps = (case active_policy_config maps of None \<Rightarrow> 0
   | Some config \<Rightarrow> cfg_revision config)"

section \<open>Decoding\<close>

definition decode_verdict :: "u8 \<Rightarrow> Verdict option" where
  "decode_verdict v = (if v = 1 then Some AllowVerdict else if v = 2 then Some DenyVerdict else None)"

definition decode_reason :: "u8 \<Rightarrow> Verdict \<Rightarrow> u8 option" where
  "decode_reason v verdict =
     (if verdict = AllowVerdict \<and> v = reason_number NoApplicablePolicy then Some (reason_code Observed)
      else if verdict = AllowVerdict \<and> v = reason_number ExplicitRule then Some (reason_code AllowExplicit)
      else if verdict = DenyVerdict \<and> v = reason_number ExplicitRule then Some (reason_code DenyExplicit)
      else if verdict = AllowVerdict \<and> v = reason_number DefaultAction then Some (reason_code AllowDefault)
      else if verdict = DenyVerdict \<and> v = reason_number DefaultAction then Some (reason_code DenyDefault)
      else None)"

definition valid_provenance :: "u16 \<Rightarrow> u8 \<Rightarrow> bool \<Rightarrow> bool" where
  "valid_provenance flags reason shadow =
     (let (has_policy, has_rule) =
        (if shadow then (flags AND POLICY_FLAG_SHADOW_HAS_POLICY \<noteq> 0, flags AND POLICY_FLAG_SHADOW_HAS_RULE \<noteq> 0)
         else (flags AND POLICY_FLAG_HAS_POLICY \<noteq> 0, flags AND POLICY_FLAG_HAS_RULE \<noteq> 0))
      in if reason = reason_number NoApplicablePolicy then \<not> has_policy \<and> \<not> has_rule
         else if reason = reason_number ExplicitRule then has_policy \<and> has_rule
         else if reason = reason_number DefaultAction then has_policy \<and> \<not> has_rule
         else False)"

definition decode_shadow :: "PolicyMapValue \<Rightarrow> (u8 \<times> u8) option" where
  "decode_shadow v =
     (if val_flags v AND POLICY_FLAG_HAS_SHADOW \<noteq> 0 then
        (case decode_verdict (val_shadow_verdict v) of None \<Rightarrow> None
         | Some shadow_verdict \<Rightarrow>
             (case decode_reason (val_shadow_reason v) shadow_verdict of None \<Rightarrow> None
              | Some shadow_reason \<Rightarrow>
                  if \<not> valid_provenance (val_flags v) (val_shadow_reason v) True then None
                  else Some (verdict_number shadow_verdict, shadow_reason)))
      else Some (verdict_number UnknownVerdict, reason_code Observed))"

definition decode_policy_value :: "PolicyMapValue \<Rightarrow> u64 \<Rightarrow> PolicyDirection \<Rightarrow> DataplaneDecision" where
  "decode_policy_value v revision direction =
     (case decode_verdict (val_verdict v) of None \<Rightarrow> observed direction Observed
      | Some verdict \<Rightarrow>
     (case decode_reason (val_reason v) verdict of None \<Rightarrow> observed direction Observed
      | Some reason \<Rightarrow>
     if \<not> valid_provenance (val_flags v) (val_reason v) False then observed direction Observed else
     (case decode_shadow v of None \<Rightarrow> observed direction Observed
      | Some (shadow_verdict, shadow_reason) \<Rightarrow>
          \<lparr>dd_policy_revision = revision,
           dd_policy_id = (if val_flags v AND POLICY_FLAG_HAS_POLICY \<noteq> 0 then val_policy_id v else 0),
           dd_rule_id = (if val_flags v AND POLICY_FLAG_HAS_RULE \<noteq> 0 then val_rule_id v else 0),
           dd_shadow_policy_id =
             (if val_flags v AND POLICY_FLAG_SHADOW_HAS_POLICY \<noteq> 0 then val_shadow_policy_id v else 0),
           dd_shadow_rule_id =
             (if val_flags v AND POLICY_FLAG_SHADOW_HAS_RULE \<noteq> 0 then val_shadow_rule_id v else 0),
           dd_verdict = verdict, dd_reason = reason, dd_shadow_verdict = shadow_verdict,
           dd_shadow_reason = shadow_reason, dd_direction = direction\<rparr>)))"

section \<open>Lookups\<close>

text \<open>A value counts only under the current layout version and the active revision.\<close>

definition current_value :: "bytes option \<Rightarrow> u64 \<Rightarrow> PolicyMapValue option" where
  "current_value raw revision = (case raw of None \<Rightarrow> None
   | Some raw \<Rightarrow> let v = policy_map_value raw in
       if val_schema_version v = POLICY_MAP_ABI_VERSION \<and> val_revision v = revision then Some v else None)"

definition lookup_policy_value :: "policy_maps \<Rightarrow> bytes \<Rightarrow> u64 \<Rightarrow> PolicyMapValue option" where
  "lookup_policy_value maps key revision = current_value (policy_rules_get maps key) revision"

definition lookup_ipv4_policy_value :: "policy_maps \<Rightarrow> bytes \<Rightarrow> u64 \<Rightarrow> PolicyMapValue option" where
  "lookup_ipv4_policy_value maps key revision = current_value (policy_ipv4_get maps key) revision"

definition lookup_ipv6_policy_value :: "policy_maps \<Rightarrow> bytes \<Rightarrow> u64 \<Rightarrow> PolicyMapValue option" where
  "lookup_ipv6_policy_value maps key revision = current_value (policy_ipv6_get maps (192, key)) revision"

definition lookup_egress_ipv4_policy_value :: "policy_maps \<Rightarrow> bytes \<Rightarrow> u64 \<Rightarrow> PolicyMapValue option" where
  "lookup_egress_ipv4_policy_value maps key revision = current_value (egress_ipv4_get maps key) revision"

definition lookup_egress_ipv6_policy_value :: "policy_maps \<Rightarrow> bytes \<Rightarrow> u64 \<Rightarrow> PolicyMapValue option" where
  "lookup_egress_ipv6_policy_value maps key revision = current_value (egress_ipv6_get maps (192, key)) revision"

text \<open>The seven lookups of an IPv4 source and the four of an IPv6 source.\<close>

definition ingress_ipv4_value ::
  "policy_maps \<Rightarrow> bytes \<Rightarrow> u32 \<Rightarrow> bytes \<Rightarrow> u8 \<Rightarrow> PolicyMapConfig \<Rightarrow> PolicyMapValue option" where
  "ingress_ipv4_value maps source_ipv4 destination_identity destination_port protocol config =
     (let get = \<lambda>address identity port protocol. lookup_ipv4_policy_value maps
            (ipv4_policy_key address identity port protocol (cfg_active_bank config)) (cfg_revision config)
      in or_else (get source_ipv4 0 [0, 0] 0)
        (or_else (get source_ipv4 destination_identity destination_port protocol)
        (or_else (get source_ipv4 destination_identity [0, 0] protocol)
        (or_else (get source_ipv4 destination_identity [0, 0] 0)
        (or_else (get [0, 0, 0, 0] destination_identity destination_port protocol)
        (or_else (get [0, 0, 0, 0] destination_identity [0, 0] protocol)
          (get [0, 0, 0, 0] destination_identity [0, 0] 0)))))))"

definition ingress_ipv6_value ::
  "policy_maps \<Rightarrow> bytes \<Rightarrow> u32 \<Rightarrow> bytes \<Rightarrow> u8 \<Rightarrow> PolicyMapConfig \<Rightarrow> PolicyMapValue option" where
  "ingress_ipv6_value maps source_ipv6 destination_identity destination_port protocol config =
     (let get = \<lambda>identity port protocol. lookup_ipv6_policy_value maps
            (ipv6_policy_data identity port protocol (cfg_active_bank config) source_ipv6) (cfg_revision config)
      in or_else (get 0 [0, 0] 0)
        (or_else (get destination_identity destination_port protocol)
        (or_else (get destination_identity [0, 0] protocol) (get destination_identity [0, 0] 0))))"

definition ingress_identity_value ::
  "policy_maps \<Rightarrow> u32 \<Rightarrow> u32 \<Rightarrow> bytes \<Rightarrow> u8 \<Rightarrow> PolicyMapConfig \<Rightarrow> PolicyMapValue option" where
  "ingress_identity_value maps source_identity destination_identity destination_port protocol config =
     (let get = \<lambda>port protocol. lookup_policy_value maps
            (policy_key source_identity destination_identity port protocol (cfg_active_bank config))
            (cfg_revision config)
      in or_else (get destination_port protocol) (or_else (get [0, 0] protocol) (get [0, 0] 0)))"

definition lookup_ingress_policy ::
  "policy_maps \<Rightarrow> bytes option \<Rightarrow> bytes option \<Rightarrow> u32 \<Rightarrow> u32 \<Rightarrow> bytes \<Rightarrow> u8 \<Rightarrow> PolicyMapConfig \<Rightarrow>
   DataplaneDecision" where
  "lookup_ingress_policy maps source_ipv4 source_ipv6 source_identity destination_identity
     destination_port protocol config =
     (let decode = \<lambda>v. decode_policy_value v (cfg_revision config) Ingress;
          ipv4 = (case source_ipv4 of None \<Rightarrow> None
            | Some a \<Rightarrow> ingress_ipv4_value maps a destination_identity destination_port protocol config);
          ipv6 = (case source_ipv6 of None \<Rightarrow> None
            | Some a \<Rightarrow> ingress_ipv6_value maps a destination_identity destination_port protocol config)
      in if destination_identity = 0 then observed Ingress IdentityUnknown else
         case ipv4 of Some v \<Rightarrow> decode v | None \<Rightarrow>
         (case ipv6 of Some v \<Rightarrow> decode v | None \<Rightarrow>
          if source_identity = 0 then observed Ingress IdentityUnknown else
          (case ingress_identity_value maps source_identity destination_identity destination_port protocol
              config of
             Some v \<Rightarrow> decode v | None \<Rightarrow> observed Ingress Observed)))"

definition egress_ipv4_value ::
  "policy_maps \<Rightarrow> bytes \<Rightarrow> u32 \<Rightarrow> bytes \<Rightarrow> u8 \<Rightarrow> PolicyMapConfig \<Rightarrow> PolicyMapValue option" where
  "egress_ipv4_value maps destination_ipv4 source_identity destination_port protocol config =
     (let get = \<lambda>address identity port protocol. lookup_egress_ipv4_policy_value maps
            (egress_ipv4_policy_key address identity port protocol (cfg_active_bank config)) (cfg_revision config)
      in or_else (get destination_ipv4 0 [0, 0] 0)
        (or_else (get destination_ipv4 source_identity destination_port protocol)
        (or_else (get destination_ipv4 source_identity [0, 0] protocol)
        (or_else (get destination_ipv4 source_identity [0, 0] 0)
        (or_else (get [0, 0, 0, 0] source_identity destination_port protocol)
        (or_else (get [0, 0, 0, 0] source_identity [0, 0] protocol)
          (get [0, 0, 0, 0] source_identity [0, 0] 0)))))))"

definition egress_ipv6_value ::
  "policy_maps \<Rightarrow> bytes \<Rightarrow> u32 \<Rightarrow> bytes \<Rightarrow> u8 \<Rightarrow> PolicyMapConfig \<Rightarrow> PolicyMapValue option" where
  "egress_ipv6_value maps destination_ipv6 source_identity destination_port protocol config =
     (let get = \<lambda>identity port protocol. lookup_egress_ipv6_policy_value maps
            (egress_ipv6_policy_data identity port protocol (cfg_active_bank config) destination_ipv6)
            (cfg_revision config)
      in or_else (get 0 [0, 0] 0)
        (or_else (get source_identity destination_port protocol)
        (or_else (get source_identity [0, 0] protocol) (get source_identity [0, 0] 0))))"

definition lookup_egress_policy ::
  "policy_maps \<Rightarrow> bytes option \<Rightarrow> bytes option \<Rightarrow> u32 \<Rightarrow> bytes \<Rightarrow> u8 \<Rightarrow> PolicyMapConfig \<Rightarrow> DataplaneDecision" where
  "lookup_egress_policy maps destination_ipv4 destination_ipv6 source_identity destination_port protocol
     config =
     (let decode = \<lambda>v. decode_policy_value v (cfg_revision config) Egress;
          ipv4 = (case destination_ipv4 of None \<Rightarrow> None
            | Some a \<Rightarrow> egress_ipv4_value maps a source_identity destination_port protocol config);
          ipv6 = (case destination_ipv6 of None \<Rightarrow> None
            | Some a \<Rightarrow> egress_ipv6_value maps a source_identity destination_port protocol config)
      in if source_identity = 0 then observed Egress IdentityUnknown else
         case ipv4 of Some v \<Rightarrow> decode v | None \<Rightarrow>
         (case ipv6 of Some v \<Rightarrow> decode v | None \<Rightarrow> observed Egress Observed))"

definition decisive_directional_policy ::
  "DataplaneDecision \<Rightarrow> DataplaneDecision \<Rightarrow> DataplaneDecision \<Rightarrow> DataplaneDecision" where
  "decisive_directional_policy ingress egress observed_decision =
     (let has_ingress = dd_policy_revision ingress \<noteq> 0; has_egress = dd_policy_revision egress \<noteq> 0
      in if has_ingress \<and> dd_verdict ingress = DenyVerdict then ingress
         else if has_egress \<and> dd_verdict egress = DenyVerdict then egress
         else if has_ingress then ingress
         else if has_egress then egress
         else observed_decision)"

section \<open>Packets and connections\<close>

datatype AddressFamily = Ipv4 | Ipv6

record FlowObservation =
  obs_source_address :: bytes
  obs_destination_address :: bytes
  obs_source_port :: bytes
  obs_destination_port :: bytes
  obs_source_identity :: u32
  obs_destination_identity :: u32
  obs_direction :: PolicyDirection
  obs_address_family :: AddressFamily
  obs_protocol :: u8
  obs_tcp_flags :: u8
  obs_enforce :: bool

definition observation_policy_decision ::
  "FlowObservation \<Rightarrow> DataplaneDecision \<Rightarrow> DataplaneDecision \<Rightarrow> DataplaneDecision" where
  "observation_policy_decision obs ingress egress =
     (let reason = (if obs_source_identity obs = 0 \<or> obs_destination_identity obs = 0
            then IdentityUnknown else Observed)
      in decisive_directional_policy ingress egress (observed (obs_direction obs) reason))"

definition lookup_ipv4_observation_policy :: "policy_maps \<Rightarrow> FlowObservation \<Rightarrow> DataplaneDecision" where
  "lookup_ipv4_observation_policy maps obs = (case active_policy_config maps of
     None \<Rightarrow> observed (obs_direction obs) Observed
   | Some config \<Rightarrow> if \<not> direction_scratch maps then observed (obs_direction obs) Observed else
       observation_policy_decision obs
       (lookup_ingress_policy maps (Some (take 4 (obs_source_address obs))) None (obs_source_identity obs)
         (obs_destination_identity obs) (obs_destination_port obs) (obs_protocol obs) config)
       (lookup_egress_policy maps (Some (take 4 (obs_destination_address obs))) None
         (obs_source_identity obs) (obs_destination_port obs) (obs_protocol obs) config))"

definition lookup_ipv6_observation_policy :: "policy_maps \<Rightarrow> FlowObservation \<Rightarrow> DataplaneDecision" where
  "lookup_ipv6_observation_policy maps obs = (case active_policy_config maps of
     None \<Rightarrow> observed (obs_direction obs) Observed
   | Some config \<Rightarrow> if \<not> direction_scratch maps then observed (obs_direction obs) Observed else
       observation_policy_decision obs
       (lookup_ingress_policy maps None (Some (obs_source_address obs)) (obs_source_identity obs)
         (obs_destination_identity obs) (obs_destination_port obs) (obs_protocol obs) config)
       (lookup_egress_policy maps None (Some (obs_destination_address obs)) (obs_source_identity obs)
         (obs_destination_port obs) (obs_protocol obs) config))"

definition lookup_observation_policy :: "policy_maps \<Rightarrow> FlowObservation \<Rightarrow> DataplaneDecision" where
  "lookup_observation_policy maps obs = (if obs_address_family obs = Ipv4
     then lookup_ipv4_observation_policy maps obs else lookup_ipv6_observation_policy maps obs)"

record ConnectionKey =
  con_source_address :: bytes
  con_destination_address :: bytes
  con_source_port :: bytes
  con_destination_port :: bytes
  con_protocol :: u8
  con_address_family :: u8
  con_reserved :: bytes

definition reverse :: "ConnectionKey \<Rightarrow> ConnectionKey" where
  "reverse key = \<lparr>con_source_address = con_destination_address key,
     con_destination_address = con_source_address key, con_source_port = con_destination_port key,
     con_destination_port = con_source_port key, con_protocol = con_protocol key,
     con_address_family = con_address_family key, con_reserved = [0, 0]\<rparr>"

record ConnectionState =
  con_last_seen_ns :: u64
  con_policy_revision :: u64

definition CONNECTION_TCP_TIMEOUT_NS :: u64 where
  "CONNECTION_TCP_TIMEOUT_NS = 300000000000"

definition CONNECTION_UDP_TIMEOUT_NS :: u64 where
  "CONNECTION_UDP_TIMEOUT_NS = 30000000000"

definition CONNECTION_SCTP_TIMEOUT_NS :: u64 where
  "CONNECTION_SCTP_TIMEOUT_NS = 60000000000"

definition TCP_FLAG_SYN :: u8 where
  "TCP_FLAG_SYN = 2"

definition TCP_FLAG_ACK :: u8 where
  "TCP_FLAG_ACK = 16"

definition connection_timeout_ns :: "u8 \<Rightarrow> u64 option" where
  "connection_timeout_ns protocol =
     (if protocol = 6 then Some CONNECTION_TCP_TIMEOUT_NS
      else if protocol = 17 then Some CONNECTION_UDP_TIMEOUT_NS
      else if protocol = 132 then Some CONNECTION_SCTP_TIMEOUT_NS else None)"

definition packet_starts_connection :: "u8 \<Rightarrow> u8 \<Rightarrow> bool" where
  "packet_starts_connection protocol tcp_flags =
     (if protocol = 6 then tcp_flags AND TCP_FLAG_SYN \<noteq> 0 \<and> tcp_flags AND TCP_FLAG_ACK = 0
      else protocol = 17 \<or> protocol = 132)"

definition saturating_sub :: "u64 \<Rightarrow> u64 \<Rightarrow> u64" where
  "saturating_sub a b = (if a < b then 0 else a - b)"

definition connection_is_active :: "ConnectionState \<Rightarrow> u64 \<Rightarrow> u64 \<Rightarrow> u8 \<Rightarrow> bool" where
  "connection_is_active state active_revision now_ns protocol =
     (case connection_timeout_ns protocol of None \<Rightarrow> False
      | Some timeout_ns \<Rightarrow> con_policy_revision state \<noteq> 0 \<and> active_revision \<noteq> 0 \<and>
          saturating_sub now_ns (con_last_seen_ns state) \<le> timeout_ns)"

text \<open>The connection table is a kernel map that may drop entries; its calls are parameters, and the
  program ignores whether an update succeeded.\<close>

record 'c connection_ops =
  connection_get :: "ConnectionKey \<Rightarrow> 'c \<Rightarrow> ConnectionState option"
  connection_insert :: "ConnectionKey \<Rightarrow> ConnectionState \<Rightarrow> 'c \<Rightarrow> 'c"
  connection_remove :: "ConnectionKey \<Rightarrow> 'c \<Rightarrow> 'c"

definition refresh_connection ::
  "'c connection_ops \<Rightarrow> ConnectionKey \<Rightarrow> u64 \<Rightarrow> u64 \<Rightarrow> 'c \<Rightarrow> bool \<times> 'c" where
  "refresh_connection ops key policy_revision now_ns connections =
     (case connection_get ops key connections of None \<Rightarrow> (False, connections)
      | Some state \<Rightarrow>
          if \<not> connection_is_active state policy_revision now_ns (con_protocol key)
          then (False, connection_remove ops key connections)
          else (True, connection_insert ops key (state\<lparr>con_last_seen_ns := now_ns\<rparr>) connections))"

fun family_number :: "AddressFamily \<Rightarrow> u8" where
  "family_number Ipv4 = 4"
| "family_number Ipv6 = 6"

definition connection_key :: "FlowObservation \<Rightarrow> ConnectionKey" where
  "connection_key obs = \<lparr>con_source_address = obs_source_address obs,
     con_destination_address = obs_destination_address obs, con_source_port = obs_source_port obs,
     con_destination_port = obs_destination_port obs, con_protocol = obs_protocol obs,
     con_address_family = family_number (obs_address_family obs), con_reserved = [0, 0]\<rparr>"

definition reverse_connection_key :: "FlowObservation \<Rightarrow> ConnectionKey" where
  "reverse_connection_key obs = \<lparr>con_source_address = obs_destination_address obs,
     con_destination_address = obs_source_address obs, con_source_port = obs_destination_port obs,
     con_destination_port = obs_source_port obs, con_protocol = obs_protocol obs,
     con_address_family = family_number (obs_address_family obs), con_reserved = [0, 0]\<rparr>"

definition seed_forwarded_connection ::
  "'c connection_ops \<Rightarrow> ConnectionKey \<Rightarrow> ConnectionKey \<Rightarrow> u64 \<Rightarrow> u64 \<Rightarrow> u8 \<Rightarrow> 'c \<Rightarrow> 'c" where
  "seed_forwarded_connection ops key reverse_key policy_revision now_ns tcp_flags connections =
     (if policy_revision = 0 then connections else
      let (known, connections) = refresh_connection ops key policy_revision now_ns connections in
      if known then connections else
      let (reply, connections) = refresh_connection ops reverse_key policy_revision now_ns connections in
      if reply \<or> \<not> packet_starts_connection (con_protocol key) tcp_flags then connections
      else connection_insert ops key \<lparr>con_last_seen_ns = now_ns, con_policy_revision = policy_revision\<rparr>
        connections)"

record FlowKey =
  fk_source_identity :: u32
  fk_destination_identity :: u32
  fk_source_address :: bytes
  fk_destination_address :: bytes
  fk_source_port :: bytes
  fk_destination_port :: bytes
  fk_protocol :: u8
  fk_address_family :: u8
  fk_reserved :: bytes

record FlowEvent =
  ev_timestamp_ns :: u64
  ev_flow :: FlowKey
  ev_policy_revision :: u64
  ev_policy_id :: u32
  ev_rule_id :: u32
  ev_shadow_policy_id :: u32
  ev_shadow_rule_id :: u32
  ev_interface_index :: u32
  ev_version :: u16
  ev_size :: u16
  ev_verdict :: Verdict
  ev_direction :: u8
  ev_reason :: u8
  ev_shadow_verdict :: u8
  ev_shadow_reason :: u8
  ev_reserved :: bytes

definition FLOW_ABI_VERSION :: u16 where
  "FLOW_ABI_VERSION = 2"

fun direction_number :: "PolicyDirection \<Rightarrow> u8" where
  "direction_number Ingress = 1"
| "direction_number Egress = 2"

definition flow_event :: "FlowObservation \<Rightarrow> DataplaneDecision \<Rightarrow> u64 \<Rightarrow> FlowEvent" where
  "flow_event obs decision timestamp_ns = \<lparr>ev_timestamp_ns = timestamp_ns,
     ev_flow = \<lparr>fk_source_identity = obs_source_identity obs,
       fk_destination_identity = obs_destination_identity obs,
       fk_source_address = obs_source_address obs, fk_destination_address = obs_destination_address obs,
       fk_source_port = obs_source_port obs, fk_destination_port = obs_destination_port obs,
       fk_protocol = obs_protocol obs, fk_address_family = family_number (obs_address_family obs),
       fk_reserved = [0, 0]\<rparr>,
     ev_policy_revision = dd_policy_revision decision, ev_policy_id = dd_policy_id decision,
     ev_rule_id = dd_rule_id decision, ev_shadow_policy_id = dd_shadow_policy_id decision,
     ev_shadow_rule_id = dd_shadow_rule_id decision, ev_interface_index = 0,
     ev_version = FLOW_ABI_VERSION, ev_size = 96, ev_verdict = dd_verdict decision,
     ev_direction = direction_number (dd_direction decision), ev_reason = dd_reason decision,
     ev_shadow_verdict = dd_shadow_verdict decision, ev_shadow_reason = dd_shadow_reason decision,
     ev_reserved = [0, 0, 0]\<rparr>"

datatype tc_action = TC_ACT_PIPE | TC_ACT_SHOT

text \<open>What a packet changes: the connection table, the flow counter and the events it emits.\<close>

record 'c tc_state =
  tc_connections :: 'c
  tc_flow_counter :: u64
  tc_events :: "FlowEvent list"

definition apply_connection_state ::
  "'c connection_ops \<Rightarrow> policy_maps \<Rightarrow> u64 \<Rightarrow> FlowObservation \<Rightarrow> DataplaneDecision \<Rightarrow> 'c \<Rightarrow>
   DataplaneDecision \<times> 'c" where
  "apply_connection_state ops maps timestamp_ns obs decision connections =
     (let policy_revision = active_policy_revision maps in
      if dd_verdict decision = DenyVerdict then
        (let (reply, connections) =
           refresh_connection ops (reverse_connection_key obs) policy_revision timestamp_ns connections
         in (if reply then established decision else decision, connections))
      else
        (let (known, connections) =
           refresh_connection ops (connection_key obs) policy_revision timestamp_ns connections
         in (decision,
             if \<not> known \<and> packet_starts_connection (obs_protocol obs) (obs_tcp_flags obs) \<and> policy_revision \<noteq> 0
             then connection_insert ops (connection_key obs)
               \<lparr>con_last_seen_ns = timestamp_ns, con_policy_revision = policy_revision\<rparr> connections
             else connections)))"

definition emit_flow ::
  "'c connection_ops \<Rightarrow> policy_maps \<Rightarrow> u64 \<Rightarrow> FlowObservation \<Rightarrow> 'c tc_state \<Rightarrow> tc_action \<times> 'c tc_state" where
  "emit_flow ops maps timestamp_ns obs s =
     (if \<not> obs_enforce obs then
        (TC_ACT_PIPE, if \<not> connection_scratch maps then s else
           s\<lparr>tc_connections := seed_forwarded_connection ops (connection_key obs) (reverse_connection_key obs)
               (active_policy_revision maps) timestamp_ns (obs_tcp_flags obs) (tc_connections s)\<rparr>)
      else
        (let s = (if counter_slot maps then s\<lparr>tc_flow_counter := tc_flow_counter s + 1\<rparr> else s) in
         if \<not> decision_scratch maps \<or> \<not> connection_scratch maps then (TC_ACT_SHOT, s)
         else
           (let (decision, connections) = apply_connection_state ops maps timestamp_ns obs
                  (lookup_observation_policy maps obs) (tc_connections s);
                s = s\<lparr>tc_connections := connections\<rparr>;
                s = (if event_scratch maps
                     then s\<lparr>tc_events := tc_events s @ [flow_event obs decision timestamp_ns]\<rparr> else s)
            in (if dd_verdict decision = DenyVerdict then TC_ACT_SHOT else TC_ACT_PIPE, s))))"

section \<open>Decoding undoes encoding\<close>

fun outcome_reason :: "Verdict \<Rightarrow> PolicyReason \<Rightarrow> ReasonCode" where
  "outcome_reason v NoApplicablePolicy = Observed"
| "outcome_reason v ExplicitRule = (if v = DenyVerdict then DenyExplicit else AllowExplicit)"
| "outcome_reason v DefaultAction = (if v = DenyVerdict then DenyDefault else AllowDefault)"

definition id_or_zero :: "u32 option \<Rightarrow> u32" where
  "id_or_zero v = (case v of None \<Rightarrow> 0 | Some n \<Rightarrow> n)"

text \<open>The decision a packet gets when the evaluator's records decide it.\<close>

definition outcome_decision :: "u64 \<Rightarrow> PolicyDirection \<Rightarrow> outcome \<Rightarrow> DataplaneDecision" where
  "outcome_decision revision direction o1 = (case o1 of (d, shadow) \<Rightarrow>
     \<lparr>dd_policy_revision = revision, dd_policy_id = id_or_zero (rec_policy_id d),
      dd_rule_id = id_or_zero (rec_rule_id d),
      dd_shadow_policy_id = id_or_zero (shadow_id rec_policy_id shadow),
      dd_shadow_rule_id = id_or_zero (shadow_id rec_rule_id shadow),
      dd_verdict = rec_verdict d, dd_reason = reason_code (outcome_reason (rec_verdict d) (rec_reason d)),
      dd_shadow_verdict = (case shadow of None \<Rightarrow> 0 | Some s \<Rightarrow> verdict_number (rec_verdict s)),
      dd_shadow_reason = (case shadow of None \<Rightarrow> 0
        | Some s \<Rightarrow> reason_code (outcome_reason (rec_verdict s) (rec_reason s))),
      dd_direction = direction\<rparr>)"

lemma of_id_bytes: "of_le_bytes (id_bytes v) = id_or_zero v"
  by (auto simp: id_bytes_def id_or_zero_def of_le_bytes_le_bytes split: option.split)

lemma encoded_value:
  "policy_map_value (encode_policy_decisions d shadow revision) =
     \<lparr>val_policy_id = id_or_zero (rec_policy_id d), val_rule_id = id_or_zero (rec_rule_id d),
      val_shadow_policy_id = id_or_zero (shadow_id rec_policy_id shadow),
      val_shadow_rule_id = id_or_zero (shadow_id rec_rule_id shadow), val_revision = revision,
      val_schema_version = POLICY_MAP_ABI_VERSION, val_flags = decision_flags d shadow,
      val_verdict = verdict_number (rec_verdict d), val_reason = reason_number (rec_reason d),
      val_shadow_verdict = shadow_byte (verdict_number \<circ> rec_verdict) shadow,
      val_shadow_reason = shadow_byte (reason_number \<circ> rec_reason) shadow\<rparr>"
  using encoded_fields [of d shadow revision]
  by (simp add: policy_map_value_def field_def of_id_bytes)

lemma decode_verdict_reason:
  assumes "validate_policy_decision r = Ok ()"
  shows "decode_verdict (verdict_number (rec_verdict r)) = Some (rec_verdict r)"
    and "decode_reason (reason_number (rec_reason r)) (rec_verdict r) =
      (if record_ok r then Some (reason_code (outcome_reason (rec_verdict r) (rec_reason r))) else None)"
  using assms
  by (cases "rec_verdict r"; cases "rec_reason r";
      simp add: decode_verdict_def decode_reason_def validate_decision_Ok record_ok_def)+

lemma encoded_provenance:
  "validate_policy_decision d = Ok () \<Longrightarrow> valid_provenance (decision_flags d s) (reason_number (rec_reason d)) False"
  "validate_policy_decision r = Ok () \<Longrightarrow>
     valid_provenance (decision_flags d (Some r)) (reason_number (rec_reason r)) True"
  by (cases "rec_reason d"; cases "rec_reason r";
      simp add: valid_provenance_def validate_decision_Ok decision_flags_tests shadow_id_def)+

lemma decode_encoded:
  assumes "validate_policy_decision d = Ok ()" "\<forall>s \<in> set_option shadow. validate_policy_decision s = Ok ()"
  shows "decode_policy_value (policy_map_value (encode_policy_decisions d shadow revision)) revision direction =
    (if record_ok d \<and> (\<forall>s \<in> set_option shadow. record_ok s) then outcome_decision revision direction (d, shadow)
     else observed direction Observed)"
  using assms
  by (cases shadow)
    (simp_all add: decode_policy_value_def decode_shadow_def encoded_value decode_verdict_reason
      encoded_provenance decision_flags_tests outcome_decision_def id_or_zero_def shadow_byte_def shadow_id_def
      split: option.split)

text \<open>A denial that names no policy.\<close>

definition unprovenanced_deny :: PolicyDecisionRecord where
  "unprovenanced_deny = \<lparr>rec_verdict = DenyVerdict, rec_reason = NoApplicablePolicy, rec_policy_id = None, rec_rule_id = None\<rparr>"

text \<open>
  C36: a denial without a policy is accepted, then ignored.  The agent's checks accept a decision that
  denies because no policy applies; the program decodes its value as an allowed observation, and a
  restarted agent refuses to recover it, at every revision and in both directions.
\<close>

theorem unprovenanced_deny_ignored:
  "validate_policy_decision unprovenanced_deny = Ok () \<and>
   validate_recovered_policy_value (encode_policy_decisions unprovenanced_deny None revision) \<noteq> Ok () \<and>
   dd_verdict (decode_policy_value (policy_map_value (encode_policy_decisions unprovenanced_deny None revision)) revision direction) =
     AllowVerdict"
proof -
  have v: "validate_policy_decision unprovenanced_deny = Ok ()" by (simp add: unprovenanced_deny_def validate_decision_Ok)
  have "\<not> record_ok unprovenanced_deny" by (simp add: record_ok_def unprovenanced_deny_def)
  moreover have "validate_recovered_policy_value (encode_policy_decisions unprovenanced_deny None revision) \<noteq> Ok ()"
  proof (cases "revision = 0")
    case True
    then show ?thesis by (simp add: validate_recovered_policy_value_def Let_def encoded_fields)
  next
    case False
    then show ?thesis using recovery_accepts_encoded [OF v, of None revision] calculation by simp
  qed
  ultimately show ?thesis using v decode_encoded [OF v, of None revision direction] by (simp add: observed_def)
qed

end
