(* ===== verification/Tc_Connections.thy ===== *)
theory Tc_Connections
  imports Tc_Policy
begin

text \<open>
  The connection table of the traffic-control program: which packets policy drops, that replies of
  allowed flows pass, and that nothing else does.  The table is a kernel map with eviction; what the
  program relies on is stated by \<open>connection_contract\<close>.
\<close>

section \<open>The table\<close>

text \<open>A lookup reads the table; an insertion or a removal never makes up entries.\<close>

definition connection_contract :: "'c connection_ops \<Rightarrow> ('c \<Rightarrow> ConnectionKey \<rightharpoonup> ConnectionState) \<Rightarrow> bool" where
  "connection_contract ops view \<longleftrightarrow>
     (\<forall>k c. connection_get ops k c = view c k) \<and>
     (\<forall>k v c k' v'. view (connection_insert ops k v c) k' = Some v' \<longrightarrow> k' = k \<and> v' = v \<or> view c k' = Some v') \<and>
     (\<forall>k c k' v'. view (connection_remove ops k c) k' = Some v' \<longrightarrow> view c k' = Some v')"

lemma connection_contractD:
  assumes "connection_contract ops view"
  shows "connection_get ops k c = view c k"
    and "view (connection_insert ops k v c) k' = Some v' \<Longrightarrow> k' = k \<and> v' = v \<or> view c k' = Some v'"
    and "view (connection_remove ops k c) k' = Some v' \<Longrightarrow> view c k' = Some v'"
  using assms unfolding connection_contract_def by blast+

text \<open>The keys with an active entry.\<close>

definition active_entry :: "('c \<Rightarrow> ConnectionKey \<rightharpoonup> ConnectionState) \<Rightarrow> 'c \<Rightarrow> ConnectionKey \<Rightarrow> u64 \<Rightarrow> u64 \<Rightarrow> bool" where
  "active_entry view c key revision now_ns \<longleftrightarrow>
     (\<exists>st. view c key = Some st \<and> connection_is_active st revision now_ns (con_protocol key))"

lemma refresh_connection_active:
  assumes "connection_contract ops view"
  shows "fst (refresh_connection ops key revision now_ns c) \<longleftrightarrow> active_entry view c key revision now_ns"
  by (auto simp: refresh_connection_def active_entry_def connection_contractD(1) [OF assms] split: option.splits)

text \<open>Refreshing keeps the keys of the table.\<close>

lemma refresh_connection_keys:
  assumes "connection_contract ops view" "view (snd (refresh_connection ops key revision now_ns c)) k \<noteq> None"
  shows "view c k \<noteq> None"
proof (cases "connection_get ops key c")
  case None
  then show ?thesis using assms(2) by (simp add: refresh_connection_def)
next
  case (Some st)
  then have key: "view c key \<noteq> None" using connection_contractD(1) [OF assms(1)] by simp
  from assms(2) obtain v where v: "view (snd (refresh_connection ops key revision now_ns c)) k = Some v" by auto
  show ?thesis
  proof (cases "connection_is_active st revision now_ns (con_protocol key)")
    case True
    then show ?thesis
      using v Some key connection_contractD(2) [OF assms(1), of key "st\<lparr>con_last_seen_ns := now_ns\<rparr>" c k v]
      by (auto simp: refresh_connection_def)
  next
    case False
    then show ?thesis using v Some connection_contractD(3) [OF assms(1), of key c k v]
      by (simp add: refresh_connection_def)
  qed
qed

lemma established_verdict [simp]: "dd_verdict (established d) = AllowVerdict"
  by (simp add: established_def)

text \<open>
  C20: the packets policy drops.  With its scratch slots present, an enforcing hook drops a packet
  exactly when the policy decision denies it and the table has no active entry of the reverse flow.
\<close>

theorem emit_flow_drops:
  assumes "connection_contract ops view" and "obs_enforce obs" and "decision_scratch maps" and "connection_scratch maps"
  shows "fst (emit_flow ops maps now_ns obs s) = TC_ACT_SHOT \<longleftrightarrow>
    dd_verdict (lookup_observation_policy maps obs) = DenyVerdict \<and>
    \<not> active_entry view (tc_connections s) (reverse_connection_key obs) (active_policy_revision maps) now_ns"
  using assms(2-4)
    refresh_connection_active [OF assms(1), of "reverse_connection_key obs" "active_policy_revision maps" now_ns
      "tc_connections s"]
  by (simp add: emit_flow_def apply_connection_state_def Let_def split_beta)

section \<open>Traces\<close>

text \<open>A packet as a hook sees it: the policy maps at that time, the clock and the observation.\<close>

type_synonym packet = "policy_maps \<times> u64 \<times> FlowObservation"

definition handle :: "'c connection_ops \<Rightarrow> 'c tc_state \<Rightarrow> packet \<Rightarrow> 'c tc_state" where
  "handle ops s pkt = (case pkt of (maps, now_ns, obs) \<Rightarrow> snd (emit_flow ops maps now_ns obs s))"

text \<open>A packet that may open a connection: it starts one, and policy did not deny it.\<close>

definition opens :: "packet \<Rightarrow> bool" where
  "opens pkt = (case pkt of (maps, now_ns, obs) \<Rightarrow>
     packet_starts_connection (obs_protocol obs) (obs_tcp_flags obs) \<and> active_policy_revision maps \<noteq> 0 \<and>
     (obs_enforce obs \<longrightarrow> dd_verdict (lookup_observation_policy maps obs) \<noteq> DenyVerdict))"

text \<open>A table without eviction, and maps that deny one direction of a pair of identities.\<close>

definition list_connections :: "(ConnectionKey \<times> ConnectionState) list connection_ops" where
  "list_connections = \<lparr>connection_get = (\<lambda>k c. map_of c k), connection_insert = (\<lambda>k v c. (k, v) # c),
     connection_remove = (\<lambda>k c. filter (\<lambda>e. fst e \<noteq> k) c)\<rparr>"

lemma list_connections_contract: "connection_contract list_connections map_of"
proof -
  have "map_of (filter (\<lambda>e. fst e \<noteq> k) c) = (map_of c)(k := None)" for k and c :: "(ConnectionKey \<times> ConnectionState) list"
    by (rule map_of_filter_key)
  then show ?thesis by (auto simp: connection_contract_def list_connections_def split: if_splits)
qed

definition one_way_maps :: policy_maps where
  "one_way_maps = \<lparr>
     policy_rules_get = (\<lambda>k. if k = policy_key 2 1 [0, 0] 0 1 then Some (encode_policy_decisions
       \<lparr>rec_verdict = DenyVerdict, rec_reason = DefaultAction, rec_policy_id = Some 7, rec_rule_id = None\<rparr> None 3)
       else None),
     policy_ipv4_get = (\<lambda>k. None), policy_ipv6_get = (\<lambda>k. None), egress_ipv4_get = (\<lambda>k. None),
     egress_ipv6_get = (\<lambda>k. None),
     policy_config_get = Some (le_bytes 8 (9 :: u64) @ le_bytes 8 (3 :: u64) @ le_bytes 4 (1 :: u32) @
       le_bytes 2 POLICY_MAP_ABI_VERSION @ [1, 0]),
     direction_scratch = True, decision_scratch = True, connection_scratch = True, event_scratch = True,
     counter_slot = True\<rparr>"

definition udp_packet :: "u32 \<Rightarrow> u32 \<Rightarrow> FlowObservation" where
  "udp_packet i j = \<lparr>obs_source_address = replicate 16 (ucast i), obs_destination_address = replicate 16 (ucast j),
     obs_source_port = [0, ucast i], obs_destination_port = [0, ucast j], obs_source_identity = i,
     obs_destination_identity = j, obs_direction = Ingress, obs_address_family = Ipv4, obs_protocol = 17,
     obs_tcp_flags = 0, obs_enforce = True\<rparr>"

definition empty_tc :: "(ConnectionKey \<times> ConnectionState) list tc_state" where
  "empty_tc = \<lparr>tc_connections = [], tc_flow_counter = 0, tc_events = []\<rparr>"

lemma one_way_maps_scratch [simp]: "decision_scratch one_way_maps" "connection_scratch one_way_maps"
  by (simp_all add: one_way_maps_def)

lemma one_way_decisions:
  "dd_verdict (lookup_observation_policy one_way_maps (udp_packet 2 1)) = DenyVerdict"
  "opens (one_way_maps, 100, udp_packet 1 2)"
  by code_simp+

theorem emit_flow_drops_witness:
  "fst (emit_flow list_connections one_way_maps 100 (udp_packet 2 1) empty_tc) = TC_ACT_SHOT"
  using emit_flow_drops [OF list_connections_contract, of "udp_packet 2 1" one_way_maps 100 empty_tc] one_way_decisions(1)
  by (simp add: active_entry_def empty_tc_def udp_packet_def)

definition justified :: "packet set \<Rightarrow> ('c \<Rightarrow> ConnectionKey \<rightharpoonup> ConnectionState) \<Rightarrow> 'c \<Rightarrow> bool" where
  "justified seen view c \<longleftrightarrow>
     (\<forall>key. view c key \<noteq> None \<longrightarrow> (\<exists>(maps, now_ns, obs) \<in> seen. opens (maps, now_ns, obs) \<and> connection_key obs = key))"

lemma justified_refresh:
  assumes "connection_contract ops view" "justified seen view c"
  shows "justified seen view (snd (refresh_connection ops key revision now_ns c))"
  using assms refresh_connection_keys [OF assms(1)] unfolding justified_def by blast

lemma justified_insert:
  assumes "connection_contract ops view" "justified seen view c" "(maps, now_ns, obs) \<in> seen" "opens (maps, now_ns, obs)"
  shows "justified seen view (connection_insert ops (connection_key obs) st c)"
  unfolding justified_def
proof (intro allI impI)
  fix key assume "view (connection_insert ops (connection_key obs) st c) key \<noteq> None"
  then obtain v where "view (connection_insert ops (connection_key obs) st c) key = Some v" by auto
  from connection_contractD(2) [OF assms(1) this] have "key = connection_key obs \<or> view c key \<noteq> None" by auto
  then show "\<exists>(maps, now_ns, obs) \<in> seen. opens (maps, now_ns, obs) \<and> connection_key obs = key"
    using assms(2-4) unfolding justified_def by blast
qed

lemma justified_mono: "justified seen view c \<Longrightarrow> seen \<subseteq> seen' \<Longrightarrow> justified seen' view c"
  unfolding justified_def by blast

lemma connection_key_protocol [simp]: "con_protocol (connection_key obs) = obs_protocol obs"
  by (simp add: connection_key_def)

lemma justified_handle:
  assumes "connection_contract ops view" "justified seen view (tc_connections s)" "pkt \<in> seen"
  shows "justified seen view (tc_connections (handle ops s pkt))"
proof -
  obtain maps now_ns obs where pkt: "pkt = (maps, now_ns, obs)" by (cases pkt)
  note refresh = justified_refresh [OF assms(1)]
  note insert = justified_insert [OF assms(1) _ assms(3) [unfolded pkt]]
  show ?thesis
  proof (cases "obs_enforce obs")
    case False
    then show ?thesis using assms(2)
      by (auto simp: handle_def pkt emit_flow_def seed_forwarded_connection_def Let_def split_beta opens_def
          intro!: refresh insert)
  next
    case True
    then show ?thesis using assms(2)
      by (auto simp: handle_def pkt emit_flow_def apply_connection_state_def Let_def split_beta opens_def
          intro!: refresh insert)
  qed
qed

lemma justified_trace:
  assumes "connection_contract ops view" "justified seen view (tc_connections s)"
  shows "justified (seen \<union> set trace) view (tc_connections (foldl (handle ops) s trace))"
  using assms(2)
proof (induction trace arbitrary: seen s)
  case (Cons pkt trace)
  have "justified (insert pkt seen) view (tc_connections (handle ops s pkt))"
    by (rule justified_handle [OF assms(1) justified_mono [OF Cons.prems]]) auto
  from Cons.IH [OF this] show ?case by simp
qed simp



section \<open>Replies\<close>

text \<open>After an opening packet, the table has a fresh entry of its flow.\<close>

lemma opened_entry:
  assumes "connection_contract ops view" and keep: "\<And>k v c. view (connection_insert ops k v c) k = Some v"
    and "opens (maps, now_ns, obs)" "obs_enforce obs" "decision_scratch maps" "connection_scratch maps"
  shows "\<exists>st. view (tc_connections (handle ops s (maps, now_ns, obs))) (connection_key obs) = Some st \<and>
    con_last_seen_ns st = now_ns \<and> con_policy_revision st \<noteq> 0"
proof -
  let ?key = "connection_key obs" and ?rev = "active_policy_revision maps"
  let ?r = "refresh_connection ops ?key ?rev now_ns (tc_connections s)"
  have starts: "packet_starts_connection (obs_protocol obs) (obs_tcp_flags obs)" "?rev \<noteq> 0"
    "dd_verdict (lookup_observation_policy maps obs) \<noteq> DenyVerdict"
    using assms(3,4) by (auto simp: opens_def)
  have c: "tc_connections (handle ops s (maps, now_ns, obs)) = (if fst ?r then snd ?r else
      connection_insert ops ?key \<lparr>con_last_seen_ns = now_ns, con_policy_revision = ?rev\<rparr> (snd ?r))"
    using starts assms(4-6)
    by (simp add: handle_def emit_flow_def apply_connection_state_def Let_def split_beta)
  show ?thesis
  proof (cases "fst ?r")
    case True
    then obtain st where st: "connection_get ops ?key (tc_connections s) = Some st"
      "connection_is_active st ?rev now_ns (con_protocol ?key)"
      by (auto simp: refresh_connection_def split: option.splits if_splits)
    then have "snd ?r = connection_insert ops ?key (st\<lparr>con_last_seen_ns := now_ns\<rparr>) (tc_connections s)"
      by (simp add: refresh_connection_def)
    then show ?thesis using True st(2) by (simp add: c keep connection_is_active_def split: option.splits)
  qed (simp add: c keep starts)
qed

text \<open>
  C22: replies of allowed flows pass.  If the table keeps what is inserted, then after an enforced packet
  that opens a connection, a packet of the reverse flow within the protocol's timeout passes the
  hook, whatever the policy in force by then says of it, as long as one is active.
\<close>

theorem reply_passes:
  assumes "connection_contract ops view" and "\<And>k v c. view (connection_insert ops k v c) k = Some v"
    and "opens (maps, t0, obs)" and "obs_enforce obs" and "decision_scratch maps" and "connection_scratch maps"
    and "reverse_connection_key reply = connection_key obs" and "connection_timeout_ns (obs_protocol obs) = Some timeout_ns"
    and "t0 \<le> t1" and "t1 - t0 \<le> timeout_ns" and "active_policy_revision maps' \<noteq> 0"
    and "decision_scratch maps'" and "connection_scratch maps'"
  shows "fst (emit_flow ops maps' t1 reply (handle ops s (maps, t0, obs))) = TC_ACT_PIPE"
proof -
  let ?c = "tc_connections (handle ops s (maps, t0, obs))"
  obtain st where "view ?c (connection_key obs) = Some st" "con_last_seen_ns st = t0" "con_policy_revision st \<noteq> 0"
    using opened_entry [OF assms(1-6)] by blast
  then have "active_entry view ?c (reverse_connection_key reply) (active_policy_revision maps') t1"
    using assms(7-11) by (simp add: active_entry_def connection_is_active_def saturating_sub_def)
  then show ?thesis
    using assms(12,13) refresh_connection_active [OF assms(1), of "reverse_connection_key reply"
        "active_policy_revision maps'" t1 ?c]
    by (simp add: emit_flow_def apply_connection_state_def Let_def split_beta)
qed

theorem reply_passes_witness:
  "fst (emit_flow list_connections one_way_maps 200 (udp_packet 2 1)
     (handle list_connections empty_tc (one_way_maps, 100, udp_packet 1 2))) = TC_ACT_PIPE"
proof (rule reply_passes [OF list_connections_contract])
  show "active_policy_revision one_way_maps \<noteq> 0" by code_simp
  show "connection_timeout_ns (obs_protocol (udp_packet 1 2)) = Some CONNECTION_UDP_TIMEOUT_NS"
    by (simp add: udp_packet_def connection_timeout_ns_def)
  show "200 - 100 \<le> CONNECTION_UDP_TIMEOUT_NS" by (simp add: CONNECTION_UDP_TIMEOUT_NS_def)
  show "reverse_connection_key (udp_packet 2 1) = connection_key (udp_packet 1 2)"
    by (simp add: reverse_connection_key_def connection_key_def udp_packet_def)
  show "opens (one_way_maps, 100, udp_packet 1 2)" by (rule one_way_decisions)
  show "obs_enforce (udp_packet 1 2)" by (simp add: udp_packet_def)
qed (simp_all add: list_connections_def)

end
