(* ===== verification/Policy_Snapshot.thy ===== *)
theory Policy_Snapshot
  imports Policy_Prefixes Ipam
begin

text \<open>
  The policy snapshot of the controller (\<^verbatim>\<open>bins/unf-controller/src/main.rs\<close>): the endpoints it derives
  from its pods and gateways, the five compiled entry lists, and the rows it adds for host-network
  pods, for node traffic and for replies to host-network gateways.  The state is the part of
  \<^verbatim>\<open>ControllerState\<close> the snapshot reads, and the cache it keeps.
\<close>

section \<open>State\<close>

record PodRecord =
  pod_namespace :: string
  pod_name :: string
  pod_uid :: string
  pod_node_name :: "string option"
  pod_host_network :: bool
  pod_endpoint :: Endpoint
  pod_ipv4_addresses :: "u32 list"
  pod_ipv6_addresses :: "u128 list"

record HostNetworkGateways =
  gateway_ipv4 :: "u32 list"
  gateway_ipv6 :: "u128 list"

type_synonym NodeTransport = "u32 \<times> u128"

record AssignedNodeBlock =
  node_uid :: string
  node_provider :: NodeBlockProvider
  node_revision :: u64
  node_transport :: "(string, NodeTransport) res"

record dataplane_policy =
  dp_revision :: u64
  dp_entries :: "PolicyMapEntry list"
  dp_ipv4_entries :: "Ipv4PolicyMapEntry list"
  dp_ipv6_entries :: "Ipv6PolicyMapEntry list"
  dp_egress_ipv4_entries :: "EgressIpv4PolicyMapEntry list"
  dp_egress_ipv6_entries :: "EgressIpv6PolicyMapEntry list"

record controller_state =
  ctl_policy_revision :: u64
  ctl_pods :: "(string, PodRecord) btree"
  ctl_namespaces :: "(string, labels) btree"
  ctl_host_network_gateways :: "(string, HostNetworkGateways) btree"
  ctl_node_blocks :: "(string, AssignedNodeBlock) btree"
  ctl_security_policies :: "(string, PolicyIr) btree"
  ctl_network_policies :: "(string, PolicyIr list) btree"
  ctl_policy_cache :: "dataplane_policy option"

datatype ApiError = CompileFailed DataplaneCompileError | PolicyEntryLimit

section \<open>Endpoints and policies\<close>

definition HOST_NETWORK_NAMESPACE :: string where
  "HOST_NETWORK_NAMESPACE = ''openshift-host-network''"

definition endpoint_with_namespace_labels :: "Endpoint \<Rightarrow> (string, labels) btree \<Rightarrow> Endpoint" where
  "endpoint_with_namespace_labels endpoint namespaces = endpoint\<lparr>ep_namespace_labels :=
     (case bt_get namespaces (ep_namespace endpoint) of Some labels \<Rightarrow> labels
      | None \<Rightarrow> [(''kubernetes.io/metadata.name'', ep_namespace endpoint)])\<rparr>"

definition endpoints_with_namespace_labels :: "controller_state \<Rightarrow> Endpoint list" where
  "endpoints_with_namespace_labels state =
     map (\<lambda>pod. endpoint_with_namespace_labels (pod_endpoint pod) (ctl_namespaces state))
       (bt_values (ctl_pods state))"

definition host_network_gateway_endpoint :: "(string, labels) btree \<Rightarrow> Endpoint" where
  "host_network_gateway_endpoint namespaces = endpoint_with_namespace_labels
     \<lparr>ep_identity = - 1, ep_namespace = HOST_NETWORK_NAMESPACE, ep_namespace_labels = [],
      ep_service_account = [], ep_application = None, ep_labels = [], ep_named_ports = []\<rparr> namespaces"

definition ipv4_endpoints_with_namespace_labels :: "controller_state \<Rightarrow> Ipv4Endpoint list" where
  "ipv4_endpoints_with_namespace_labels state =
     concat (map (\<lambda>pod. map (\<lambda>address. \<lparr>ep4_address = address, ep4_endpoint =
            endpoint_with_namespace_labels (pod_endpoint pod) (ctl_namespaces state)\<rparr>)
         (pod_ipv4_addresses pod))
       (filter (\<lambda>pod. \<not> pod_host_network pod) (bt_values (ctl_pods state)))) @
     map (\<lambda>address. \<lparr>ep4_address = address, ep4_endpoint =
         host_network_gateway_endpoint (ctl_namespaces state)\<rparr>)
       (concat (map gateway_ipv4 (bt_values (ctl_host_network_gateways state))))"

definition ipv6_endpoints_with_namespace_labels :: "controller_state \<Rightarrow> Ipv6Endpoint list" where
  "ipv6_endpoints_with_namespace_labels state =
     concat (map (\<lambda>pod. map (\<lambda>address. \<lparr>ep6_address = address, ep6_endpoint =
            endpoint_with_namespace_labels (pod_endpoint pod) (ctl_namespaces state)\<rparr>)
         (pod_ipv6_addresses pod))
       (filter (\<lambda>pod. \<not> pod_host_network pod) (bt_values (ctl_pods state)))) @
     map (\<lambda>address. \<lparr>ep6_address = address, ep6_endpoint =
         host_network_gateway_endpoint (ctl_namespaces state)\<rparr>)
       (concat (map gateway_ipv6 (bt_values (ctl_host_network_gateways state))))"

definition compiled_policies :: "controller_state \<Rightarrow> PolicyIr list" where
  "compiled_policies state =
     bt_values (ctl_security_policies state) @ concat (bt_values (ctl_network_policies state))"

section \<open>Added rows\<close>

primrec update_entry :: "'k policy_entry \<Rightarrow> 'k policy_entry list \<Rightarrow> 'k policy_entry list" where
  "update_entry entry [] = []"
| "update_entry entry (e # es) = (if entry_key e = entry_key entry then entry # es else e # update_entry entry es)"

definition push_compatibility_entry ::
  "'k policy_entry list \<Rightarrow> 'k policy_entry \<Rightarrow> (ApiError, 'k policy_entry list) res" where
  "push_compatibility_entry entries entry =
     (if length entries \<ge> POLICY_MAP_BANK_ENTRY_LIMIT then Err PolicyEntryLimit else Ok (entries @ [entry]))"

definition merge_host_network_entry ::
  "'k policy_entry list \<Rightarrow> 'k policy_entry \<Rightarrow> (ApiError, 'k policy_entry list) res" where
  "merge_host_network_entry entries entry =
     (case find (\<lambda>e. entry_key e = entry_key entry) entries of
        Some existing \<Rightarrow>
          Ok (if rec_verdict (entry_decision entry) = AllowVerdict \<and>
                rec_verdict (entry_decision existing) \<noteq> AllowVerdict
              then update_entry entry entries else entries)
      | None \<Rightarrow> push_compatibility_entry entries entry)"

definition upsert_egress_entry ::
  "'k policy_entry list \<Rightarrow> 'k policy_entry \<Rightarrow> (ApiError, 'k policy_entry list) res" where
  "upsert_egress_entry entries entry =
     (case find (\<lambda>e. entry_key e = entry_key entry) entries of
        Some _ \<Rightarrow> Ok (update_entry entry entries)
      | None \<Rightarrow> push_compatibility_entry entries entry)"

definition map_compile_error :: "(DataplaneCompileError, 'a) res \<Rightarrow> (ApiError, 'a) res" where
  "map_compile_error r = (case r of Err e \<Rightarrow> Err (CompileFailed e) | Ok v \<Rightarrow> Ok v)"

definition merge_host_address4 ::
  "PolicyIr list \<Rightarrow> Endpoint list \<Rightarrow> Endpoint \<Rightarrow> Ipv4PolicyMapEntry list \<Rightarrow> u32 \<Rightarrow>
   (ApiError, Ipv4PolicyMapEntry list) res" where
  "merge_host_address4 ingress_policies endpoints endpoint entries address =
     rbind (map_compile_error (compile_ipv4_dataplane_entries ingress_policies endpoints
       [\<lparr>ep4_address = address, ep4_endpoint = endpoint\<rparr>])) (\<lambda>rows.
     try_fold merge_host_network_entry entries
       (filter (\<lambda>e. pk4_source_address (entry_key e) = address) rows))"

definition merge_host_address6 ::
  "PolicyIr list \<Rightarrow> Endpoint list \<Rightarrow> Endpoint \<Rightarrow> Ipv6PolicyMapEntry list \<Rightarrow> u128 \<Rightarrow>
   (ApiError, Ipv6PolicyMapEntry list) res" where
  "merge_host_address6 ingress_policies endpoints endpoint entries address =
     rbind (map_compile_error (compile_ipv6_dataplane_entries ingress_policies endpoints
       [\<lparr>ep6_address = address, ep6_endpoint = endpoint\<rparr>])) (\<lambda>rows.
     try_fold merge_host_network_entry entries
       (filter (\<lambda>e. pk6_source_network (entry_key e) = address \<and>
          pk6_source_prefix_len (entry_key e) = 128) rows))"

definition add_host_network_ingress_entries ::
  "controller_state \<Rightarrow> PolicyIr list \<Rightarrow> Endpoint list \<Rightarrow> Ipv4PolicyMapEntry list \<Rightarrow> Ipv6PolicyMapEntry list \<Rightarrow>
   (ApiError, Ipv4PolicyMapEntry list \<times> Ipv6PolicyMapEntry list) res" where
  "add_host_network_ingress_entries state ingress_policies endpoints ipv4_entries ipv6_entries =
     rbind (try_fold (\<lambda>(e4, e6) pod.
         let endpoint = endpoint_with_namespace_labels (pod_endpoint pod) (ctl_namespaces state) in
         rbind (try_fold (merge_host_address4 ingress_policies endpoints endpoint) e4 (pod_ipv4_addresses pod)) (\<lambda>e4.
         rbind (try_fold (merge_host_address6 ingress_policies endpoints endpoint) e6 (pod_ipv6_addresses pod)) (\<lambda>e6.
         Ok (e4, e6))))
       (ipv4_entries, ipv6_entries) (filter pod_host_network (bt_values (ctl_pods state))))
     (\<lambda>(e4, e6). Ok (sort_key entry_key e4, sort_key entry_key e6))"

definition node_transports :: "controller_state \<Rightarrow> NodeTransport list" where
  "node_transports state = btree_set (List.map_filter
     (\<lambda>block. case node_transport block of Ok transport \<Rightarrow> Some transport | Err _ \<Rightarrow> None)
     (bt_values (ctl_node_blocks state)))"

definition node_exception :: "'k \<Rightarrow> 'k policy_entry" where
  "node_exception key = \<lparr>entry_key = key,
     entry_decision = \<lparr>rec_verdict = AllowVerdict, rec_reason = NoApplicablePolicy, rec_policy_id = None,
       rec_rule_id = None\<rparr>, entry_shadow = None\<rparr>"

type_synonym address_entries =
  "Ipv4PolicyMapEntry list \<times> Ipv6PolicyMapEntry list \<times> EgressIpv4PolicyMapEntry list \<times> EgressIpv6PolicyMapEntry list"

definition add_node_transport :: "address_entries \<Rightarrow> NodeTransport \<Rightarrow> (ApiError, address_entries) res" where
  "add_node_transport = (\<lambda>(e4, e6, x4, x6) (ipv4, ipv6).
     rbind (merge_host_network_entry e4 (node_exception (Ipv4PolicyMapKey ipv4 0 0 0))) (\<lambda>e4.
     rbind (merge_host_network_entry e6 (node_exception (Ipv6PolicyMapKey ipv6 128 0 0 0))) (\<lambda>e6.
     rbind (upsert_egress_entry x4 (node_exception (EgressIpv4PolicyMapKey 0 ipv4 0 0))) (\<lambda>x4.
     rbind (upsert_egress_entry x6 (node_exception (EgressIpv6PolicyMapKey 0 ipv6 128 0 0))) (\<lambda>x6.
     Ok (e4, e6, x4, x6))))))"

definition add_primary_node_traffic_entries ::
  "controller_state \<Rightarrow> address_entries \<Rightarrow> (ApiError, address_entries) res" where
  "add_primary_node_traffic_entries state entries =
     (if node_transports state = [] then Ok entries else
      rbind (try_fold add_node_transport entries (node_transports state)) (\<lambda>(e4, e6, x4, x6).
      Ok (sort_key entry_key e4, sort_key entry_key e6, sort_key entry_key x4, sort_key entry_key x6)))"

definition isolated :: "PolicyIr \<Rightarrow> Endpoint \<Rightarrow> bool" where
  "isolated policy endpoint \<longleftrightarrow>
     pol_origin policy = KubernetesNetworkPolicy \<and> selector_matches (pol_target policy) endpoint"

definition reply_entry :: "'k \<Rightarrow> PolicyIr \<Rightarrow> PolicyRule \<Rightarrow> 'k policy_entry" where
  "reply_entry key policy rule = \<lparr>entry_key = key,
     entry_decision = \<lparr>rec_verdict = AllowVerdict, rec_reason = ExplicitRule,
       rec_policy_id = Some (pol_id policy), rec_rule_id = Some (rule_id rule)\<rparr>, entry_shadow = None\<rparr>"

definition add_gateway_replies ::
  "Endpoint \<Rightarrow> PolicyIr \<Rightarrow> PolicyRule \<Rightarrow> EgressIpv4PolicyMapEntry list \<times> EgressIpv6PolicyMapEntry list \<Rightarrow>
   HostNetworkGateways \<Rightarrow>
   (ApiError, EgressIpv4PolicyMapEntry list \<times> EgressIpv6PolicyMapEntry list) res" where
  "add_gateway_replies endpoint policy rule = (\<lambda>(x4, x6) gateway.
     let protocol = (case rule_protocol rule of None \<Rightarrow> 0 | Some p \<Rightarrow> protocol_number p) in
     rbind (try_fold (\<lambda>es address. upsert_egress_entry es
         (reply_entry (EgressIpv4PolicyMapKey (ep_identity endpoint) address protocol 0) policy rule))
       x4 (gateway_ipv4 gateway)) (\<lambda>x4.
     rbind (try_fold (\<lambda>es network. upsert_egress_entry es
         (reply_entry (EgressIpv6PolicyMapKey (ep_identity endpoint) network 128 protocol 0) policy rule))
       x6 (gateway_ipv6 gateway)) (\<lambda>x6.
     Ok (x4, x6))))"

text \<open>The loops over endpoints, their isolating ingress policies and the allowing rules, in order.\<close>

definition reply_rules ::
  "controller_state \<Rightarrow> PolicyIr list \<Rightarrow> PolicyIr list \<Rightarrow> Endpoint list \<Rightarrow> (Endpoint \<times> PolicyIr \<times> PolicyRule) list" where
  "reply_rules state ingress_policies egress_policies endpoints =
     concat (map (\<lambda>endpoint. concat (map (\<lambda>policy. map (\<lambda>rule. (endpoint, policy, rule))
           (filter (\<lambda>rule. rule_action rule = AllowAction \<and>
              selector_matches (rule_source rule) (host_network_gateway_endpoint (ctl_namespaces state)))
             (pol_rules policy)))
         (filter (\<lambda>policy. isolated policy endpoint) ingress_policies)))
       (filter (\<lambda>endpoint. list_ex (\<lambda>policy. isolated policy endpoint) egress_policies) endpoints))"

definition add_ovn_host_network_reply_entries ::
  "controller_state \<Rightarrow> PolicyIr list \<Rightarrow> PolicyIr list \<Rightarrow> Endpoint list \<Rightarrow>
   EgressIpv4PolicyMapEntry list \<times> EgressIpv6PolicyMapEntry list \<Rightarrow>
   (ApiError, EgressIpv4PolicyMapEntry list \<times> EgressIpv6PolicyMapEntry list) res" where
  "add_ovn_host_network_reply_entries state ingress_policies egress_policies endpoints entries =
     (if ctl_host_network_gateways state = [] then Ok entries else
      rbind (try_fold (\<lambda>es (endpoint, policy, rule). try_fold (add_gateway_replies endpoint policy rule) es
          (bt_values (ctl_host_network_gateways state)))
        entries (reply_rules state ingress_policies egress_policies endpoints)) (\<lambda>(x4, x6).
      Ok (sort_key entry_key x4, sort_key entry_key x6)))"

section \<open>The snapshot\<close>

definition compile_policy_state :: "controller_state \<Rightarrow> (ApiError, dataplane_policy) res" where
  "compile_policy_state state =
     (let policies = compiled_policies state;
          ingress_policies = filter (\<lambda>p. pol_direction p = Ingress) policies;
          egress_policies = filter (\<lambda>p. pol_direction p \<noteq> Ingress) policies;
          endpoints = endpoints_with_namespace_labels state;
          ipv4_endpoints = ipv4_endpoints_with_namespace_labels state;
          ipv6_endpoints = ipv6_endpoints_with_namespace_labels state in
      rbind (map_compile_error (compile_dataplane_entries ingress_policies endpoints)) (\<lambda>entries.
      rbind (map_compile_error (compile_ipv4_dataplane_entries ingress_policies endpoints ipv4_endpoints)) (\<lambda>e4.
      rbind (map_compile_error (compile_ipv6_dataplane_entries ingress_policies endpoints ipv6_endpoints)) (\<lambda>e6.
      rbind (add_host_network_ingress_entries state ingress_policies endpoints e4 e6) (\<lambda>(e4, e6).
      rbind (map_compile_error (compile_egress_ipv4_dataplane_entries egress_policies endpoints ipv4_endpoints)) (\<lambda>x4.
      rbind (map_compile_error (compile_egress_ipv6_dataplane_entries egress_policies endpoints ipv6_endpoints)) (\<lambda>x6.
      rbind (add_primary_node_traffic_entries state (e4, e6, x4, x6)) (\<lambda>(e4, e6, x4, x6).
      rbind (add_ovn_host_network_reply_entries state ingress_policies egress_policies endpoints (x4, x6)) (\<lambda>(x4, x6).
      Ok \<lparr>dp_revision = ctl_policy_revision state, dp_entries = entries, dp_ipv4_entries = e4,
          dp_ipv6_entries = e6, dp_egress_ipv4_entries = x4, dp_egress_ipv6_entries = x6\<rparr>)))))))))"

definition dataplane_policy_state ::
  "controller_state \<Rightarrow> (ApiError, dataplane_policy) res \<times> controller_state" where
  "dataplane_policy_state state =
     (case ctl_policy_cache state of
        Some snapshot \<Rightarrow> if dp_revision snapshot = ctl_policy_revision state then (Ok snapshot, state)
          else (case compile_policy_state state of Err e \<Rightarrow> (Err e, state)
            | Ok snapshot \<Rightarrow> (Ok snapshot, state\<lparr>ctl_policy_cache := Some snapshot\<rparr>))
      | None \<Rightarrow> (case compile_policy_state state of Err e \<Rightarrow> (Err e, state)
          | Ok snapshot \<Rightarrow> (Ok snapshot, state\<lparr>ctl_policy_cache := Some snapshot\<rparr>)))"

section \<open>What the added rows change\<close>

lemma update_entry_keys [simp]: "map entry_key (update_entry entry es) = map entry_key es"
  by (induction es) auto

lemma rows_map_update:
  "entry_key entry \<in> entry_key ` set es \<Longrightarrow>
     rows_map (update_entry entry es) = (rows_map es)(entry_key entry \<mapsto> (entry_decision entry, entry_shadow entry))"
  by (induction es) (auto simp: rows_map_def fun_eq_iff)

lemma rows_map_snoc:
  "entry_key entry \<notin> entry_key ` set es \<Longrightarrow>
     rows_map (es @ [entry]) = (rows_map es)(entry_key entry \<mapsto> (entry_decision entry, entry_shadow entry))"
  by (auto simp: rows_map_def fun_eq_iff map_add_def split: option.split)
    (force dest: map_of_SomeD)+

lemma find_entry_None: "find (\<lambda>e. entry_key e = k) es = None \<longleftrightarrow> k \<notin> entry_key ` set es"
  by (auto simp: find_None_iff)

lemma find_entry_Some:
  assumes "find (\<lambda>e. entry_key e = k) es = Some e"
  shows "entry_key e = k" "rows_map es k = Some (entry_decision e, entry_shadow e)" "k \<in> entry_key ` set es"
  using assms by (induction es) (auto simp: rows_map_def split: if_splits)

text \<open>Two entry lists agree on the keys a predicate leaves alone, and the second is no less distinct.\<close>

definition agree_off :: "('k \<Rightarrow> bool) \<Rightarrow> 'k policy_entry list \<Rightarrow> 'k policy_entry list \<Rightarrow> bool" where
  "agree_off touched es es' \<longleftrightarrow>
     {e \<in> set es'. \<not> touched (entry_key e)} = {e \<in> set es. \<not> touched (entry_key e)} \<and>
     (distinct (map entry_key es') \<longrightarrow> distinct (map entry_key es))"

text \<open>A key is allowed when its row allows.\<close>

definition allowed_at :: "'k policy_entry list \<Rightarrow> 'k \<Rightarrow> bool" where
  "allowed_at es k \<longleftrightarrow> (\<exists>d s. rows_map es k = Some (d, s) \<and> rec_verdict d = AllowVerdict)"

lemma agree_off_refl [simp]: "agree_off touched es es"
  by (simp add: agree_off_def)

lemma agree_off_trans: "agree_off touched es fs \<Longrightarrow> agree_off touched fs gs \<Longrightarrow> agree_off touched es gs"
  by (simp add: agree_off_def)

lemma agree_off_mem: "agree_off touched es fs \<Longrightarrow> \<not> touched (entry_key e) \<Longrightarrow> e \<in> set fs \<longleftrightarrow> e \<in> set es"
  unfolding agree_off_def by blast

lemma agree_off_mono:
  assumes "agree_off touched es fs" "\<And>k. touched k \<Longrightarrow> touched' k"
  shows "agree_off touched' es fs"
proof -
  have "e \<in> set fs \<longleftrightarrow> e \<in> set es" if "\<not> touched' (entry_key e)" for e
    using agree_off_mem [OF assms(1), of e] assms(2) that by blast
  then show ?thesis using assms(1) by (auto simp: agree_off_def)
qed

lemma agree_off_sort [simp]: "agree_off touched es (sort_key f fs) \<longleftrightarrow> agree_off touched es fs"
proof -
  have "distinct (map entry_key (sort_key f fs)) = distinct (map entry_key fs)"
    by (rule mset_eq_imp_distinct_iff) simp
  then show ?thesis by (simp add: agree_off_def)
qed

lemma allowed_at_sort [simp]: "allowed_at (sort_key entry_key es) k = allowed_at es k"
  by (simp add: allowed_at_def rows_map_sort)

text \<open>Adding a row touches its key only.\<close>

lemma update_mem: "entry_key e \<noteq> entry_key entry \<Longrightarrow> e \<in> set (update_entry entry es) \<longleftrightarrow> e \<in> set es"
  by (induction es) auto

lemma agree_off_update:
  assumes "touched (entry_key entry)"
  shows "agree_off touched es (update_entry entry es)" "agree_off touched es (es @ [entry])"
proof -
  have "\<not> touched (entry_key e) \<Longrightarrow> entry_key e \<noteq> entry_key entry" for e :: "'a policy_entry" using assms by auto
  then show "agree_off touched es (update_entry entry es)" "agree_off touched es (es @ [entry])"
    using assms by (auto simp: agree_off_def update_mem)
qed

abbreviation set_row :: "'k policy_entry list \<Rightarrow> 'k policy_entry \<Rightarrow> 'k \<Rightarrow> outcome option" where
  "set_row es entry \<equiv> (rows_map es)(entry_key entry \<mapsto> (entry_decision entry, entry_shadow entry))"

abbreviation allows :: "'k policy_entry \<Rightarrow> bool" where
  "allows e \<equiv> rec_verdict (entry_decision e) = AllowVerdict"

lemma merge_cases:
  fixes es :: "'k policy_entry list"
  assumes "merge_host_network_entry es entry = Ok es'"
  obtains (kept) e :: "'k policy_entry" where "es' = es" "rows_map es (entry_key entry) = Some (entry_decision e, entry_shadow e)"
      "allows entry \<longrightarrow> allows e"
    | (set) "rows_map es' = set_row es entry" "es' \<in> {update_entry entry es, es @ [entry]}"
      "rows_map es (entry_key entry) = None \<or> allows entry"
proof (cases "find (\<lambda>e. entry_key e = entry_key entry) es")
  case None
  then have "es' = es @ [entry]"
    using assms by (auto simp: merge_host_network_entry_def push_compatibility_entry_def split: if_splits)
  moreover have "entry_key entry \<notin> entry_key ` set es" using None by (simp add: find_entry_None)
  ultimately show thesis by (intro set) (auto simp: rows_map_snoc rows_map_None image_iff)
next
  case (Some e)
  note f = find_entry_Some [OF Some]
  show thesis
  proof (cases "allows entry \<and> \<not> allows e")
    case True
    then have "es' = update_entry entry es" using assms Some by (simp add: merge_host_network_entry_def)
    then show thesis using True by (intro set) (simp_all add: rows_map_update [OF f(3)])
  next
    case False
    then have "es' = es" using assms Some by (auto simp: merge_host_network_entry_def)
    then show thesis using False f(2) by (intro kept [of e]) auto
  qed
qed

lemma merge_step:
  assumes "merge_host_network_entry es entry = Ok es'"
  shows "touched (entry_key entry) \<Longrightarrow> agree_off touched es es'"
    and "allowed_at es k \<Longrightarrow> allowed_at es' k"
    and "allows entry \<Longrightarrow> allowed_at es' (entry_key entry)"
proof -
  show "agree_off touched es es'" if "touched (entry_key entry)"
    using assms by (cases rule: merge_cases) (use agree_off_update [of touched entry es] that in auto)
  show "allowed_at es' k" if "allowed_at es k"
    using assms by (cases rule: merge_cases) (use that in \<open>auto simp: allowed_at_def\<close>)
  show "allowed_at es' (entry_key entry)" if "allows entry"
    using assms by (cases rule: merge_cases) (use that in \<open>auto simp: allowed_at_def\<close>)
qed

lemma upsert_rows:
  assumes "upsert_egress_entry es entry = Ok es'"
  shows "rows_map es' = set_row es entry \<and> es' \<in> {update_entry entry es, es @ [entry]}"
proof (cases "find (\<lambda>e. entry_key e = entry_key entry) es")
  case None
  then have "es' = es @ [entry]"
    using assms by (auto simp: upsert_egress_entry_def push_compatibility_entry_def split: if_splits)
  moreover have "entry_key entry \<notin> entry_key ` set es" using None by (simp add: find_entry_None)
  ultimately show ?thesis by (simp add: rows_map_snoc)
next
  case (Some e)
  then have "es' = update_entry entry es" using assms by (simp add: upsert_egress_entry_def)
  then show ?thesis using find_entry_Some(3) [OF Some] by (simp add: rows_map_update)
qed

lemma upsert_step:
  assumes "upsert_egress_entry es entry = Ok es'"
  shows "touched (entry_key entry) \<Longrightarrow> agree_off touched es es'"
    and "allows entry \<Longrightarrow> allowed_at es k \<Longrightarrow> allowed_at es' k"
    and "allows entry \<Longrightarrow> allowed_at es' (entry_key entry)"
proof -
  show "agree_off touched es es'" if "touched (entry_key entry)"
    using upsert_rows [OF assms, THEN conjunct2] agree_off_update [of touched entry es] that by auto
  show "allows entry \<Longrightarrow> allowed_at es k \<Longrightarrow> allowed_at es' k" "allows entry \<Longrightarrow> allowed_at es' (entry_key entry)"
    by (auto simp: allowed_at_def upsert_rows [OF assms, THEN conjunct1])
qed

text \<open>Every step of a loop establishes its property and no later step breaks it.\<close>

lemma try_fold_each:
  assumes "try_fold f s xs = Ok s'"
    and "\<And>t x t'. x \<in> set xs \<Longrightarrow> f t x = Ok t' \<Longrightarrow> Q x t'"
    and "\<And>t x t' y. x \<in> set xs \<Longrightarrow> f t x = Ok t' \<Longrightarrow> Q y t \<Longrightarrow> Q y t'"
  shows "\<forall>x \<in> set xs. Q x s'"
  using assms
proof (induction xs arbitrary: s)
  case (Cons x xs)
  from Cons.prems(1) obtain t where t: "f s x = Ok t" and rest: "try_fold f t xs = Ok s'"
    by (auto simp: res_simps)
  have "\<forall>y \<in> set xs. Q y s'" by (rule Cons.IH [OF rest]) (meson Cons.prems(2,3) list.set_intros(2))+
  moreover have "Q x s'"
    by (rule try_fold_invariant [OF rest, of "Q x"]) (meson t Cons.prems(2,3) list.set_intros)+
  ultimately show ?case by simp
qed simp

section \<open>The addresses with added rows\<close>

definition host_addresses4 :: "controller_state \<Rightarrow> u32 set" where
  "host_addresses4 state = (\<Union>pod \<in> set (filter pod_host_network (bt_values (ctl_pods state))). set (pod_ipv4_addresses pod))"

definition host_addresses6 :: "controller_state \<Rightarrow> u128 set" where
  "host_addresses6 state = (\<Union>pod \<in> set (filter pod_host_network (bt_values (ctl_pods state))). set (pod_ipv6_addresses pod))"

definition gateway_addresses4 :: "controller_state \<Rightarrow> u32 set" where
  "gateway_addresses4 state = (\<Union>g \<in> set (bt_values (ctl_host_network_gateways state)). set (gateway_ipv4 g))"

definition gateway_addresses6 :: "controller_state \<Rightarrow> u128 set" where
  "gateway_addresses6 state = (\<Union>g \<in> set (bt_values (ctl_host_network_gateways state)). set (gateway_ipv6 g))"

definition node_addresses4 :: "controller_state \<Rightarrow> u32 set" where
  "node_addresses4 state = fst ` set (node_transports state)"

definition node_addresses6 :: "controller_state \<Rightarrow> u128 set" where
  "node_addresses6 state = snd ` set (node_transports state)"

lemma agree_off_fold:
  assumes "try_fold f es xs = Ok es'"
    and "\<And>t x t'. x \<in> set xs \<Longrightarrow> f t x = Ok t' \<Longrightarrow> agree_off touched t t'"
  shows "agree_off touched es es'"
  by (rule try_fold_invariant [OF assms(1), of "agree_off touched es"])
    (simp, blast intro: agree_off_trans assms(2))

lemma merge_rows_agree:
  assumes "try_fold merge_host_network_entry es rows = Ok es'" "\<forall>e \<in> set rows. touched (entry_key e)"
  shows "agree_off touched es es'"
  using assms by (auto intro: agree_off_fold merge_step(1))

lemma host_entries:
  assumes "add_host_network_ingress_entries state ps eps e4 e6 = Ok (f4, f6)"
  shows "agree_off (\<lambda>k. pk4_source_address k \<in> host_addresses4 state) e4 f4"
    and "agree_off (\<lambda>k. pk6_source_prefix_len k = 128 \<and> pk6_source_network k \<in> host_addresses6 state) e6 f6"
proof -
  let ?t4 = "\<lambda>k. pk4_source_address k \<in> host_addresses4 state"
  let ?t6 = "\<lambda>k. pk6_source_prefix_len k = 128 \<and> pk6_source_network k \<in> host_addresses6 state"
  let ?step = "\<lambda>(e4, e6) pod.
     let endpoint = endpoint_with_namespace_labels (pod_endpoint pod) (ctl_namespaces state) in
     rbind (try_fold (merge_host_address4 ps eps endpoint) e4 (pod_ipv4_addresses pod)) (\<lambda>e4.
     rbind (try_fold (merge_host_address6 ps eps endpoint) e6 (pod_ipv6_addresses pod)) (\<lambda>e6. Ok (e4, e6)))"
  have m4: "agree_off ?t4 es es'" if "try_fold (merge_host_address4 ps eps ep) es xs = Ok es'"
    "set xs \<subseteq> host_addresses4 state" for ep es es' xs
    using that(2) by (intro agree_off_fold [OF that(1)])
      (auto simp: merge_host_address4_def res_simps intro!: merge_rows_agree [where touched = ?t4])
  have m6: "agree_off ?t6 es es'" if "try_fold (merge_host_address6 ps eps ep) es xs = Ok es'"
    "set xs \<subseteq> host_addresses6 state" for ep es es' xs
    using that(2) by (intro agree_off_fold [OF that(1)])
      (auto simp: merge_host_address6_def res_simps intro!: merge_rows_agree [where touched = ?t6])
  from assms obtain g4 g6 where fold: "try_fold ?step (e4, e6)
      (filter pod_host_network (bt_values (ctl_pods state))) = Ok (g4, g6)"
    and f: "f4 = sort_key entry_key g4" "f6 = sort_key entry_key g6"
    by (auto simp: add_host_network_ingress_entries_def res_simps)
  have "agree_off ?t4 e4 (fst (g4, g6)) \<and> agree_off ?t6 e6 (snd (g4, g6))"
  proof (rule try_fold_invariant [OF fold, of "\<lambda>g. agree_off ?t4 e4 (fst g) \<and> agree_off ?t6 e6 (snd g)"], goal_cases)
    case (2 t pod t')
    then have "set (pod_ipv4_addresses pod) \<subseteq> host_addresses4 state" "set (pod_ipv6_addresses pod) \<subseteq> host_addresses6 state"
      by (auto simp: host_addresses4_def host_addresses6_def)
    with 2 m4 m6 show ?case
      by (auto simp: res_simps Let_def split: prod.splits intro: agree_off_trans)
  qed simp
  then show "agree_off ?t4 e4 f4" "agree_off ?t6 e6 f6" by (simp_all add: f)
qed

text \<open>The node rows: other keys stay, and every node is allowed by address.\<close>

lemma node_exception_simps [simp]: "entry_key (node_exception k) = k" "allows (node_exception k)"
  by (simp_all add: node_exception_def)

lemma add_node_transport_Ok:
  assumes "add_node_transport (e4, e6, x4, x6) (n4, n6) = Ok (f4, f6, y4, y6)"
  shows "merge_host_network_entry e4 (node_exception (Ipv4PolicyMapKey n4 0 0 0)) = Ok f4"
    and "merge_host_network_entry e6 (node_exception (Ipv6PolicyMapKey n6 128 0 0 0)) = Ok f6"
    and "upsert_egress_entry x4 (node_exception (EgressIpv4PolicyMapKey 0 n4 0 0)) = Ok y4"
    and "upsert_egress_entry x6 (node_exception (EgressIpv6PolicyMapKey 0 n6 128 0 0)) = Ok y6"
  using assms by (auto simp: add_node_transport_def res_simps)

definition node_allowed :: "NodeTransport \<Rightarrow> address_entries \<Rightarrow> bool" where
  "node_allowed n es \<longleftrightarrow> (case es of (e4, e6, x4, x6) \<Rightarrow>
     allowed_at e4 (Ipv4PolicyMapKey (fst n) 0 0 0) \<and> allowed_at e6 (Ipv6PolicyMapKey (snd n) 128 0 0 0) \<and>
     allowed_at x4 (EgressIpv4PolicyMapKey 0 (fst n) 0 0) \<and> allowed_at x6 (EgressIpv6PolicyMapKey 0 (snd n) 128 0 0))"

lemma node_step_allowed:
  assumes "add_node_transport es n = Ok es'"
  shows "node_allowed n es'" "node_allowed m es \<Longrightarrow> node_allowed m es'"
proof -
  obtain e4 e6 x4 x6 f4 f6 y4 y6 n4 n6 where eq: "es = (e4, e6, x4, x6)" "es' = (f4, f6, y4, y6)" "n = (n4, n6)"
    by (metis prod_cases4 surj_pair)
  note ok = add_node_transport_Ok [OF assms [unfolded eq]]
  show "node_allowed n es'"
    using merge_step(3) [OF ok(1)] merge_step(3) [OF ok(2)] upsert_step(3) [OF ok(3)] upsert_step(3) [OF ok(4)]
    by (simp add: node_allowed_def eq)
  show "node_allowed m es'" if "node_allowed m es"
    using that merge_step(2) [OF ok(1)] merge_step(2) [OF ok(2)] upsert_step(2) [OF ok(3)] upsert_step(2) [OF ok(4)]
    by (simp add: node_allowed_def eq)
qed

text \<open>What a step of the address lists leaves alone.\<close>

definition agree_lists ::
  "(Ipv4PolicyMapKey \<Rightarrow> bool) \<Rightarrow> (Ipv6PolicyMapKey \<Rightarrow> bool) \<Rightarrow> (EgressIpv4PolicyMapKey \<Rightarrow> bool) \<Rightarrow>
   (EgressIpv6PolicyMapKey \<Rightarrow> bool) \<Rightarrow> address_entries \<Rightarrow> address_entries \<Rightarrow> bool" where
  "agree_lists t4 t6 u4 u6 es es' \<longleftrightarrow> (case (es, es') of ((e4, e6, x4, x6), (f4, f6, y4, y6)) \<Rightarrow>
     agree_off t4 e4 f4 \<and> agree_off t6 e6 f6 \<and> agree_off u4 x4 y4 \<and> agree_off u6 x6 y6)"

lemma agree_lists_trans:
  "agree_lists t4 t6 u4 u6 es fs \<Longrightarrow> agree_lists t4 t6 u4 u6 fs gs \<Longrightarrow> agree_lists t4 t6 u4 u6 es gs"
  by (auto simp: agree_lists_def split: prod.splits intro: agree_off_trans)

lemma node_step_agree:
  assumes "add_node_transport es n = Ok es'"
    and "\<And>i p q. t4 (Ipv4PolicyMapKey (fst n) i p q)" "\<And>i p q. t6 (Ipv6PolicyMapKey (snd n) 128 i p q)"
      "\<And>i p q. u4 (EgressIpv4PolicyMapKey i (fst n) p q)" "\<And>i p q. u6 (EgressIpv6PolicyMapKey i (snd n) 128 p q)"
  shows "agree_lists t4 t6 u4 u6 es es'"
proof -
  obtain e4 e6 x4 x6 f4 f6 y4 y6 n4 n6 where eq: "es = (e4, e6, x4, x6)" "es' = (f4, f6, y4, y6)" "n = (n4, n6)"
    by (metis prod_cases4 surj_pair)
  note ok = add_node_transport_Ok [OF assms(1) [unfolded eq]]
  show ?thesis
    using merge_step(1) [OF ok(1), of t4] merge_step(1) [OF ok(2), of t6] upsert_step(1) [OF ok(3), of u4]
      upsert_step(1) [OF ok(4), of u6] assms(2-5) by (simp add: agree_lists_def eq)
qed

abbreviation node_key4 :: "controller_state \<Rightarrow> Ipv4PolicyMapKey \<Rightarrow> bool" where
  "node_key4 state k \<equiv> pk4_source_address k \<in> node_addresses4 state"

abbreviation node_key6 :: "controller_state \<Rightarrow> Ipv6PolicyMapKey \<Rightarrow> bool" where
  "node_key6 state k \<equiv> pk6_source_prefix_len k = 128 \<and> pk6_source_network k \<in> node_addresses6 state"

abbreviation egress_node_key4 :: "controller_state \<Rightarrow> EgressIpv4PolicyMapKey \<Rightarrow> bool" where
  "egress_node_key4 state k \<equiv> ek4_destination_address k \<in> node_addresses4 state"

abbreviation egress_node_key6 :: "controller_state \<Rightarrow> EgressIpv6PolicyMapKey \<Rightarrow> bool" where
  "egress_node_key6 state k \<equiv> ek6_destination_prefix_len k = 128 \<and> ek6_destination_network k \<in> node_addresses6 state"

lemma node_entries:
  assumes "add_primary_node_traffic_entries state es = Ok es'"
  shows "agree_lists (node_key4 state) (node_key6 state) (egress_node_key4 state) (egress_node_key6 state) es es'"
    and "\<forall>n \<in> set (node_transports state). node_allowed n es'"
proof -
  let ?agree = "agree_lists (node_key4 state) (node_key6 state) (egress_node_key4 state) (egress_node_key6 state)"
  let ?sort = "\<lambda>(e4, e6, x4, x6). (sort_key entry_key e4, sort_key entry_key e6, sort_key entry_key x4, sort_key entry_key x6)"
  have refl: "?agree t t" for t by (simp add: agree_lists_def split: prod.split)
  have sort: "?agree t (?sort u) = ?agree t u" "node_allowed n (?sort u) = node_allowed n u" for n t u
    by (simp_all add: agree_lists_def node_allowed_def split: prod.split)
  have "?agree es es' \<and> (\<forall>n \<in> set (node_transports state). node_allowed n es')"
  proof (cases "node_transports state = []")
    case True
    then show ?thesis using assms refl by (simp add: add_primary_node_traffic_entries_def)
  next
    case False
    then obtain fs where fold: "try_fold add_node_transport es (node_transports state) = Ok fs" and es': "es' = ?sort fs"
      using assms by (auto simp: add_primary_node_traffic_entries_def res_simps split: prod.splits)
    have "?agree es fs"
    proof (rule try_fold_invariant [OF fold, of "?agree es"], goal_cases)
      case (2 t n t')
      have "?agree t t'"
        by (rule node_step_agree [OF 2(3)]) (use 2(2) in \<open>auto simp: node_addresses4_def node_addresses6_def\<close>)
      with 2(1) show ?case by (rule agree_lists_trans)
    qed (rule refl)
    moreover have "\<forall>n \<in> set (node_transports state). node_allowed n fs"
      by (rule try_fold_each [OF fold]) (auto intro: node_step_allowed)
    ultimately show ?thesis unfolding es' sort by blast
  qed
  then show "?agree es es'" "\<forall>n \<in> set (node_transports state). node_allowed n es'" by auto
qed

text \<open>The reply rows concern gateway addresses only, and all of them allow.\<close>

definition replies_ok :: "controller_state \<Rightarrow>
  EgressIpv4PolicyMapEntry list \<times> EgressIpv6PolicyMapEntry list \<Rightarrow>
  EgressIpv4PolicyMapEntry list \<times> EgressIpv6PolicyMapEntry list \<Rightarrow> bool" where
  "replies_ok state xs ys \<longleftrightarrow>
     agree_off (\<lambda>k. ek4_destination_address k \<in> gateway_addresses4 state) (fst xs) (fst ys) \<and>
     agree_off (\<lambda>k. ek6_destination_prefix_len k = 128 \<and> ek6_destination_network k \<in> gateway_addresses6 state)
       (snd xs) (snd ys) \<and>
     (\<forall>k. allowed_at (fst xs) k \<longrightarrow> allowed_at (fst ys) k) \<and> (\<forall>k. allowed_at (snd xs) k \<longrightarrow> allowed_at (snd ys) k)"

lemma replies_ok_refl: "replies_ok state xs xs"
  by (simp add: replies_ok_def)

lemma replies_ok_trans: "replies_ok state xs ys \<Longrightarrow> replies_ok state ys zs \<Longrightarrow> replies_ok state xs zs"
  by (auto simp: replies_ok_def intro: agree_off_trans)

lemma reply_entry_simps [simp]: "entry_key (reply_entry k policy rule) = k" "allows (reply_entry k policy rule)"
  by (simp_all add: reply_entry_def)

lemma upserts_agree:
  assumes "try_fold (\<lambda>es a. upsert_egress_entry es (reply_entry (K a) policy rule)) es as = Ok es'"
    and "\<forall>a \<in> set as. touched (K a)"
  shows "agree_off touched es es' \<and> (\<forall>k. allowed_at es k \<longrightarrow> allowed_at es' k)"
proof (rule try_fold_invariant [OF assms(1), of "\<lambda>t. agree_off touched es t \<and> (\<forall>k. allowed_at es k \<longrightarrow> allowed_at t k)"],
    goal_cases)
  case (2 t a t')
  then show ?case
    using upsert_step(1) [OF 2(3), of touched] upsert_step(2) [OF 2(3)] assms(2) agree_off_trans by auto
qed simp

lemma gateway_step:
  assumes "add_gateway_replies endpoint policy rule xs gateway = Ok ys"
    and "gateway \<in> set (bt_values (ctl_host_network_gateways state))"
  shows "replies_ok state xs ys"
proof -
  let ?protocol = "case rule_protocol rule of None \<Rightarrow> 0 | Some p \<Rightarrow> protocol_number p"
  from assms(1) have
    "try_fold (\<lambda>es a. upsert_egress_entry es
       (reply_entry (EgressIpv4PolicyMapKey (ep_identity endpoint) a ?protocol 0) policy rule))
     (fst xs) (gateway_ipv4 gateway) = Ok (fst ys)"
    "try_fold (\<lambda>es a. upsert_egress_entry es
       (reply_entry (EgressIpv6PolicyMapKey (ep_identity endpoint) a 128 ?protocol 0) policy rule))
     (snd xs) (gateway_ipv6 gateway) = Ok (snd ys)"
    by (auto simp: add_gateway_replies_def Let_def res_simps split: prod.splits)
  from upserts_agree [OF this(1), of "\<lambda>k. ek4_destination_address k \<in> gateway_addresses4 state"]
    upserts_agree [OF this(2), of "\<lambda>k. ek6_destination_prefix_len k = 128 \<and>
      ek6_destination_network k \<in> gateway_addresses6 state"] assms(2)
  show ?thesis unfolding replies_ok_def gateway_addresses4_def gateway_addresses6_def by auto
qed

lemma reply_entries:
  assumes "add_ovn_host_network_reply_entries state ips eps endpoints xs = Ok ys"
  shows "replies_ok state xs ys"
proof (cases "ctl_host_network_gateways state = []")
  case True
  then show ?thesis using assms by (simp add: add_ovn_host_network_reply_entries_def replies_ok_refl)
next
  case False
  let ?step = "\<lambda>es (endpoint, policy, rule). try_fold (add_gateway_replies endpoint policy rule) es
    (bt_values (ctl_host_network_gateways state))"
  from False assms obtain zs where fold: "try_fold ?step xs (reply_rules state ips eps endpoints) = Ok zs"
    and ys: "ys = (sort_key entry_key (fst zs), sort_key entry_key (snd zs))"
    by (auto simp: add_ovn_host_network_reply_entries_def res_simps split: prod.splits)
  have "replies_ok state xs zs"
  proof (rule try_fold_invariant [OF fold, of "replies_ok state xs"], goal_cases)
    case (2 t r t')
    obtain endpoint policy rule where r: "r = (endpoint, policy, rule)" by (cases r)
    have "replies_ok state t t'"
      by (rule try_fold_invariant [OF 2(3) [unfolded r prod.case], of "replies_ok state t"])
        (blast intro: replies_ok_refl replies_ok_trans gateway_step)+
    with 2(1) show ?case by (rule replies_ok_trans)
  qed (rule replies_ok_refl)
  then show ?thesis by (simp add: ys replies_ok_def)
qed

section \<open>What the snapshot says\<close>

abbreviation ingress_of :: "controller_state \<Rightarrow> PolicyIr list" where
  "ingress_of state \<equiv> filter (\<lambda>p. pol_direction p = Ingress) (compiled_policies state)"

abbreviation egress_of :: "controller_state \<Rightarrow> PolicyIr list" where
  "egress_of state \<equiv> filter (\<lambda>p. pol_direction p \<noteq> Ingress) (compiled_policies state)"

abbreviation endpoints_of :: "controller_state \<Rightarrow> Endpoint list" where
  "endpoints_of \<equiv> endpoints_with_namespace_labels"

lemma map_compile_error_Ok [simp]: "map_compile_error r = Ok v \<longleftrightarrow> r = Ok v"
  by (auto simp: map_compile_error_def split: sum.split)

lemma snapshot_compiled:
  assumes "compile_policy_state state = Ok snap"
  shows "compile_dataplane_entries (ingress_of state) (endpoints_of state) = Ok (dp_entries snap)"
    and "\<exists>e4. compile_ipv4_dataplane_entries (ingress_of state) (endpoints_of state)
        (ipv4_endpoints_with_namespace_labels state) = Ok e4 \<and>
      agree_off (\<lambda>k. pk4_source_address k \<in> host_addresses4 state \<union> node_addresses4 state) e4 (dp_ipv4_entries snap)"
    and "\<exists>e6. compile_ipv6_dataplane_entries (ingress_of state) (endpoints_of state)
        (ipv6_endpoints_with_namespace_labels state) = Ok e6 \<and>
      agree_off (\<lambda>k. pk6_source_prefix_len k = 128 \<and>
        pk6_source_network k \<in> host_addresses6 state \<union> node_addresses6 state) e6 (dp_ipv6_entries snap)"
    and "\<exists>x4. compile_egress_ipv4_dataplane_entries (egress_of state) (endpoints_of state)
        (ipv4_endpoints_with_namespace_labels state) = Ok x4 \<and>
      agree_off (\<lambda>k. ek4_destination_address k \<in> gateway_addresses4 state \<union> node_addresses4 state)
        x4 (dp_egress_ipv4_entries snap)"
    and "\<exists>x6. compile_egress_ipv6_dataplane_entries (egress_of state) (endpoints_of state)
        (ipv6_endpoints_with_namespace_labels state) = Ok x6 \<and>
      agree_off (\<lambda>k. ek6_destination_prefix_len k = 128 \<and>
        ek6_destination_network k \<in> gateway_addresses6 state \<union> node_addresses6 state)
        x6 (dp_egress_ipv6_entries snap)"
    and "\<forall>n \<in> set (node_transports state). node_allowed n
      (dp_ipv4_entries snap, dp_ipv6_entries snap, dp_egress_ipv4_entries snap, dp_egress_ipv6_entries snap)"
proof -
  from assms obtain e4 e6 x4 x6 f4 f6 y4 y6 z4 z6 where
    c: "compile_dataplane_entries (ingress_of state) (endpoints_of state) = Ok (dp_entries snap)"
    "compile_ipv4_dataplane_entries (ingress_of state) (endpoints_of state)
       (ipv4_endpoints_with_namespace_labels state) = Ok e4"
    "compile_ipv6_dataplane_entries (ingress_of state) (endpoints_of state)
       (ipv6_endpoints_with_namespace_labels state) = Ok e6"
    "compile_egress_ipv4_dataplane_entries (egress_of state) (endpoints_of state)
       (ipv4_endpoints_with_namespace_labels state) = Ok x4"
    "compile_egress_ipv6_dataplane_entries (egress_of state) (endpoints_of state)
       (ipv6_endpoints_with_namespace_labels state) = Ok x6"
    and h: "add_host_network_ingress_entries state (ingress_of state) (endpoints_of state) e4 e6 = Ok (f4, f6)"
    and n: "add_primary_node_traffic_entries state (f4, f6, x4, x6) =
      Ok (dp_ipv4_entries snap, dp_ipv6_entries snap, y4, y6)"
    and r: "add_ovn_host_network_reply_entries state (ingress_of state) (egress_of state) (endpoints_of state) (y4, y6) =
      Ok (dp_egress_ipv4_entries snap, dp_egress_ipv6_entries snap)"
    by (auto simp: compile_policy_state_def Let_def res_simps split: prod.splits)
  note n1 = node_entries [OF n, unfolded agree_lists_def, simplified]
  note r1 = reply_entries [OF r, unfolded replies_ok_def, simplified]
  note chain = agree_off_trans [OF agree_off_mono agree_off_mono]
  show "compile_dataplane_entries (ingress_of state) (endpoints_of state) = Ok (dp_entries snap)" by (rule c(1))
  have "agree_off (\<lambda>k. pk4_source_address k \<in> host_addresses4 state \<union> node_addresses4 state) e4 (dp_ipv4_entries snap)"
    by (rule chain [OF host_entries(1) [OF h] _ n1(1) [THEN conjunct1]]; simp)
  with c(2) show "\<exists>e4. compile_ipv4_dataplane_entries (ingress_of state) (endpoints_of state)
        (ipv4_endpoints_with_namespace_labels state) = Ok e4 \<and>
      agree_off (\<lambda>k. pk4_source_address k \<in> host_addresses4 state \<union> node_addresses4 state) e4 (dp_ipv4_entries snap)"
    by (intro exI conjI)
  have "agree_off (\<lambda>k. pk6_source_prefix_len k = 128 \<and>
      pk6_source_network k \<in> host_addresses6 state \<union> node_addresses6 state) e6 (dp_ipv6_entries snap)"
    by (rule chain [OF host_entries(2) [OF h] _ n1(1) [THEN conjunct2, THEN conjunct1]]; simp)
  with c(3) show "\<exists>e6. compile_ipv6_dataplane_entries (ingress_of state) (endpoints_of state)
        (ipv6_endpoints_with_namespace_labels state) = Ok e6 \<and>
      agree_off (\<lambda>k. pk6_source_prefix_len k = 128 \<and>
        pk6_source_network k \<in> host_addresses6 state \<union> node_addresses6 state) e6 (dp_ipv6_entries snap)"
    by (intro exI conjI)
  have "agree_off (\<lambda>k. ek4_destination_address k \<in> gateway_addresses4 state \<union> node_addresses4 state)
      x4 (dp_egress_ipv4_entries snap)"
    by (rule chain [OF n1(1) [THEN conjunct2, THEN conjunct2, THEN conjunct1] _ r1 [THEN conjunct1]]; simp)
  with c(4) show "\<exists>x4. compile_egress_ipv4_dataplane_entries (egress_of state) (endpoints_of state)
        (ipv4_endpoints_with_namespace_labels state) = Ok x4 \<and>
      agree_off (\<lambda>k. ek4_destination_address k \<in> gateway_addresses4 state \<union> node_addresses4 state)
        x4 (dp_egress_ipv4_entries snap)"
    by (intro exI conjI)
  have "agree_off (\<lambda>k. ek6_destination_prefix_len k = 128 \<and>
      ek6_destination_network k \<in> gateway_addresses6 state \<union> node_addresses6 state) x6 (dp_egress_ipv6_entries snap)"
    by (rule chain [OF n1(1) [THEN conjunct2, THEN conjunct2, THEN conjunct2] _ r1 [THEN conjunct2, THEN conjunct1]]; simp)
  with c(5) show "\<exists>x6. compile_egress_ipv6_dataplane_entries (egress_of state) (endpoints_of state)
        (ipv6_endpoints_with_namespace_labels state) = Ok x6 \<and>
      agree_off (\<lambda>k. ek6_destination_prefix_len k = 128 \<and>
        ek6_destination_network k \<in> gateway_addresses6 state \<union> node_addresses6 state)
        x6 (dp_egress_ipv6_entries snap)"
    by (intro exI conjI)
  show "\<forall>n \<in> set (node_transports state). node_allowed n
      (dp_ipv4_entries snap, dp_ipv6_entries snap, dp_egress_ipv4_entries snap, dp_egress_ipv6_entries snap)"
    using n1(2) r1 by (auto simp: node_allowed_def)
qed

text \<open>Lookups at untouched keys are those of the compiled entries.\<close>

lemma agree_rows:
  assumes "agree_off touched es es'" "distinct (map entry_key es')" "\<not> touched k"
  shows "rows_map es' k = rows_map es k"
proof -
  have d: "distinct (map entry_key es)" using assms(1,2) by (simp add: agree_off_def)
  have "rows_map es' k = Some v \<longleftrightarrow> rows_map es k = Some v" for v
    unfolding rows_map_Some [OF assms(2)] rows_map_Some [OF d]
    using agree_off_mem [OF assms(1)] assms(3) by metis
  then show ?thesis by (metis not_None_eq)
qed

lemma longest_match_unique:
  assumes "e \<in> set rows" "sel (entry_key e)" "cidr6_contains (cidr_of (entry_key e)) x"
    and "\<And>b. b \<in> set rows \<Longrightarrow> sel (entry_key b) \<Longrightarrow> cidr6_contains (cidr_of (entry_key b)) x \<Longrightarrow>
      prefix_len6 (cidr_of (entry_key b)) < prefix_len6 (cidr_of (entry_key e)) \<or> b = e"
  shows "longest_match cidr_of sel rows x = Some (entry_decision e, entry_shadow e)"
proof -
  obtain f where f: "foldl (longer_match cidr_of sel x) None rows = Some f"
    using longest_match_None [of cidr_of sel rows x] assms(1-3) by (auto simp: longest_match_def)
  from longest_match_foldl [OF f] assms(1-3) have "f \<in> set rows" "sel (entry_key f)"
    "cidr6_contains (cidr_of (entry_key f)) x"
    "prefix_len6 (cidr_of (entry_key e)) \<le> prefix_len6 (cidr_of (entry_key f))" by auto
  then have "f = e" using assms(4) [of f] by auto
  with f show ?thesis by (simp add: longest_match_def)
qed

lemma agree_longest:
  assumes "agree_off touched es es'" "distinct (map entry_key es')"
    and apart: "\<And>k. touched k \<Longrightarrow> sel k \<Longrightarrow> \<not> cidr6_contains (cidr_of k) x"
    and inj: "\<And>k k'. sel k \<Longrightarrow> sel k' \<Longrightarrow> cidr_of k = cidr_of k' \<Longrightarrow> k = k'"
  shows "longest_match cidr_of sel es' x = longest_match cidr_of sel es x"
proof -
  have d: "distinct (map entry_key es)" using assms(1,2) by (simp add: agree_off_def)
  let ?hit = "\<lambda>e. sel (entry_key e) \<and> cidr6_contains (cidr_of (entry_key e)) x"
  have same: "e \<in> set es' \<and> ?hit e \<longleftrightarrow> e \<in> set es \<and> ?hit e" for e
    using agree_off_mem [OF assms(1), of e] apart [of "entry_key e"] by blast
  show ?thesis
  proof (cases "longest_match cidr_of sel es x")
    case None
    then have "longest_match cidr_of sel es' x = None" using same unfolding longest_match_None by blast
    with None show ?thesis by simp
  next
    case (Some v)
    then obtain f where f: "foldl (longer_match cidr_of sel x) None es = Some f"
      and v: "v = (entry_decision f, entry_shadow f)" by (auto simp: longest_match_def)
    from longest_match_foldl [OF f] have f': "f \<in> set es" "?hit f"
      "\<forall>b \<in> set es. ?hit b \<longrightarrow> prefix_len6 (cidr_of (entry_key b)) \<le> prefix_len6 (cidr_of (entry_key f))" by auto
    have "longest_match cidr_of sel es' x = Some (entry_decision f, entry_shadow f)"
    proof (rule longest_match_unique)
      fix b assume b: "b \<in> set es'" "sel (entry_key b)" "cidr6_contains (cidr_of (entry_key b)) x"
      then have b': "b \<in> set es" "prefix_len6 (cidr_of (entry_key b)) \<le> prefix_len6 (cidr_of (entry_key f))"
        using same f'(3) by blast+
      have "b = f" if "prefix_len6 (cidr_of (entry_key b)) = prefix_len6 (cidr_of (entry_key f))"
      proof -
        have "cidr_of (entry_key b) = cidr_of (entry_key f)"
          using that b(3) f'(2) by (auto simp: cidr6_contains_iff Ipv6Cidr.expand)
        then have "entry_key b = entry_key f" using inj b(2) f'(2) by blast
        then show ?thesis using d b'(1) f'(1) by (auto simp: distinct_map inj_on_def)
      qed
      then show "prefix_len6 (cidr_of (entry_key b)) < prefix_len6 (cidr_of (entry_key f)) \<or> b = f"
        using b'(2) by (metis order_le_less)
    qed (use f' same in blast)+
    then show ?thesis by (simp add: Some v)
  qed
qed

lemma ipv6_trie_agree:
  assumes "agree_off (\<lambda>k. pk6_source_prefix_len k = 128 \<and> pk6_source_network k \<in> A) es es'"
    and "distinct (map entry_key es')" "x \<notin> A"
  shows "ipv6_trie es' x i t = ipv6_trie es x i t"
  unfolding ipv6_trie_def
  by (rule agree_longest [OF assms(1,2)])
    (use assms(3) in \<open>auto simp: cidr6_contains_iff net_mask_def Ipv6PolicyMapKey.expand\<close>)

lemma egress_ipv6_trie_agree:
  assumes "agree_off (\<lambda>k. ek6_destination_prefix_len k = 128 \<and> ek6_destination_network k \<in> A) es es'"
    and "distinct (map entry_key es')" "x \<notin> A"
  shows "egress_ipv6_trie es' i x t = egress_ipv6_trie es i x t"
  unfolding egress_ipv6_trie_def
  by (rule agree_longest [OF assms(1,2)])
    (use assms(3) in \<open>auto simp: cidr6_contains_iff net_mask_def EgressIpv6PolicyMapKey.expand\<close>)

end
