(* ===== verification/Policy_Sync.thy ===== *)
theory Policy_Sync
  imports Policy_Banks Policy_Snapshot
begin

text \<open>
  The policy synchronizer of the agent (\<^verbatim>\<open>bins/unf-agent/src/main.rs\<close>): it fetches the controller's
  snapshot, refuses what it does not understand or what is stale, publishes the rest in the bank the
  dataplane does not read, and recovers its records from the kernel maps after a restart.
\<close>

section \<open>The controller's answer\<close>

definition POLICY_SNAPSHOT_SCHEMA_VERSION :: u16 where
  "POLICY_SNAPSHOT_SCHEMA_VERSION = 4"

record PolicyStateSnapshot =
  snap_schema_version :: u16
  snap_source_epoch :: u64
  snap_policy :: dataplane_policy

text \<open>\<open>auth\<close> is the result of the token check, which asks the Kubernetes API.\<close>

definition policy_snapshot ::
  "(ApiError, unit) res \<Rightarrow> u64 \<Rightarrow> controller_state \<Rightarrow> (ApiError, PolicyStateSnapshot) res \<times> controller_state" where
  "policy_snapshot auth identity_epoch state =
     (case auth of Err e \<Rightarrow> (Err e, state)
      | Ok _ \<Rightarrow> (case dataplane_policy_state state of
          (Err e, state) \<Rightarrow> (Err e, state)
        | (Ok policy, state) \<Rightarrow> (Ok \<lparr>snap_schema_version = POLICY_SNAPSHOT_SCHEMA_VERSION,
            snap_source_epoch = identity_epoch, snap_policy = policy\<rparr>, state)))"

section \<open>Synchronization\<close>

record AgentPolicyState =
  desired_policy_epoch :: u64
  desired_policy_revision :: u64
  applied_policy_epoch :: u64
  applied_policy_revision :: u64
  policy_map_entries :: u64
  active_policy_bank :: u64

datatype sync_error =
    FetchFailed
  | UnsupportedSchema u16
  | StaleRevision u64
  | InvalidSnapshot PolicySyncError
  | PublicationFailed apply_result

definition desired_bank :: "dataplane_policy \<Rightarrow> u64 \<Rightarrow> u8 \<Rightarrow> (PolicySyncError, policy_bank_entries) res" where
  "desired_bank policy revision bank =
     rbind (desired_policy_entries (dp_entries policy) revision bank) (\<lambda>identity.
     rbind (desired_ipv4_policy_entries (dp_ipv4_entries policy) revision bank) (\<lambda>ipv4.
     rbind (desired_ipv6_policy_entries (dp_ipv6_entries policy) revision bank) (\<lambda>ipv6.
     rbind (desired_egress_ipv4_policy_entries (dp_egress_ipv4_entries policy) revision bank) (\<lambda>egress_ipv4.
     rbind (desired_egress_ipv6_policy_entries (dp_egress_ipv6_entries policy) revision bank) (\<lambda>egress_ipv6.
     Ok \<lparr>bank_identity = identity, bank_ipv4 = ipv4, bank_ipv6 = ipv6, bank_egress_ipv4 = egress_ipv4,
         bank_egress_ipv6 = egress_ipv6\<rparr>)))))"

definition policy_entry_count_for_bank :: "('s, 't, 'c) PolicySynchronizer \<Rightarrow> u8 \<Rightarrow> nat" where
  "policy_entry_count_for_bank s bank = bank_entry_count (policy_banks s ! unat bank)"

definition active_policy_entry_count :: "('s, 't, 'c) PolicySynchronizer \<Rightarrow> u64" where
  "active_policy_entry_count s = of_nat (policy_entry_count_for_bank s (active_bank s))"

text \<open>\<open>fetched\<close> is the decoded answer of the controller, if the request went well.\<close>

definition synchronize_policies ::
  "('s, 't, 'c) kernel_calls \<Rightarrow> PolicyStateSnapshot option \<Rightarrow>
   ('s, 't, 'c) PolicySynchronizer \<times> AgentPolicyState \<Rightarrow>
   (sync_error, unit) res \<times> ('s, 't, 'c) PolicySynchronizer \<times> AgentPolicyState" where
  "synchronize_policies os fetched = (\<lambda>(synchronizer, state).
     case fetched of None \<Rightarrow> (Err FetchFailed, synchronizer, state)
     | Some snapshot \<Rightarrow>
       if snap_schema_version snapshot \<noteq> POLICY_SNAPSHOT_SCHEMA_VERSION
       then (Err (UnsupportedSchema (snap_schema_version snapshot)), synchronizer, state)
       else
         let desired_revision = dp_revision (snap_policy snapshot);
             source_epoch = snap_source_epoch snapshot;
             state = state\<lparr>desired_policy_epoch := source_epoch, desired_policy_revision := desired_revision\<rparr>;
             applied_revision = applied_policy_revision state
         in if source_epoch = applied_epoch synchronizer \<and> desired_revision = applied_revision
            then (Ok (), synchronizer, state)
            else if source_epoch = applied_epoch synchronizer \<and> desired_revision < applied_revision
            then (Err (StaleRevision desired_revision), synchronizer, state)
            else
              let staging_bank = (active_bank synchronizer + 1) mod POLICY_BANK_COUNT
              in case desired_bank (snap_policy snapshot) desired_revision staging_bank of
                   Err e \<Rightarrow> (Err (InvalidSnapshot e), synchronizer, state)
                 | Ok desired \<Rightarrow>
                   (case apply_policy_entries os desired source_epoch desired_revision staging_bank synchronizer of
                      (Applied, synchronizer) \<Rightarrow>
                        let synchronizer = synchronizer\<lparr>applied_epoch := source_epoch\<rparr>
                        in (Ok (), synchronizer, state\<lparr>applied_policy_epoch := source_epoch,
                             applied_policy_revision := desired_revision,
                             policy_map_entries := active_policy_entry_count synchronizer,
                             active_policy_bank := ucast (active_bank synchronizer)\<rparr>)
                    | (failure, synchronizer) \<Rightarrow> (Err (PublicationFailed failure), synchronizer, state)))"

section \<open>Recovery\<close>

text \<open>Reading the kernel objects: iterating a map may fail at any entry.\<close>

record ('s, 't, 'c) kernel_reads =
  hash_iter :: "'s \<Rightarrow> (bytes \<times> bytes) option list"
  lpm_iter :: "'t \<Rightarrow> (lpm_key \<times> bytes) option list"
  config_get :: "'c \<Rightarrow> bytes option"

datatype recovery_error =
    IterationFailed
  | InvalidEntry PolicySyncError
  | ConfigReadFailed
  | InvalidConfig PolicySyncError
  | EntryCountMismatch
  | MixedRevision

definition map_recovery_error :: "(PolicySyncError \<Rightarrow> recovery_error) \<Rightarrow> (PolicySyncError, 'a) res \<Rightarrow> (recovery_error, 'a) res" where
  "map_recovery_error f r = (case r of Err e \<Rightarrow> Err (f e) | Ok v \<Rightarrow> Ok v)"

text \<open>One of the five loops: \<open>put\<close> stores an entry in the bank its key names.\<close>

definition recover_entry ::
  "('k \<Rightarrow> u8) \<Rightarrow> ('k \<Rightarrow> bytes \<Rightarrow> policy_bank_entries \<Rightarrow> policy_bank_entries) \<Rightarrow>
   policy_bank_entries list \<Rightarrow> ('k \<times> bytes) option \<Rightarrow> (recovery_error, policy_bank_entries list) res" where
  "recover_entry bank_of put banks entry =
     (case entry of None \<Rightarrow> Err IterationFailed
      | Some (key, value) \<Rightarrow>
        rbind (map_recovery_error InvalidEntry (policy_bank (bank_of key))) (\<lambda>bank.
        rbind (map_recovery_error InvalidEntry (validate_recovered_policy_value value)) (\<lambda>_.
        Ok (banks[bank := put key value (banks ! bank)]))))"

definition recover_policy_entries ::
  "('s, 't, 'c) kernel_reads \<Rightarrow> ('s, 't, 'c) PolicySynchronizer \<Rightarrow>
   (recovery_error, ('s, 't, 'c) PolicySynchronizer) res" where
  "recover_policy_entries reads s =
     rbind (try_fold (recover_entry key_bank (\<lambda>k v. bank_identity_update (bt_insert k v)))
       (policy_banks s) (hash_iter reads (identity_map s))) (\<lambda>banks.
     rbind (try_fold (recover_entry key_bank (\<lambda>k v. bank_ipv4_update (bt_insert k v)))
       banks (hash_iter reads (ipv4_map s))) (\<lambda>banks.
     rbind (try_fold (recover_entry lpm_key_bank (\<lambda>k v. bank_ipv6_update (bt_insert k v)))
       banks (lpm_iter reads (ipv6_map s))) (\<lambda>banks.
     rbind (try_fold (recover_entry key_bank (\<lambda>k v. bank_egress_ipv4_update (bt_insert k v)))
       banks (hash_iter reads (egress_ipv4_map s))) (\<lambda>banks.
     rbind (try_fold (recover_entry lpm_key_bank (\<lambda>k v. bank_egress_ipv6_update (bt_insert k v)))
       banks (lpm_iter reads (egress_ipv6_map s))) (\<lambda>banks.
     Ok (s\<lparr>policy_banks := banks\<rparr>))))))"

definition bank_map_values :: "policy_bank_entries \<Rightarrow> bytes list" where
  "bank_map_values bank = bt_values (bank_identity bank) @ bt_values (bank_ipv4 bank) @ bt_values (bank_ipv6 bank) @
     bt_values (bank_egress_ipv4 bank) @ bt_values (bank_egress_ipv6 bank)"

definition validate_active_policy_revision ::
  "('s, 't, 'c) PolicySynchronizer \<Rightarrow> u8 \<Rightarrow> u64 \<Rightarrow> (recovery_error, unit) res" where
  "validate_active_policy_revision s bank revision =
     (if list_all (\<lambda>value. field value 16 8 = revision) (bank_map_values (policy_banks s ! unat bank))
      then Ok () else Err MixedRevision)"

text \<open>The policy part of the recovery of the dataplane.\<close>

definition recover_policy_state ::
  "('s, 't, 'c) kernel_reads \<Rightarrow> ('s, 't, 'c) PolicySynchronizer \<Rightarrow>
   (recovery_error, (u64 \<times> u64) option \<times> ('s, 't, 'c) PolicySynchronizer) res" where
  "recover_policy_state reads s =
     rbind (recover_policy_entries reads s) (\<lambda>s.
     case config_get reads (sync_config s) of None \<Rightarrow> Err ConfigReadFailed
     | Some config \<Rightarrow>
       rbind (map_recovery_error InvalidConfig (decode_recovered_policy_config config)) (\<lambda>decoded.
       case decoded of None \<Rightarrow> Ok (None, s)
       | Some (epoch, revision, entry_count, bank) \<Rightarrow>
         if policy_entry_count_for_bank s bank \<noteq> unat entry_count then Err EntryCountMismatch
         else rbind (validate_active_policy_revision s bank revision) (\<lambda>_.
           Ok (Some (epoch, revision), s\<lparr>active_bank := bank, applied_epoch := epoch\<rparr>))))"

text \<open>The synchronizer a starting agent builds over the pinned maps, and what it tells its state.\<close>

definition new_synchronizer :: "('s, 't, 'c) PolicySynchronizer \<Rightarrow> ('s, 't, 'c) PolicySynchronizer" where
  "new_synchronizer s = s\<lparr>policy_banks := [empty_bank, empty_bank], active_bank := 0, applied_epoch := 0\<rparr>"

definition apply_recovered_policy ::
  "(u64 \<times> u64) option \<Rightarrow> ('s, 't, 'c) PolicySynchronizer \<Rightarrow> AgentPolicyState \<Rightarrow> AgentPolicyState" where
  "apply_recovered_policy recovered s state = (case recovered of None \<Rightarrow> state
   | Some (epoch, revision) \<Rightarrow> state\<lparr>applied_policy_epoch := epoch, applied_policy_revision := revision,
       policy_map_entries := active_policy_entry_count s, active_policy_bank := ucast (active_bank s)\<rparr>)"

section \<open>The encoded snapshot\<close>

lemma desired_bank_Ok:
  assumes "desired_bank policy revision bank = Ok desired"
  shows "desired_policy_entries (dp_entries policy) revision bank = Ok (bank_identity desired)"
    and "desired_ipv4_policy_entries (dp_ipv4_entries policy) revision bank = Ok (bank_ipv4 desired)"
    and "desired_ipv6_policy_entries (dp_ipv6_entries policy) revision bank = Ok (bank_ipv6 desired)"
    and "desired_egress_ipv4_policy_entries (dp_egress_ipv4_entries policy) revision bank = Ok (bank_egress_ipv4 desired)"
    and "desired_egress_ipv6_policy_entries (dp_egress_ipv6_entries policy) revision bank = Ok (bank_egress_ipv6 desired)"
  using assms by (auto simp: desired_bank_def res_simps)

lemmas desired_defs = desired_policy_entries_def desired_ipv4_policy_entries_def desired_ipv6_policy_entries_def
  desired_egress_ipv4_policy_entries_def desired_egress_ipv6_policy_entries_def

lemma desired_bank_wf:
  assumes "desired_bank policy revision bank = Ok desired"
  shows "bank_wf bank desired"
  using desired_bank_Ok [OF assms, unfolded desired_defs] unfolding bank_wf_def keys_in_def
  by (blast dest: identity_kind.desired_entries_image ipv4_kind.desired_entries_image
      ipv6_kind.desired_entries_image egress_ipv4_kind.desired_entries_image egress_ipv6_kind.desired_entries_image)

text \<open>Entries whose decisions survive recovery.\<close>

definition entries_recoverable :: "'k policy_entry list \<Rightarrow> bool" where
  "entries_recoverable es \<longleftrightarrow>
     (\<forall>e \<in> set es. record_ok (entry_decision e) \<and> (\<forall>s \<in> set_option (entry_shadow e). record_ok s))"

definition snapshot_recoverable :: "dataplane_policy \<Rightarrow> bool" where
  "snapshot_recoverable policy \<longleftrightarrow>
     entries_recoverable (dp_entries policy) \<and> entries_recoverable (dp_ipv4_entries policy) \<and>
     entries_recoverable (dp_ipv6_entries policy) \<and> entries_recoverable (dp_egress_ipv4_entries policy) \<and>
     entries_recoverable (dp_egress_ipv6_entries policy)"

definition value_at :: "u64 \<Rightarrow> bytes \<Rightarrow> bool" where
  "value_at revision v \<longleftrightarrow> validate_recovered_policy_value v = Ok () \<and> field v 16 8 = revision"

context entry_kind
begin

lemma desired_values:
  assumes "desired_entries validate encode_key entries revision bank = Ok m"
    and "entries_recoverable entries" "revision \<noteq> 0" "(k, v) \<in> set m"
  shows "value_at revision v" "\<exists>e \<in> set entries. validate e = Ok () \<and> k = encode_key e bank"
proof -
  note img = desired_entries_image [OF assms(1)]
  from assms(4) have "k \<in> fst ` set m" by force
  from img(5) [OF this] obtain e where e: "e \<in> set entries" "k = encode_key e bank" by blast
  have "bt_get m k = Some v" using assms(4) img(1) by (simp add: bt_get_eq_Some)
  moreover have "rows_map entries (entry_key e) = Some (entry_decision e, entry_shadow e)"
    using rows_map_Some [OF img(2)] e(1) by blast
  ultimately have "v = encode_policy_decisions (entry_decision e) (entry_shadow e) revision"
    using e(2) img(4) [of e] by simp
  moreover have "record_ok (entry_decision e)" "\<forall>s \<in> set_option (entry_shadow e). record_ok s"
    using assms(2) e(1) by (auto simp: entries_recoverable_def)
  ultimately show "value_at revision v"
    using recovery_accepts_encoded assms(3) encoded_fields(2) by (simp add: value_at_def record_ok_def)
  show "\<exists>e \<in> set entries. validate e = Ok () \<and> k = encode_key e bank"
    using e img(3) by (auto simp: list_all_iff)
qed

end

text \<open>What every entry of the maps and of the records satisfies.\<close>

definition hash_entry_ok :: "bytes \<times> bytes \<Rightarrow> bool" where
  "hash_entry_ok e \<longleftrightarrow> key_bank (fst e) < POLICY_BANK_COUNT \<and> validate_recovered_policy_value (snd e) = Ok ()"

definition lpm_entry_ok :: "lpm_key \<times> bytes \<Rightarrow> bool" where
  "lpm_entry_ok e \<longleftrightarrow> lpm_key_bank (fst e) < POLICY_BANK_COUNT \<and> 64 \<le> fst (fst e) \<and> fst (fst e) \<le> 192 \<and>
     length (snd (fst e)) = 24 \<and> validate_recovered_policy_value (snd e) = Ok ()"

definition bank_entries_ok :: "policy_bank_entries \<Rightarrow> bool" where
  "bank_entries_ok bank \<longleftrightarrow>
     list_all hash_entry_ok (bank_identity bank) \<and> list_all hash_entry_ok (bank_ipv4 bank) \<and>
     list_all lpm_entry_ok (bank_ipv6 bank) \<and> list_all hash_entry_ok (bank_egress_ipv4 bank) \<and>
     list_all lpm_entry_ok (bank_egress_ipv6 bank)"

lemma prefix_key_range:
  "p \<le> 128 \<Longrightarrow> (64 :: u32) \<le> 64 + ucast p \<and> 64 + ucast p \<le> (192 :: u32)" for p :: u8
proof -
  assume "p \<le> 128"
  then have "unat p \<le> 128" by (simp add: word_le_nat_alt)
  moreover have "unat (ucast p :: u32) = unat p"
    using unsigned_less [of p, where ?'a = nat] by (simp add: unsigned_ucast_eq take_bit_nat_eq_self)
  ultimately have "unat (64 + ucast p :: u32) = 64 + unat p"
    by (subst unat_add_lem [THEN iffD1]) simp_all
  then show ?thesis using \<open>unat p \<le> 128\<close> by (simp add: word_le_nat_alt)
qed

lemma encoded_lpm_shape:
  "validate_ipv6_policy_entry e = Ok () \<Longrightarrow> 64 \<le> fst (encode_ipv6_policy_key e b) \<and>
     fst (encode_ipv6_policy_key e b) \<le> 192 \<and> length (snd (encode_ipv6_policy_key e b)) = 24"
  "validate_egress_ipv6_policy_entry x = Ok () \<Longrightarrow> 64 \<le> fst (encode_egress_ipv6_policy_key x b) \<and>
     fst (encode_egress_ipv6_policy_key x b) \<le> 192 \<and> length (snd (encode_egress_ipv6_policy_key x b)) = 24"
  by (auto simp: validate_ipv6_policy_entry_def encode_ipv6_policy_key_def validate_egress_ipv6_policy_entry_def
      encode_egress_ipv6_policy_key_def not_less prefix_key_range split: if_splits)

lemma desired_bank_entries:
  assumes "desired_bank policy revision bank = Ok desired" "snapshot_recoverable policy"
    and "revision \<noteq> 0" "bank < POLICY_BANK_COUNT"
  shows "bank_entries_ok desired" "list_all (value_at revision) (bank_map_values desired)"
proof -
  note ok = desired_bank_Ok [OF assms(1), unfolded desired_defs]
  note rec = assms(2) [unfolded snapshot_recoverable_def]
  have 1: "hash_entry_ok e \<and> value_at revision (snd e)" if "e \<in> set (bank_identity desired)" for e
    using identity_kind.desired_values [OF ok(1) _ assms(3), of "fst e" "snd e"] rec that assms(4)
    by (auto simp: hash_entry_ok_def value_at_def)
  have 2: "hash_entry_ok e \<and> value_at revision (snd e)" if "e \<in> set (bank_ipv4 desired)" for e
    using ipv4_kind.desired_values [OF ok(2) _ assms(3), of "fst e" "snd e"] rec that assms(4)
    by (auto simp: hash_entry_ok_def value_at_def)
  have 3: "lpm_entry_ok e \<and> value_at revision (snd e)" if "e \<in> set (bank_ipv6 desired)" for e
    using ipv6_kind.desired_values [OF ok(3) _ assms(3), of "fst e" "snd e"] rec that assms(4)
    by (auto simp: lpm_entry_ok_def value_at_def encoded_lpm_shape)
  have 4: "hash_entry_ok e \<and> value_at revision (snd e)" if "e \<in> set (bank_egress_ipv4 desired)" for e
    using egress_ipv4_kind.desired_values [OF ok(4) _ assms(3), of "fst e" "snd e"] rec that assms(4)
    by (auto simp: hash_entry_ok_def value_at_def)
  have 5: "lpm_entry_ok e \<and> value_at revision (snd e)" if "e \<in> set (bank_egress_ipv6 desired)" for e
    using egress_ipv6_kind.desired_values [OF ok(5) _ assms(3), of "fst e" "snd e"] rec that assms(4)
    by (auto simp: lpm_entry_ok_def value_at_def encoded_lpm_shape)
  show "bank_entries_ok desired" using 1 2 3 4 5 by (simp add: bank_entries_ok_def list_all_iff)
  show "list_all (value_at revision) (bank_map_values desired)"
    using 1 2 3 4 5 by (auto simp: bank_map_values_def bt_values_def list_all_iff)
qed

section \<open>Every entry stays acceptable\<close>

definition all_entries :: "('k \<times> bytes \<Rightarrow> bool) \<Rightarrow> ('s \<Rightarrow> 'k \<rightharpoonup> bytes) \<Rightarrow> 's \<Rightarrow> bool" where
  "all_entries P view s \<longleftrightarrow> (\<forall>k v. view s k = Some v \<longrightarrow> P (k, v))"

lemma calls_all_entries:
  assumes "map_contract ops view" "list_all P m" "all_entries P view s"
  shows "all_entries P view (snd (run_calls (removals ops ks @ insertions ops m) s))"
proof -
  have "all_entries P view s \<longrightarrow> all_entries P view (snd (run_calls (removals ops ks @ insertions ops m) s))"
  proof (rule run_calls_frame [where P = "\<lambda>s t. all_entries P view s \<longrightarrow> all_entries P view t"])
    fix c s
    assume "c \<in> set (removals ops ks @ insertions ops m)"
    then consider k where "c = map_remove ops k" | k v where "P (k, v)" "c = map_insert ops k v"
      using assms(2) by (fastforce simp: list_all_iff)
    then show "all_entries P view s \<longrightarrow> all_entries P view (snd (c s))"
      by cases (auto simp: all_entries_def contract_views [OF assms(1)] split: if_splits)
  qed auto
  then show ?thesis using assms(3) by simp
qed

lemma replace_all_entries:
  assumes "map_contract ops view" "list_all P desired" "all_entries P view s"
  shows "all_entries P view (snd (replace_policy_entries ops current desired s))"
  unfolding replace_policy_entries_def by (rule calls_all_entries [OF assms])

lemma restore_all_entries:
  assumes "map_contract ops view" "list_all P previous" "all_entries P view s"
  shows "all_entries P view (snd (restore_policy_entries ops bank_of previous b s))"
  using calls_all_entries [OF assms] assms(3) by (simp add: restore_policy_entries_def split: option.split)

lemma clear_all_entries:
  assumes "map_contract ops view" "all_entries P view s"
  shows "all_entries P view (snd (clear_policy_bank ops entries s))"
  using calls_all_entries [OF assms(1) _ assms(2), of "[]" "map fst entries"] by (simp add: clear_policy_bank_def)

definition maps_ok ::
  "('s \<Rightarrow> bytes \<rightharpoonup> bytes) \<Rightarrow> ('t \<Rightarrow> lpm_key \<rightharpoonup> bytes) \<Rightarrow> ('s, 't, 'c) PolicySynchronizer \<Rightarrow> bool" where
  "maps_ok vh vl s \<longleftrightarrow>
     all_entries hash_entry_ok vh (identity_map s) \<and> all_entries hash_entry_ok vh (ipv4_map s) \<and>
     all_entries lpm_entry_ok vl (ipv6_map s) \<and> all_entries hash_entry_ok vh (egress_ipv4_map s) \<and>
     all_entries lpm_entry_ok vl (egress_ipv6_map s)"

text \<open>Both the maps and the records of the banks.\<close>

definition entries_ok ::
  "('s \<Rightarrow> bytes \<rightharpoonup> bytes) \<Rightarrow> ('t \<Rightarrow> lpm_key \<rightharpoonup> bytes) \<Rightarrow> ('s, 't, 'c) PolicySynchronizer \<Rightarrow> bool" where
  "entries_ok vh vl s \<longleftrightarrow> maps_ok vh vl s \<and> list_all bank_entries_ok (policy_banks s)"

lemma stage_maps_ok:
  assumes "map_contract (hash_ops os) vh" "map_contract (lpm_ops os) vl" "bank_entries_ok desired" "maps_ok vh vl s"
  shows "maps_ok vh vl (snd (stage_policy_entries os previous desired s))"
proof -
  have "maps_ok vh vl s \<longrightarrow> maps_ok vh vl (snd (stage_policy_entries os previous desired s))"
    unfolding stage_policy_entries_def
  proof (rule run_calls_frame [where P = "\<lambda>s t. maps_ok vh vl s \<longrightarrow> maps_ok vh vl t"], goal_cases)
    case (1 c s)
    then show ?case
      using replace_all_entries [OF assms(1)] replace_all_entries [OF assms(2)] assms(3)
      by (auto simp: bank_entries_ok_def maps_ok_def split_beta Let_def)
  qed auto
  then show ?thesis using assms(4) by simp
qed

lemma rollback_maps_ok:
  assumes "map_contract (hash_ops os) vh" "map_contract (lpm_ops os) vl" "bank_entries_ok previous" "maps_ok vh vl s"
  shows "maps_ok vh vl (snd (rollback_policy_stages os previous b s))"
  using restore_all_entries [OF assms(1)] restore_all_entries [OF assms(2)] assms(3,4)
  by (simp add: rollback_policy_stages_def split_beta Let_def maps_ok_def bank_entries_ok_def)

lemma collect_entries_ok:
  assumes "map_contract (hash_ops os) vh" "map_contract (lpm_ops os) vl" "entries_ok vh vl s" "i < length (policy_banks s)"
  shows "entries_ok vh vl (collect_old_bank os i s)"
proof -
  have "bank_entries_ok (policy_banks s ! i)" using assms(3,4) by (simp add: entries_ok_def list_all_length)
  then have "bank_entries_ok (policy_banks (collect_old_bank os i s) ! i)"
    using assms(4) by (simp add: collect_old_bank_def split_beta Let_def bank_entries_ok_def)
  moreover have "policy_banks (collect_old_bank os i s) = (policy_banks s)[i := policy_banks (collect_old_bank os i s) ! i]"
    using assms(4) by (simp add: collect_old_bank_def split_beta Let_def)
  moreover have "maps_ok vh vl (collect_old_bank os i s)"
    using clear_all_entries [OF assms(1)] clear_all_entries [OF assms(2)] assms(3)
    by (simp add: collect_old_bank_def split_beta Let_def maps_ok_def entries_ok_def)
  ultimately show ?thesis using assms(3) set_update_subset_insert [of "policy_banks s" i]
    unfolding entries_ok_def list_all_iff by (metis (no_types, lifting) insertE subsetD)
qed

lemma rollback_entries_ok:
  assumes "kernel_contract os vh vl vc" "bank_wf b previous" "bank_entries_ok previous" "entries_ok vh vl s"
  shows "entries_ok vh vl (snd (rolled_back (rollback_policy_stages os previous b s)))"
  using rollback_maps_ok [of os vh vl previous s b] rollback_frame [of os vh vl b previous s] assms
  by (simp add: entries_ok_def kernel_contract_def rolled_back_def same_books_def)

lemma apply_entries_ok:
  assumes "kernel_contract os vh vl vc" "sync_ok vh vl s" "entries_ok vh vl s"
    and "bank_wf b desired" "bank_entries_ok desired" "b < POLICY_BANK_COUNT"
  shows "entries_ok vh vl (snd (apply_policy_entries os desired epoch revision b s))"
proof -
  note k = assms(1) [unfolded kernel_contract_def]
  let ?prev = "policy_banks s ! unat b"
  let ?t = "snd (stage_policy_entries os ?prev desired s)"
  have len: "length (policy_banks s) = 2" "unat b < 2" "unat (active_bank s) < 2"
    using assms(2,6) by (simp_all add: sync_ok_def POLICY_BANK_COUNT_def word_less_nat_alt)
  have prev: "bank_wf b ?prev" "bank_entries_ok ?prev"
    using assms(2,3,6) len by (auto simp: sync_ok_def two_banks entries_ok_def list_all_length)
  have "maps_ok vh vl ?t" using stage_maps_ok [of os vh vl desired s ?prev] k assms(3,5) by (simp add: entries_ok_def)
  moreover have "policy_banks ?t = policy_banks s" "active_bank ?t = active_bank s"
    using stage_frame [of os vh vl b ?prev desired s] k prev(1) assms(4) by (simp_all add: same_books_def)
  ultimately have t: "entries_ok vh vl (?t\<lparr>sync_config := c\<rparr>)"
    "entries_ok vh vl (?t\<lparr>sync_config := c, policy_banks := (policy_banks s)[unat b := desired], active_bank := b\<rparr>)" for c
    using assms(3,5) set_update_subset_insert [of "policy_banks s" "unat b" desired]
    by (auto simp: entries_ok_def maps_ok_def list_all_iff)
  have t0: "entries_ok vh vl ?t" using t(1) [of "sync_config ?t"] by simp
  have collected: "entries_ok vh vl (collect_old_bank os (unat (active_bank s))
      (?t\<lparr>sync_config := c, policy_banks := (policy_banks s)[unat b := desired], active_bank := b\<rparr>))" for c
    by (rule collect_entries_ok [OF _ _ t(2)]) (use k len in auto)
  show ?thesis
    using rollback_entries_ok [OF assms(1) prev] t t0 collected \<open>active_bank ?t = active_bank s\<close>
      \<open>policy_banks ?t = policy_banks s\<close>
    by (simp add: apply_policy_entries_def Let_def split_beta split: sum.split)
qed

section \<open>What synchronization keeps\<close>

abbreviation staging_bank :: "('s, 't, 'c) PolicySynchronizer \<Rightarrow> u8" where
  "staging_bank s \<equiv> (active_bank s + 1) mod POLICY_BANK_COUNT"

lemma staging_other: "active_bank s < POLICY_BANK_COUNT \<Longrightarrow> staging_bank s < POLICY_BANK_COUNT \<and> staging_bank s \<noteq> active_bank s"
  unfolding two_banks by (auto simp: POLICY_BANK_COUNT_def)

lemma synchronize_cases:
  fixes s :: "('s, 't, 'c) PolicySynchronizer"
  assumes "synchronize_policies os fetched (s, a) = (r, s', a')"
  obtains
    (kept) "s' = s" "applied_policy_revision a' = applied_policy_revision a" "r \<noteq> Ok ()"
  | (current) snapshot where "s' = s" "applied_policy_revision a' = applied_policy_revision a" "r = Ok ()"
      "fetched = Some snapshot" "snap_source_epoch snapshot = applied_epoch s"
      "dp_revision (snap_policy snapshot) = applied_policy_revision a"
  | (failed) snapshot desired failure where "fetched = Some snapshot"
      "desired_bank (snap_policy snapshot) (dp_revision (snap_policy snapshot)) (staging_bank s) = Ok desired"
      "apply_policy_entries os desired (snap_source_epoch snapshot) (dp_revision (snap_policy snapshot))
         (staging_bank s) s = (failure, s')" "failure \<noteq> Applied" "r = Err (PublicationFailed failure)"
      "applied_policy_revision a' = applied_policy_revision a"
  | (published) snapshot desired t where "fetched = Some snapshot" "r = Ok ()"
      "snap_schema_version snapshot = POLICY_SNAPSHOT_SCHEMA_VERSION"
      "snap_source_epoch snapshot = applied_epoch s \<longrightarrow> applied_policy_revision a < dp_revision (snap_policy snapshot)"
      "desired_bank (snap_policy snapshot) (dp_revision (snap_policy snapshot)) (staging_bank s) = Ok desired"
      "apply_policy_entries os desired (snap_source_epoch snapshot) (dp_revision (snap_policy snapshot))
         (staging_bank s) s = (Applied, t)" "s' = t\<lparr>applied_epoch := snap_source_epoch snapshot\<rparr>"
      "applied_policy_revision a' = dp_revision (snap_policy snapshot)"
proof (cases fetched)
  case None
  then show thesis using assms kept by (auto simp: synchronize_policies_def)
next
  case (Some snapshot)
  let ?rev = "dp_revision (snap_policy snapshot)" and ?epoch = "snap_source_epoch snapshot"
  let ?b = "staging_bank s"
  consider (schema) "snap_schema_version snapshot \<noteq> POLICY_SNAPSHOT_SCHEMA_VERSION"
    | (same) "snap_schema_version snapshot = POLICY_SNAPSHOT_SCHEMA_VERSION" "?epoch = applied_epoch s"
        "?rev = applied_policy_revision a"
    | (stale) "snap_schema_version snapshot = POLICY_SNAPSHOT_SCHEMA_VERSION" "?epoch = applied_epoch s"
        "?rev < applied_policy_revision a"
    | (fresh) "snap_schema_version snapshot = POLICY_SNAPSHOT_SCHEMA_VERSION"
        "?epoch = applied_epoch s \<longrightarrow> applied_policy_revision a < ?rev" by force
  then show thesis
  proof cases
    case schema
    then show thesis using assms Some kept by (auto simp: synchronize_policies_def)
  next
    case same
    then show thesis using assms Some current by (auto simp: synchronize_policies_def Let_def)
  next
    case stale
    then have "?rev \<noteq> applied_policy_revision a" by simp
    then show thesis using stale assms Some kept by (auto simp: synchronize_policies_def Let_def)
  next
    case fresh
    then have guards: "\<not> (?epoch = applied_epoch s \<and> ?rev = applied_policy_revision a)"
      "\<not> (?epoch = applied_epoch s \<and> ?rev < applied_policy_revision a)" by auto
    show thesis
    proof (cases "desired_bank (snap_policy snapshot) ?rev ?b")
      case (Inl e)
      then show thesis using assms Some fresh guards kept by (auto simp: synchronize_policies_def Let_def)
    next
      case (Inr desired)
      obtain failure t where run: "apply_policy_entries os desired ?epoch ?rev ?b s = (failure, t)" by (metis surj_pair)
      then show thesis using assms Some fresh guards failed published Inr
        by (cases failure)
          (auto simp: synchronize_policies_def Let_def simp del: not_less)
    qed
  qed
qed

text \<open>The bank the dataplane reads is exactly the one recorded, under the configuration that names it.\<close>

definition active_bank_ok ::
  "('s \<Rightarrow> bytes \<rightharpoonup> bytes) \<Rightarrow> ('t \<Rightarrow> lpm_key \<rightharpoonup> bytes) \<Rightarrow> ('c \<Rightarrow> bytes) \<Rightarrow>
   ('s, 't, 'c) PolicySynchronizer \<Rightarrow> u64 \<Rightarrow> bool" where
  "active_bank_ok vh vl vc s revision \<longleftrightarrow>
     (let bank = policy_banks s ! unat (active_bank s)
      in revision \<noteq> 0 \<and> applied_epoch s \<noteq> 0 \<and> holds_bank vh vl (active_bank s) bank s \<and>
         list_all (value_at revision) (bank_map_values bank) \<and>
         encode_policy_config (applied_epoch s) revision (bank_entry_count bank) (active_bank s) =
           Ok (vc (sync_config s)))"

text \<open>Nothing was published yet.\<close>

definition unpublished :: "('c \<Rightarrow> bytes) \<Rightarrow> ('s, 't, 'c) PolicySynchronizer \<Rightarrow> u64 \<Rightarrow> bool" where
  "unpublished vc s revision \<longleftrightarrow> vc (sync_config s) = replicate 24 0 \<and> applied_epoch s = 0 \<and> revision = 0"

definition agent_inv ::
  "('s \<Rightarrow> bytes \<rightharpoonup> bytes) \<Rightarrow> ('t \<Rightarrow> lpm_key \<rightharpoonup> bytes) \<Rightarrow> ('c \<Rightarrow> bytes) \<Rightarrow>
   ('s, 't, 'c) PolicySynchronizer \<Rightarrow> u64 \<Rightarrow> bool" where
  "agent_inv vh vl vc s revision \<longleftrightarrow> sync_ok vh vl s \<and> entries_ok vh vl s \<and>
     (unpublished vc s revision \<or> active_bank_ok vh vl vc s revision)"

text \<open>Snapshots the invariant is kept for: what a controller with a pod serves.\<close>

definition snapshot_ok :: "PolicyStateSnapshot \<Rightarrow> bool" where
  "snapshot_ok snapshot \<longleftrightarrow> snap_source_epoch snapshot \<noteq> 0 \<and> dp_revision (snap_policy snapshot) \<noteq> 0 \<and>
     snapshot_recoverable (snap_policy snapshot)"

lemma holds_same_off:
  assumes "same_off_bank vh vl b s t" "a \<noteq> b" "holds_bank vh vl a bank s"
  shows "holds_bank vh vl a bank t"
  using assms unfolding holds_bank_def same_off_bank_def same_off_def by simp

lemma sync_ok_bank_wf: "sync_ok vh vl s \<Longrightarrow> b < POLICY_BANK_COUNT \<Longrightarrow> bank_wf b (policy_banks s ! unat b)"
  unfolding sync_ok_def two_banks by auto

lemma failed_keeps:
  assumes "kernel_contract os vh vl vc" "sync_ok vh vl s" "bank_wf (staging_bank s) desired"
    and "apply_policy_entries os desired epoch revision (staging_bank s) s = (failure, s')" "failure \<noteq> Applied"
  shows "unpublished vc s' r = unpublished vc s r" "active_bank_ok vh vl vc s r \<Longrightarrow> active_bank_ok vh vl vc s' r"
proof -
  have b: "staging_bank s < POLICY_BANK_COUNT" "staging_bank s \<noteq> active_bank s"
    using staging_other [of s] assms(2) by (auto simp: sync_ok_def)
  note f = failed_apply_invisible [OF assms(1) sync_ok_bank_wf [OF assms(2) b(1)] assms(3-5)]
  then show "unpublished vc s' r = unpublished vc s r" by (simp add: unpublished_def)
  show "active_bank_ok vh vl vc s' r" if "active_bank_ok vh vl vc s r"
    using that f b(2) unfolding active_bank_ok_def Let_def by (auto intro: holds_same_off)
qed

lemma published_holds:
  assumes "kernel_contract os vh vl vc" "sync_ok vh vl s" "snapshot_ok snapshot"
    and "desired_bank (snap_policy snapshot) (dp_revision (snap_policy snapshot)) (staging_bank s) = Ok desired"
    and "apply_policy_entries os desired (snap_source_epoch snapshot) (dp_revision (snap_policy snapshot))
         (staging_bank s) s = (Applied, t)"
  shows "active_bank_ok vh vl vc (t\<lparr>applied_epoch := snap_source_epoch snapshot\<rparr>) (dp_revision (snap_policy snapshot))"
    and "active_bank t = staging_bank s" "policy_banks t ! unat (active_bank t) = desired"
proof -
  have b: "staging_bank s < POLICY_BANK_COUNT" "staging_bank s \<noteq> active_bank s"
    using staging_other [of s] assms(2) by (auto simp: sync_ok_def)
  note i = apply_installs_bank [OF assms(1,2) desired_bank_wf [OF assms(4)] b assms(5)]
  then show t: "active_bank t = staging_bank s" "policy_banks t ! unat (active_bank t) = desired" by auto
  show "active_bank_ok vh vl vc (t\<lparr>applied_epoch := snap_source_epoch snapshot\<rparr>) (dp_revision (snap_policy snapshot))"
    using i t desired_bank_entries(2) [OF assms(4) _ _ b(1)] assms(3)
    by (simp add: active_bank_ok_def Let_def snapshot_ok_def holds_bank_def)
qed

text \<open>What a restart needs: acceptable map entries, and an active bank recorded and configured.\<close>

definition recoverable ::
  "('s \<Rightarrow> bytes \<rightharpoonup> bytes) \<Rightarrow> ('t \<Rightarrow> lpm_key \<rightharpoonup> bytes) \<Rightarrow> ('c \<Rightarrow> bytes) \<Rightarrow>
   ('s, 't, 'c) PolicySynchronizer \<Rightarrow> u64 \<Rightarrow> bool" where
  "recoverable vh vl vc s revision \<longleftrightarrow> maps_ok vh vl s \<and> active_bank s < POLICY_BANK_COUNT \<and>
     bank_wf (active_bank s) (policy_banks s ! unat (active_bank s)) \<and>
     (unpublished vc s revision \<or> active_bank_ok vh vl vc s revision)"

lemma active_bank_wf:
  assumes "sync_ok vh vl s"
  shows "active_bank s < POLICY_BANK_COUNT \<and> bank_wf (active_bank s) (policy_banks s ! unat (active_bank s))"
  using assms sync_ok_bank_wf [OF assms] by (simp add: sync_ok_def)

lemma agent_inv_recoverable: "agent_inv vh vl vc s revision \<Longrightarrow> recoverable vh vl vc s revision"
  by (auto simp: agent_inv_def recoverable_def entries_ok_def dest: active_bank_wf)

lemma synchronize_keeps:
  assumes "kernel_contract os vh vl vc" "agent_inv vh vl vc s (applied_policy_revision a)"
    and "\<forall>snapshot \<in> set_option fetched. snapshot_ok snapshot"
    and run: "synchronize_policies os fetched (s, a) = (r, s', a')"
  shows "recoverable vh vl vc s' (applied_policy_revision a')"
    and "r \<noteq> Err (PublicationFailed RollbackFailed) \<Longrightarrow> agent_inv vh vl vc s' (applied_policy_revision a')"
proof -
  note inv = assms(2) [unfolded agent_inv_def]
  have b: "staging_bank s < POLICY_BANK_COUNT" "staging_bank s \<noteq> active_bank s"
    using staging_other [of s] inv by (auto simp: sync_ok_def)
  have "recoverable vh vl vc s' (applied_policy_revision a') \<and>
    (r \<noteq> Err (PublicationFailed RollbackFailed) \<longrightarrow> agent_inv vh vl vc s' (applied_policy_revision a'))"
    using run
  proof (cases rule: synchronize_cases)
    case (failed snapshot desired failure)
    have rec: "bank_entries_ok desired"
      using desired_bank_entries(1) [OF failed(2) _ _ b(1)] assms(3) failed(1) by (simp add: snapshot_ok_def)
    note wf = desired_bank_wf [OF failed(2)]
    have "active_bank s' = active_bank s" "policy_banks s' = policy_banks s"
      using failed_apply_invisible [OF assms(1) sync_ok_bank_wf [OF _ b(1)] wf failed(3,4)] inv by blast+
    then have "bank_wf (active_bank s') (policy_banks s' ! unat (active_bank s'))" "active_bank s' < POLICY_BANK_COUNT"
      using active_bank_wf inv by auto
    moreover have "entries_ok vh vl s'"
      using apply_entries_ok [OF assms(1) _ _ wf rec b(1)] inv failed(3) by (metis snd_conv)
    moreover have "unpublished vc s' (applied_policy_revision a') \<or> active_bank_ok vh vl vc s' (applied_policy_revision a')"
      using failed_keeps [OF assms(1) _ wf failed(3,4)] inv failed(6) by auto
    moreover have "sync_ok vh vl s'" if "failure \<noteq> RollbackFailed"
      using apply_keeps_sync_ok [OF assms(1) _ wf b failed(3) that] inv by simp
    ultimately show ?thesis using failed(5) by (simp add: recoverable_def agent_inv_def entries_ok_def)
  next
    case (published snapshot desired t)
    have ok: "snapshot_ok snapshot" using assms(3) published(1) by simp
    then have rec: "bank_entries_ok desired"
      using desired_bank_entries(1) [OF published(5) _ _ b(1)] by (simp add: snapshot_ok_def)
    note wf = desired_bank_wf [OF published(5)]
    have "entries_ok vh vl t"
      using apply_entries_ok [OF assms(1) _ _ wf rec b(1)] inv published(6) by (metis snd_conv)
    moreover have "sync_ok vh vl t"
      using apply_keeps_sync_ok [OF assms(1) _ wf b published(6)] inv by simp
    ultimately have "sync_ok vh vl s'" "entries_ok vh vl s'"
      using published(7) by (simp_all add: sync_ok_def covers_bank_def entries_ok_def maps_ok_def)
    then have "agent_inv vh vl vc s' (applied_policy_revision a')"
      using published_holds(1) [OF assms(1) _ ok published(5,6)] inv published(7,8) by (simp add: agent_inv_def)
    then show ?thesis using agent_inv_recoverable by blast
  qed (use assms(2) agent_inv_recoverable in auto)
  then show "recoverable vh vl vc s' (applied_policy_revision a')"
    and "r \<noteq> Err (PublicationFailed RollbackFailed) \<Longrightarrow> agent_inv vh vl vc s' (applied_policy_revision a')" by auto
qed

section \<open>What recovery finds\<close>

text \<open>An iteration without failures lists every entry of the map once.\<close>

definition iterates :: "('k \<times> bytes) option list \<Rightarrow> ('k \<rightharpoonup> bytes) \<Rightarrow> bool" where
  "iterates xs view \<longleftrightarrow> (\<exists>es. xs = map Some es \<and> distinct (map fst es) \<and> map_of es = view)"

definition reads_ok ::
  "('s, 't, 'c) kernel_reads \<Rightarrow> ('s \<Rightarrow> bytes \<rightharpoonup> bytes) \<Rightarrow> ('t \<Rightarrow> lpm_key \<rightharpoonup> bytes) \<Rightarrow> ('c \<Rightarrow> bytes) \<Rightarrow>
   ('s, 't, 'c) PolicySynchronizer \<Rightarrow> bool" where
  "reads_ok reads vh vl vc s \<longleftrightarrow>
     iterates (hash_iter reads (identity_map s)) (vh (identity_map s)) \<and>
     iterates (hash_iter reads (ipv4_map s)) (vh (ipv4_map s)) \<and>
     iterates (lpm_iter reads (ipv6_map s)) (vl (ipv6_map s)) \<and>
     iterates (hash_iter reads (egress_ipv4_map s)) (vh (egress_ipv4_map s)) \<and>
     iterates (lpm_iter reads (egress_ipv6_map s)) (vl (egress_ipv6_map s)) \<and>
     config_get reads (sync_config s) = Some (vc (sync_config s))"

text \<open>The entries of one bank, in the order a \<open>BTreeMap\<close> keeps them.\<close>

definition bank_part :: "('k::linorder \<Rightarrow> u8) \<Rightarrow> u8 \<Rightarrow> ('k \<times> bytes) list \<Rightarrow> ('k, bytes) btree" where
  "bank_part bank_of b es = fold (\<lambda>(k, v). bt_insert k v) (filter (\<lambda>e. bank_of (fst e) = b) es) []"

lemma fold_bt_insert:
  assumes "bt_ok m" "distinct (map fst es)"
  shows "bt_ok (fold (\<lambda>(k, v). bt_insert k v) es m) \<and>
    bt_get (fold (\<lambda>(k, v). bt_insert k v) es m) k = or_else (map_of es k) (bt_get m k)"
  using assms
proof (induction es arbitrary: m)
  case (Cons e es)
  obtain x v where e: "e = (x, v)" by (cases e)
  have "map_of es x = None" using Cons.prems(2) by (simp add: e map_of_eq_None_iff)
  then show ?case using Cons by (auto simp: e bt_ok_insert bt_get_insert)
qed simp

lemma bank_part_get:
  assumes "distinct (map fst es)"
  shows "bt_ok (bank_part bank_of b es)"
    and "bt_get (bank_part bank_of b es) k = (if bank_of k = b then map_of es k else None)"
proof -
  have "distinct (map fst (filter (\<lambda>e. bank_of (fst e) = b) es))" using assms by (rule distinct_map_filter)
  note f = fold_bt_insert [OF bt_ok_Nil this]
  show "bt_ok (bank_part bank_of b es)" using f by (simp add: bank_part_def)
  have "map_of (filter (\<lambda>e. bank_of (fst e) = b) es) k = (if bank_of k = b then map_of es k else None)"
    by (induction es) auto
  then show "bt_get (bank_part bank_of b es) k = (if bank_of k = b then map_of es k else None)"
    using f [of k] by (simp add: bank_part_def bt_get_def [of "[]"])
qed

text \<open>One loop fills the field it is for, in each of the two banks.\<close>

lemma recover_loop:
  assumes "\<And>k v. (k, v) \<in> set es \<Longrightarrow> bank_of k < POLICY_BANK_COUNT \<and> validate_recovered_policy_value v = Ok ()"
  shows "try_fold (recover_entry bank_of put) [x, y] (map Some es) =
    Ok [fold (\<lambda>(k, v). put k v) (filter (\<lambda>e. bank_of (fst e) = 0) es) x,
        fold (\<lambda>(k, v). put k v) (filter (\<lambda>e. bank_of (fst e) = 1) es) y]"
  using assms
proof (induction es arbitrary: x y)
  case (Cons e es)
  obtain k v where e: "e = (k, v)" by (cases e)
  from Cons.prems [of k v] have kv: "bank_of k = 0 \<or> bank_of k = 1" "validate_recovered_policy_value v = Ok ()"
    by (auto simp: e two_banks)
  then have step: "recover_entry bank_of put [x, y] (Some (k, v)) =
      Ok (if bank_of k = 0 then [put k v x, y] else [x, put k v y])" for x y
    by (auto simp: recover_entry_def map_recovery_error_def policy_bank_def POLICY_BANK_COUNT_def word_le_nat_alt)
  have "try_fold (recover_entry bank_of put) [x, y] (map Some es) =
    Ok [fold (\<lambda>(k, v). put k v) (filter (\<lambda>e. bank_of (fst e) = 0) es) x,
        fold (\<lambda>(k, v). put k v) (filter (\<lambda>e. bank_of (fst e) = 1) es) y]" for x y
    by (rule Cons.IH) (use Cons.prems in auto)
  then show ?case using kv(1) by (auto simp: e step)
qed simp

lemma fold_field_update:
  assumes "\<And>f g bank. upd f (upd g bank) = upd (f \<circ> g) bank" "\<And>bank. upd (\<lambda>m. m) bank = bank"
  shows "fold (\<lambda>(k, v). upd (bt_insert k v)) es bank = upd (fold (\<lambda>(k, v). bt_insert k v) es) bank"
  by (induction es arbitrary: bank) (auto simp: assms comp_def id_def split_beta)

lemma recover_loops [simp]:
  "fold (\<lambda>(k, v). bank_identity_update (bt_insert k v)) es = bank_identity_update (fold (\<lambda>(k, v). bt_insert k v) es)"
  "fold (\<lambda>(k, v). bank_ipv4_update (bt_insert k v)) es = bank_ipv4_update (fold (\<lambda>(k, v). bt_insert k v) es)"
  "fold (\<lambda>(k, v). bank_egress_ipv4_update (bt_insert k v)) es =
     bank_egress_ipv4_update (fold (\<lambda>(k, v). bt_insert k v) es)"
  "fold (\<lambda>(k, v). bank_ipv6_update (bt_insert k v)) ls = bank_ipv6_update (fold (\<lambda>(k, v). bt_insert k v) ls)"
  "fold (\<lambda>(k, v). bank_egress_ipv6_update (bt_insert k v)) ls =
     bank_egress_ipv6_update (fold (\<lambda>(k, v). bt_insert k v) ls)"
  by (rule ext, rule fold_field_update, simp_all add: comp_def)+

text \<open>The bank records recovery builds: exactly what the maps hold.\<close>

definition partitions ::
  "('k::linorder \<Rightarrow> u8) \<Rightarrow> ('k \<times> bytes \<Rightarrow> bool) \<Rightarrow> ('k \<times> bytes) option list \<Rightarrow> ('k \<rightharpoonup> bytes) \<Rightarrow> ('k \<times> bytes) list \<Rightarrow> bool" where
  "partitions bank_of P xs view es \<longleftrightarrow> xs = map Some es \<and> (\<forall>e \<in> set es. P e) \<and>
     (\<forall>b. bt_ok (bank_part bank_of b es) \<and> keys_in bank_of b (bank_part bank_of b es) \<and>
       list_all P (bank_part bank_of b es) \<and>
       (\<forall>k. bank_of k = b \<longrightarrow> view k = bt_get (bank_part bank_of b es) k))"

lemma iterates_partitions:
  assumes "iterates xs (view m)" "all_entries P view m"
  shows "\<exists>es. partitions bank_of P xs (view m) es"
proof -
  from assms(1) obtain es where es: "xs = map Some es" "distinct (map fst es)" "map_of es = view m"
    by (auto simp: iterates_def)
  note part = bank_part_get [OF es(2)]
  have P: "P e" if "e \<in> set es" for e
    using that assms(2) es(2) unfolding all_entries_def es(3) [symmetric] by (metis map_of_is_SomeI prod.collapse)
  have mem: "bank_of k = b \<and> (k, v) \<in> set es" if "(k, v) \<in> set (bank_part bank_of b es)" for b k v
    using that part(2) [of bank_of b k] by (auto simp: part(1) es(2) bt_get_eq_Some [symmetric] split: if_splits)
  have "keys_in bank_of b (bank_part bank_of b es)" "list_all P (bank_part bank_of b es)" for b
    using mem P by (auto simp: keys_in_def list_all_iff)
  then have "partitions bank_of P xs (view m) es" using es P part by (simp add: partitions_def)
  then show ?thesis ..
qed

lemma partition_loop:
  assumes "partitions bank_of P xs view es"
    and "\<And>k v. P (k, v) \<Longrightarrow> bank_of k < POLICY_BANK_COUNT \<and> validate_recovered_policy_value v = Ok ()"
  shows "try_fold (recover_entry bank_of put) [x, y] xs =
    Ok [fold (\<lambda>(k, v). put k v) (filter (\<lambda>e. bank_of (fst e) = 0) es) x,
        fold (\<lambda>(k, v). put k v) (filter (\<lambda>e. bank_of (fst e) = 1) es) y]"
proof -
  have "xs = map Some es" "\<forall>e \<in> set es. P e" using assms(1) by (simp_all add: partitions_def)
  then show ?thesis using recover_loop [of es bank_of put x y] assms(2) by blast
qed

lemma entry_ok_bank:
  "hash_entry_ok (k, v) \<Longrightarrow> key_bank k < POLICY_BANK_COUNT \<and> validate_recovered_policy_value v = Ok ()"
  "lpm_entry_ok (l, v) \<Longrightarrow> lpm_key_bank l < POLICY_BANK_COUNT \<and> validate_recovered_policy_value v = Ok ()"
  by (simp_all add: hash_entry_ok_def lpm_entry_ok_def)

lemmas hash_loop = partition_loop [where bank_of = key_bank and P = hash_entry_ok, OF _ entry_ok_bank(1)]
  and lpm_loop = partition_loop [where bank_of = lpm_key_bank and P = lpm_entry_ok, OF _ entry_ok_bank(2)]

lemma recovered_banks:
  assumes "reads_ok reads vh vl vc s" "maps_ok vh vl s"
  shows "\<exists>banks. recover_policy_entries reads (new_synchronizer s) = Ok ((new_synchronizer s)\<lparr>policy_banks := banks\<rparr>) \<and>
    length banks = 2 \<and> list_all bank_entries_ok banks \<and>
    (\<forall>b < POLICY_BANK_COUNT. bank_wf b (banks ! unat b) \<and> holds_bank vh vl b (banks ! unat b) s)"
proof -
  note r = assms(1) [unfolded reads_ok_def] and m = assms(2) [unfolded maps_ok_def]
  obtain e1 e2 e3 e4 e5 where
    e: "partitions key_bank hash_entry_ok (hash_iter reads (identity_map s)) (vh (identity_map s)) e1"
      "partitions key_bank hash_entry_ok (hash_iter reads (ipv4_map s)) (vh (ipv4_map s)) e2"
      "partitions lpm_key_bank lpm_entry_ok (lpm_iter reads (ipv6_map s)) (vl (ipv6_map s)) e3"
      "partitions key_bank hash_entry_ok (hash_iter reads (egress_ipv4_map s)) (vh (egress_ipv4_map s)) e4"
      "partitions lpm_key_bank lpm_entry_ok (lpm_iter reads (egress_ipv6_map s)) (vl (egress_ipv6_map s)) e5"
    using r m by (meson iterates_partitions)
  define bank where "bank b = \<lparr>bank_identity = bank_part key_bank b e1, bank_ipv4 = bank_part key_bank b e2,
    bank_ipv6 = bank_part lpm_key_bank b e3, bank_egress_ipv4 = bank_part key_bank b e4,
    bank_egress_ipv6 = bank_part lpm_key_bank b e5\<rparr>" for b
  have good: "bank_wf b (bank b)" "bank_entries_ok (bank b)" "holds_bank vh vl b (bank b) s" for b
    using e by (simp_all add: partitions_def bank_def bank_wf_def bank_entries_ok_def holds_bank_def)
  have "recover_policy_entries reads (new_synchronizer s) = Ok ((new_synchronizer s)\<lparr>policy_banks := [bank 0, bank 1]\<rparr>)"
    by (simp add: recover_policy_entries_def new_synchronizer_def bank_def bank_part_def empty_bank_def
        hash_loop [OF e(1)] hash_loop [OF e(2)] lpm_loop [OF e(3)] hash_loop [OF e(4)] lpm_loop [OF e(5)])
  moreover have "bank_wf b ([bank 0, bank 1] ! unat b) \<and> holds_bank vh vl b ([bank 0, bank 1] ! unat b) s"
    if "b < POLICY_BANK_COUNT" for b using that good by (auto simp: two_banks)
  ultimately show ?thesis using good(2) by (intro exI [of _ "[bank 0, bank 1]"]) simp
qed

text \<open>The record of a bank is determined by the maps.\<close>

lemma bank_unique:
  assumes "bank_wf b x" "holds_bank vh vl b x s" "bank_wf b y" "holds_bank vh vl b y s"
  shows "x = y"
proof -
  have one: "p = q" if "bt_ok p" "bt_ok q" "keys_in bank_of b p" "keys_in bank_of b q"
      "\<forall>k. bank_of k = b \<longrightarrow> view k = bt_get p k" "\<forall>k. bank_of k = b \<longrightarrow> view k = bt_get q k"
    for p q :: "('k::linorder, bytes) btree" and bank_of view
  proof (rule bt_ext [OF that(1,2)], rule ext)
    fix k
    show "bt_get p k = bt_get q k"
    proof (cases "bank_of k = b")
      case True
      then show ?thesis using that(5,6) by metis
    next
      case False
      then have "k \<notin> fst ` set p" "k \<notin> fst ` set q" using that(3,4) by (auto simp: keys_in_def)
      then show ?thesis by (simp add: bt_get_eq_None [symmetric])
    qed
  qed
  note w = assms [unfolded bank_wf_def holds_bank_def]
  have "bank_identity x = bank_identity y" by (rule one [of _ _ key_bank "vh (identity_map s)"]) (use w in simp_all)
  moreover have "bank_ipv4 x = bank_ipv4 y" by (rule one [of _ _ key_bank "vh (ipv4_map s)"]) (use w in simp_all)
  moreover have "bank_ipv6 x = bank_ipv6 y" by (rule one [of _ _ lpm_key_bank "vl (ipv6_map s)"]) (use w in simp_all)
  moreover have "bank_egress_ipv4 x = bank_egress_ipv4 y"
    by (rule one [of _ _ key_bank "vh (egress_ipv4_map s)"]) (use w in simp_all)
  moreover have "bank_egress_ipv6 x = bank_egress_ipv6 y"
    by (rule one [of _ _ lpm_key_bank "vl (egress_ipv6_map s)"]) (use w in simp_all)
  ultimately show ?thesis by simp
qed

lemma decode_zero_config: "decode_recovered_policy_config (replicate 24 0) = Ok None"
  by (simp add: decode_recovered_policy_config_def decode_recovered_config_def)

lemma value_at_revision: "list_all (value_at revision) vs \<Longrightarrow> list_all (\<lambda>v. field v 16 8 = revision) vs"
  by (auto simp: value_at_def list_all_iff)

lemma recovery_restores:
  assumes "recoverable vh vl vc s revision" "reads_ok reads vh vl vc s"
  shows "\<exists>s'. recover_policy_state reads (new_synchronizer s) =
      Ok (if revision = 0 then None else Some (applied_epoch s, revision), s') \<and>
    agent_inv vh vl vc s' revision \<and> applied_epoch s' = applied_epoch s \<and>
    (revision \<noteq> 0 \<longrightarrow> active_bank s' = active_bank s \<and>
      policy_banks s' ! unat (active_bank s') = policy_banks s ! unat (active_bank s))"
proof -
  note rec = assms(1) [unfolded recoverable_def]
  let ?n = "new_synchronizer s"
  obtain banks where banks: "recover_policy_entries reads ?n = Ok (?n\<lparr>policy_banks := banks\<rparr>)"
      "length banks = 2" "list_all bank_entries_ok banks"
    and good: "\<And>b. b < POLICY_BANK_COUNT \<Longrightarrow> bank_wf b (banks ! unat b) \<and> holds_bank vh vl b (banks ! unat b) s"
    using recovered_banks [OF assms(2)] rec by blast
  define t where "t b epoch = ?n\<lparr>policy_banks := banks, active_bank := b, applied_epoch := epoch\<rparr>" for b epoch
  have same: "holds_bank vh vl c bank (t b epoch) = holds_bank vh vl c bank s" "maps_ok vh vl (t b epoch) = maps_ok vh vl s"
    for b c bank epoch by (simp_all add: t_def new_synchronizer_def holds_bank_def maps_ok_def)
  have inv: "sync_ok vh vl (t b epoch) \<and> entries_ok vh vl (t b epoch)" if "b < POLICY_BANK_COUNT" for b epoch
    using that banks(2,3) good [of 0] good [of 1] rec holds_covers [of vh vl _ _ "t b epoch"]
    by (simp add: sync_ok_def entries_ok_def same) (simp add: t_def two_banks)
  have config: "config_get reads (sync_config ?n) = Some (vc (sync_config s))"
    using assms(2) by (simp add: reads_ok_def new_synchronizer_def)
  have b: "active_bank s < POLICY_BANK_COUNT" using rec by simp
  from rec consider "unpublished vc s revision" | "active_bank_ok vh vl vc s revision" by blast
  then show ?thesis
  proof cases
    case 1
    then have "recover_policy_state reads ?n = Ok (None, t 0 0)"
      using banks(1) config decode_zero_config
      by (simp add: recover_policy_state_def unpublished_def map_recovery_error_def t_def new_synchronizer_def)
    moreover have "unpublished vc (t 0 0) revision" using 1 by (simp add: unpublished_def t_def new_synchronizer_def)
    ultimately show ?thesis using 1 inv [of 0 0]
      by (intro exI [of _ "t 0 0"]) (simp add: agent_inv_def unpublished_def POLICY_BANK_COUNT_def t_def)
  next
    case 2
    note a = this [unfolded active_bank_ok_def Let_def]
    have eq: "banks ! unat (active_bank s) = policy_banks s ! unat (active_bank s)"
      by (rule bank_unique [of "active_bank s" _ vh vl s]) (use good [OF b] a rec in auto)
    have dec: "decode_recovered_policy_config (vc (sync_config s)) = Ok (Some (applied_epoch s, revision,
        of_nat (bank_entry_count (policy_banks s ! unat (active_bank s))), active_bank s))"
      "unat (of_nat (bank_entry_count (policy_banks s ! unat (active_bank s))) :: u32) =
        bank_entry_count (policy_banks s ! unat (active_bank s))"
      using config_roundtrip [of "applied_epoch s" revision] a by blast+
    have "recover_policy_state reads ?n = Ok (Some (applied_epoch s, revision), t (active_bank s) (applied_epoch s))"
      using banks(1) config dec a value_at_revision
      by (simp add: recover_policy_state_def map_recovery_error_def t_def policy_entry_count_for_bank_def
          validate_active_policy_revision_def eq)
    moreover have "active_bank_ok vh vl vc (t (active_bank s) (applied_epoch s)) revision"
      using a by (simp add: active_bank_ok_def same Let_def) (simp add: t_def eq new_synchronizer_def)
    ultimately show ?thesis using a inv [OF b]
      by (intro exI [of _ "t (active_bank s) (applied_epoch s)"]) (simp add: agent_inv_def eq, simp add: t_def eq)
  qed
qed

section \<open>Runs of the agent\<close>

text \<open>
  The agent as a machine over its synchronizer and its published state: it starts over empty maps,
  synchronizes with whatever the controller answers, and restarts at any time.  The flag is false
  after a rollback that itself failed; the machine then restarts before it synchronizes again.
\<close>

inductive agent_reach ::
  "('s, 't, 'c) kernel_calls \<Rightarrow> ('s, 't, 'c) kernel_reads \<Rightarrow> ('s \<Rightarrow> bytes \<rightharpoonup> bytes) \<Rightarrow> ('t \<Rightarrow> lpm_key \<rightharpoonup> bytes) \<Rightarrow>
   ('c \<Rightarrow> bytes) \<Rightarrow> bool \<Rightarrow> ('s, 't, 'c) PolicySynchronizer \<Rightarrow> AgentPolicyState \<Rightarrow> bool"
  for os reads vh vl vc where
  start: "s = new_synchronizer s \<Longrightarrow> vh (identity_map s) = Map.empty \<Longrightarrow> vh (ipv4_map s) = Map.empty \<Longrightarrow>
     vl (ipv6_map s) = Map.empty \<Longrightarrow> vh (egress_ipv4_map s) = Map.empty \<Longrightarrow> vl (egress_ipv6_map s) = Map.empty \<Longrightarrow>
     vc (sync_config s) = replicate 24 0 \<Longrightarrow> applied_policy_revision a = 0 \<Longrightarrow>
     agent_reach os reads vh vl vc True s a"
| sync: "agent_reach os reads vh vl vc True s a \<Longrightarrow> \<forall>snapshot \<in> set_option fetched. snapshot_ok snapshot \<Longrightarrow>
     synchronize_policies os fetched (s, a) = (r, s', a') \<Longrightarrow>
     agent_reach os reads vh vl vc (r \<noteq> Err (PublicationFailed RollbackFailed)) s' a'"
| restart: "agent_reach os reads vh vl vc clean s a \<Longrightarrow> reads_ok reads vh vl vc s \<Longrightarrow>
     recover_policy_state reads (new_synchronizer s) = Ok (recovered, s') \<Longrightarrow> applied_policy_revision a0 = 0 \<Longrightarrow>
     agent_reach os reads vh vl vc True s' (apply_recovered_policy recovered s' a0)"

lemma start_inv:
  assumes "s = new_synchronizer s" "vh (identity_map s) = Map.empty" "vh (ipv4_map s) = Map.empty"
    "vl (ipv6_map s) = Map.empty" "vh (egress_ipv4_map s) = Map.empty" "vl (egress_ipv6_map s) = Map.empty"
    "vc (sync_config s) = replicate 24 0"
  shows "agent_inv vh vl vc s 0"
proof -
  have "policy_banks s = [empty_bank, empty_bank]" "active_bank s = 0" "applied_epoch s = 0"
    by (subst assms(1), simp add: new_synchronizer_def)+
  then show ?thesis using assms(2-7)
    by (simp add: agent_inv_def sync_ok_def entries_ok_def maps_ok_def all_entries_def unpublished_def covers_bank_def
        covered_def bank_wf_def bank_entries_ok_def empty_bank_def keys_in_def POLICY_BANK_COUNT_def)
qed

lemma reach_inv:
  assumes "agent_reach os reads vh vl vc clean s a" "kernel_contract os vh vl vc"
  shows "recoverable vh vl vc s (applied_policy_revision a) \<and> (clean \<longrightarrow> agent_inv vh vl vc s (applied_policy_revision a))"
  using assms(1)
proof induction
  case (start s a)
  then have "agent_inv vh vl vc s 0" by (intro start_inv)
  then show ?case using start(8) agent_inv_recoverable by metis
next
  case (sync s a fetched r s' a')
  then show ?case using synchronize_keeps [OF assms(2) _ sync(2,3)] by blast
next
  case (restart clean s a recovered s' a0)
  let ?rev = "applied_policy_revision a"
  from recovery_restores [OF _ restart(2)] restart.IH restart(3)
  have "agent_inv vh vl vc s' ?rev" "recovered = (if ?rev = 0 then None else Some (applied_epoch s, ?rev))" by auto
  then show ?case using restart(4) agent_inv_recoverable by (auto simp: apply_recovered_policy_def)
qed

section \<open>Concrete runs\<close>

text \<open>Kernel maps whose calls answer as a schedule says, and then always succeed.\<close>

definition scheduled_view :: "('k \<times> bytes) list \<times> bool list \<Rightarrow> 'k \<rightharpoonup> bytes" where
  "scheduled_view m = map_of (fst m)"

definition flaky_ops :: "(('k \<times> bytes) list \<times> bool list, 'k) map_ops" where
  "flaky_ops = \<lparr>
     map_insert = (\<lambda>k v (m, oks). case oks of [] \<Rightarrow> (True, ((k, v) # filter (\<lambda>e. fst e \<noteq> k) m, []))
       | ok # oks \<Rightarrow> (ok, (if ok then (k, v) # filter (\<lambda>e. fst e \<noteq> k) m else m, oks))),
     map_remove = (\<lambda>k (m, oks). case oks of [] \<Rightarrow> (True, (filter (\<lambda>e. fst e \<noteq> k) m, []))
       | ok # oks \<Rightarrow> (ok, (if ok then filter (\<lambda>e. fst e \<noteq> k) m else m, oks))),
     map_get = (\<lambda>k (m, oks). map_of m k),
     map_keys = (\<lambda>(m, oks). Some (map fst m))\<rparr>"

definition flaky_kernel ::
  "((bytes \<times> bytes) list \<times> bool list, (lpm_key \<times> bytes) list \<times> bool list, bytes) kernel_calls" where
  "flaky_kernel = \<lparr>hash_ops = flaky_ops, lpm_ops = flaky_ops, config_set = (\<lambda>v c. (True, v))\<rparr>"

definition list_reads ::
  "((bytes \<times> bytes) list \<times> bool list, (lpm_key \<times> bytes) list \<times> bool list, bytes) kernel_reads" where
  "list_reads = \<lparr>hash_iter = (\<lambda>m. map Some (fst m)), lpm_iter = (\<lambda>m. map Some (fst m)), config_get = Some\<rparr>"

lemma flaky_contract: "map_contract flaky_ops scheduled_view"
  by (auto simp: map_contract_def flaky_ops_def scheduled_view_def map_of_filter_key fun_eq_iff
      dom_map_of_conv_image_fst split: list.splits)

lemma flaky_kernel_contract: "kernel_contract flaky_kernel scheduled_view scheduled_view (\<lambda>c. c)"
  by (simp add: kernel_contract_def flaky_kernel_def flaky_contract)

definition empty_synchronizer :: "bool list \<Rightarrow>
  ((bytes \<times> bytes) list \<times> bool list, (lpm_key \<times> bytes) list \<times> bool list, bytes) PolicySynchronizer" where
  "empty_synchronizer oks = \<lparr>identity_map = ([], oks), ipv4_map = ([], []), ipv6_map = ([], []),
     egress_ipv4_map = ([], []), egress_ipv6_map = ([], []), sync_config = replicate 24 0,
     policy_banks = [empty_bank, empty_bank], active_bank = 0, applied_epoch = 0\<rparr>"

definition new_agent :: AgentPolicyState where
  "new_agent = \<lparr>desired_policy_epoch = 0, desired_policy_revision = 0, applied_policy_epoch = 0,
     applied_policy_revision = 0, policy_map_entries = 0, active_policy_bank = 0\<rparr>"

definition deny_entry :: "u32 \<Rightarrow> PolicyMapEntry" where
  "deny_entry source = \<lparr>entry_key = PolicyMapKey source 2 6 443,
     entry_decision = \<lparr>rec_verdict = DenyVerdict, rec_reason = DefaultAction, rec_policy_id = Some 7, rec_rule_id = None\<rparr>,
     entry_shadow = None\<rparr>"

definition deny_snapshot :: "u64 \<Rightarrow> u32 list \<Rightarrow> PolicyStateSnapshot" where
  "deny_snapshot revision sources = \<lparr>snap_schema_version = 4, snap_source_epoch = 9,
     snap_policy = \<lparr>dp_revision = revision, dp_entries = map deny_entry sources, dp_ipv4_entries = [],
       dp_ipv6_entries = [], dp_egress_ipv4_entries = [], dp_egress_ipv6_entries = []\<rparr>\<rparr>"

lemma deny_snapshot_ok: "revision \<noteq> 0 \<Longrightarrow> snapshot_ok (deny_snapshot revision sources)"
  by (auto simp: snapshot_ok_def deny_snapshot_def snapshot_recoverable_def entries_recoverable_def deny_entry_def
      record_ok_def validate_decision_Ok)

lemma empty_reach:
  "agent_reach flaky_kernel list_reads scheduled_view scheduled_view (\<lambda>c. c) True (empty_synchronizer oks) new_agent"
  by (rule agent_reach.start) (simp_all add: empty_synchronizer_def new_synchronizer_def scheduled_view_def new_agent_def)


text \<open>
  C5: a failed synchronization is invisible to the dataplane.  Whatever the controller answers and
  whichever call fails, a synchronization that reports an error leaves the configuration, the active
  bank of every map and the applied revision as they were.
\<close>

theorem failed_sync_invisible:
  assumes "kernel_contract os vh vl vc" and "sync_ok vh vl s"
    and "synchronize_policies os fetched (s, a) = (Err e, s', a')"
  shows "vc (sync_config s') = vc (sync_config s) \<and> active_bank s' = active_bank s \<and>
    same_off_bank vh vl (staging_bank s) s s' \<and> policy_banks s' = policy_banks s \<and>
    applied_epoch s' = applied_epoch s \<and> applied_policy_revision a' = applied_policy_revision a"
  using assms(3)
proof (cases rule: synchronize_cases)
  case (failed snapshot desired failure)
  have "staging_bank s < POLICY_BANK_COUNT" using staging_other [of s] assms(2) by (simp add: sync_ok_def)
  from failed_apply_invisible [OF assms(1) sync_ok_bank_wf [OF assms(2) this] desired_bank_wf [OF failed(2)] failed(3,4)]
  show ?thesis using failed(6) by simp
qed (simp_all add: same_off_bank_def)

theorem failed_sync_invisible_witness:
  "\<exists>s' a'. synchronize_policies flaky_kernel (Some (deny_snapshot 1 [1, 3])) (empty_synchronizer [True, False], new_agent) =
      (Err (PublicationFailed RolledBack), s', a') \<and> sync_config s' = replicate 24 0 \<and> applied_policy_revision a' = 0"
proof -
  let ?run = "synchronize_policies flaky_kernel (Some (deny_snapshot 1 [1, 3])) (empty_synchronizer [True, False], new_agent)"
  have r: "fst ?run = Err (PublicationFailed RolledBack)" by code_simp
  obtain s' a' where run: "?run = (Err (PublicationFailed RolledBack), s', a')" using r by (metis prod.collapse)
  have "sync_ok scheduled_view scheduled_view (empty_synchronizer [True, False])"
    using start_inv [of "empty_synchronizer [True, False]" scheduled_view scheduled_view "\<lambda>c. c"]
    by (simp add: agent_inv_def empty_synchronizer_def new_synchronizer_def scheduled_view_def)
  from failed_sync_invisible [OF flaky_kernel_contract this run] run show ?thesis
    by (simp add: empty_synchronizer_def new_agent_def)
qed







end
