(* ===== verification/Tc_Lookup.thy ===== *)
theory Tc_Lookup
  imports Policy_Snapshot Tc_Policy
begin

text \<open>
  The lookups of the traffic-control program on maps that hold an encoded bank: what a packet finds in
  the kernel maps is what the entries of the snapshot say, and so, by the correctness of the compiler,
  what the policy evaluator decides for the flow.
\<close>

section \<open>Longest-prefix matching\<close>

text \<open>The kernel compares the bits of a key from the most significant bit of its first byte.\<close>

definition byte_bits :: "u8 \<Rightarrow> bool list" where
  "byte_bits b = map (\<lambda>i. bit b (7 - i)) [0..<8]"

definition bits_of :: "bytes \<Rightarrow> bool list" where
  "bits_of bs = concat (map byte_bits bs)"

definition lpm_matches :: "lpm_key \<Rightarrow> lpm_key \<Rightarrow> bool" where
  "lpm_matches entry key \<longleftrightarrow> fst entry \<le> fst key \<and>
     take (unat (fst entry)) (bits_of (snd entry)) = take (unat (fst entry)) (bits_of (snd key))"

text \<open>A trie lookup returns the value of a matching entry with the longest prefix, if one matches.\<close>

definition lpm_contract :: "(lpm_key \<Rightarrow> bytes option) \<Rightarrow> (lpm_key \<rightharpoonup> bytes) \<Rightarrow> bool" where
  "lpm_contract get view \<longleftrightarrow> (\<forall>key. case get key of
     None \<Rightarrow> \<forall>e. view e \<noteq> None \<longrightarrow> \<not> lpm_matches e key
   | Some v \<Rightarrow> \<exists>e. view e = Some v \<and> lpm_matches e key \<and>
       (\<forall>e'. view e' \<noteq> None \<and> lpm_matches e' key \<longrightarrow> fst e' \<le> fst e))"

lemma lpm_contractD:
  assumes "lpm_contract get view"
  shows "get key = None \<Longrightarrow> view e \<noteq> None \<Longrightarrow> \<not> lpm_matches e key"
    and "get key = Some v \<Longrightarrow> \<exists>e. view e = Some v \<and> lpm_matches e key \<and>
      (\<forall>e'. view e' \<noteq> None \<and> lpm_matches e' key \<longrightarrow> fst e' \<le> fst e)"
  using assms [unfolded lpm_contract_def, THEN spec [of _ key]] by (simp_all only: option.case) blast

text \<open>Keys of the policy tries fix the 64 bits before the address.\<close>

definition lpm_keys_ok :: "(lpm_key \<rightharpoonup> bytes) \<Rightarrow> bool" where
  "lpm_keys_ok view \<longleftrightarrow> (\<forall>k. view k \<noteq> None \<longrightarrow> 64 \<le> fst k \<and> fst k \<le> 192 \<and> length (snd k) = 24)"

lemma byte_bits_inject [simp]: "byte_bits a = byte_bits b \<longleftrightarrow> a = b"
proof
  assume eq: "byte_bits a = byte_bits b"
  show "a = b"
  proof (rule bit_word_eqI)
    fix n assume "n < LENGTH(8)"
    then have "[0..<8] ! (7 - n) = 7 - n" "7 - (7 - n) = n" by (simp_all add: nth_upt del: upt_rec_numeral)
    then have "byte_bits a ! (7 - n) = bit a n" "byte_bits b ! (7 - n) = bit b n"
      by (simp_all add: byte_bits_def del: upt_rec_numeral)
    then show "bit a n = bit b n" using eq by simp
  qed
qed simp

lemma length_byte_bits [simp]: "length (byte_bits b) = 8"
  by (simp add: byte_bits_def del: upt_rec_numeral)

lemma length_bits_of [simp]: "length (bits_of bs) = 8 * length bs"
  by (induction bs) (simp_all add: bits_of_def)

lemma bits_of_append [simp]: "bits_of (xs @ ys) = bits_of xs @ bits_of ys"
  by (simp add: bits_of_def)

lemma bits_of_inject: "length xs = length ys \<Longrightarrow> bits_of xs = bits_of ys \<longleftrightarrow> xs = ys"
  by (induction xs ys rule: list_induct2) (simp_all add: bits_of_def append_eq_append_conv)

lemma bits_of_be_bytes: "bits_of (be_bytes n w) = map (\<lambda>i. bit w (8 * n - 1 - i)) [0..<8 * n]"
proof (induction n arbitrary: w)
  case 0
  show ?case by (simp add: bits_of_def be_bytes_def le_bytes_def)
next
  case (Suc n)
  have last: "byte_bits (ucast w) = map (\<lambda>i. bit w (7 - i)) [0..<8]"
    by (auto simp: byte_bits_def bit_unsigned_iff dest: bit_imp_le_length simp del: upt_rec_numeral)
  have split: "[0..<8 * Suc n] = [0..<8 * n] @ map (\<lambda>i. 8 * n + i) [0..<8]"
    using upt_add_eq_append [of 0 "8 * n" 8] map_add_upt [of "8 * n" 8]
    by (simp add: add.commute del: upt_rec_numeral)
  have "be_bytes (Suc n) w = be_bytes n (drop_bit 8 w) @ [ucast w]"
    by (simp add: be_bytes_def le_bytes_Suc)
  then have "bits_of (be_bytes (Suc n) w) = bits_of (be_bytes n (drop_bit 8 w)) @ byte_bits (ucast w)"
    by (simp add: bits_of_def)
  also have "\<dots> = map (\<lambda>i. bit w (8 * Suc n - 1 - i)) [0..<8 * Suc n]"
    unfolding Suc.IH last split map_append map_map
    by (auto simp: bit_drop_bit_eq Suc_diff_le simp del: upt_rec_numeral)
  finally show ?case .
qed

lemma prefix_bits:
  fixes x y :: u128
  assumes "p \<le> 128"
  shows "take p (bits_of (be_bytes 16 x)) = take p (bits_of (be_bytes 16 y)) \<longleftrightarrow>
    x AND net_mask (128 - p) = y AND net_mask (128 - p)"
proof -
  have "take p (bits_of (be_bytes 16 x)) = take p (bits_of (be_bytes 16 y)) \<longleftrightarrow>
      (\<forall>i < p. bit x (127 - i) = bit y (127 - i))"
    using assms by (auto simp: bits_of_be_bytes take_map simp del: upt_rec_numeral)
  also have "\<dots> \<longleftrightarrow> (\<forall>j. 128 - p \<le> j \<and> j < 128 \<longrightarrow> bit x j = bit y j)"
  proof (rule iffI; intro allI impI)
    fix j assume h: "\<forall>i < p. bit x (127 - i) = bit y (127 - i)" and j: "128 - p \<le> j \<and> j < 128"
    then have "127 - j < p" "127 - (127 - j) = j" by auto
    with h show "bit x j = bit y j" by metis
  next
    fix i assume h: "\<forall>j. 128 - p \<le> j \<and> j < 128 \<longrightarrow> bit x j = bit y j" and "i < p"
    then have "128 - p \<le> 127 - i \<and> 127 - i < 128" using assms by auto
    with h show "bit x (127 - i) = bit y (127 - i)" by blast
  qed
  also have "\<dots> \<longleftrightarrow> x AND net_mask (128 - p) = y AND net_mask (128 - p)"
    by (auto simp: bit_eq_iff bit_simps net_mask_def dest: bit_imp_le_length)
  finally show ?thesis .
qed

lemma unat_prefix_len [simp]: "unat (ucast p :: u32) = unat p" for p :: u8
proof -
  have "unat p < 2 ^ 32" using unsigned_less [of p, where ?'a = nat] by simp
  then show ?thesis by (simp add: unsigned_ucast_eq take_bit_nat_eq_self)
qed

lemma take_bits_of: "take (8 * n) (bits_of bs) = bits_of (take n bs)"
  by (induction bs arbitrary: n) (simp_all add: bits_of_def take_Cons split: nat.split)

lemma lpm_matches_split:
  assumes "length d = 8" "length h = 8" "length a = 16" "length b = 16" "p \<le> 128"
  shows "lpm_matches (64 + p, d @ b) (192, h @ a) \<longleftrightarrow>
    d = h \<and> take (unat p) (bits_of b) = take (unat p) (bits_of a)"
proof -
  have p: "unat p \<le> 128" using assms(5) by (simp add: word_le_nat_alt)
  then have n: "unat (64 + p) = 64 + unat p" by (subst unat_add_lem [THEN iffD1]) simp_all
  then have "64 + p \<le> 192" using p by (simp add: word_le_nat_alt)
  then show ?thesis using assms(1-4)
    by (auto simp: lpm_matches_def n append_eq_append_conv bits_of_inject)
qed

lemma prefix_len_sum: "p \<le> 128 \<Longrightarrow> unat (64 + ucast p :: u32) = 64 + unat p" for p :: u8
  by (subst unat_add_lem [THEN iffD1]) (simp_all add: word_le_nat_alt)

section \<open>Entry kinds with prefixes\<close>

text \<open>The interface of the two trie kinds: a key is eight bytes of exact fields and an address prefix.\<close>

locale lpm_kind = entry_kind validate encode_key lpm_key_bank
  for validate :: "'k policy_entry \<Rightarrow> (PolicySyncError, unit) res"
    and encode_key :: "'k policy_entry \<Rightarrow> u8 \<Rightarrow> lpm_key" +
  fixes cidr_of :: "'k \<Rightarrow> Ipv6Cidr" and header :: "'k \<Rightarrow> u8 \<Rightarrow> bytes"
  assumes encode_split: "encode_key e b = (64 + ucast (prefix_len6 (cidr_of (entry_key e))),
      header (entry_key e) b @ be_bytes 16 (network6 (cidr_of (entry_key e))))"
    and header_length: "length (header k b) = 8"
    and header_bank: "header k b ! 7 = b"
    and header_key: "header k b = header k' b \<Longrightarrow> cidr_of k = cidr_of k' \<Longrightarrow> k = k'"
    and canonical: "validate e = Ok () \<Longrightarrow>
      prefix_len6 (cidr_of (entry_key e)) \<le> 128 \<and>
      network6 (cidr_of (entry_key e)) AND net_mask (cidr6_bits (cidr_of (entry_key e))) =
        network6 (cidr_of (entry_key e))"
begin

lemma encoded_matches:
  assumes "validate e = Ok ()" "length h = 8"
  shows "lpm_matches (encode_key e bank) (192, h @ be_bytes 16 x) \<longleftrightarrow>
    header (entry_key e) bank = h \<and> cidr6_contains (cidr_of (entry_key e)) x"
proof -
  let ?c = "cidr_of (entry_key e)"
  from canonical [OF assms(1)] have c: "prefix_len6 ?c \<le> 128"
    "network6 ?c AND net_mask (cidr6_bits ?c) = network6 ?c" by auto
  then have p: "unat (prefix_len6 ?c) \<le> 128" "(ucast (prefix_len6 ?c) :: u32) \<le> 128"
    by (simp_all add: word_le_nat_alt)
  have "take (unat (prefix_len6 ?c)) (bits_of (be_bytes 16 (network6 ?c))) =
      take (unat (prefix_len6 ?c)) (bits_of (be_bytes 16 x)) \<longleftrightarrow> cidr6_contains ?c x"
    unfolding prefix_bits [OF p(1)] cidr6_contains_iff using c by auto
  then show ?thesis unfolding encode_split
    using lpm_matches_split [OF header_length assms(2) _ _ p(2), of "be_bytes 16 x" "be_bytes 16 (network6 ?c)"]
    by simp
qed

text \<open>Only entries of the bank match a lookup in the bank.\<close>

lemma matching_entry:
  assumes "lpm_keys_ok view" "view k \<noteq> None" "lpm_matches k (192, h @ a)" "length h = 8" "length a = 16"
  shows "lpm_key_bank k = h ! 7"
proof -
  have k: "64 \<le> fst k" "length (snd k) = 24"
    using assms(1,2) unfolding lpm_keys_ok_def by blast+
  then have n: "min (8 * 8) (unat (fst k)) = 8 * 8" by (simp add: word_le_nat_alt)
  have "take (8 * 8) (take (unat (fst k)) (bits_of (snd k))) = take (8 * 8) (take (unat (fst k)) (bits_of (h @ a)))"
    using assms(3) unfolding lpm_matches_def by simp
  then have "take (8 * 8) (bits_of (snd k)) = take (8 * 8) (bits_of (h @ a))" unfolding take_take n .
  then have "bits_of (take 8 (snd k)) = bits_of (take 8 (h @ a))" by (simp only: take_bits_of)
  then have "take 8 (snd k) = h" using k(2) assms(4) by (simp add: bits_of_inject)
  then have "h ! 7 = take 8 (snd k) ! 7" by simp
  then show ?thesis using k(2) by (simp add: lpm_key_bank_def)
qed

text \<open>A lookup in a trie that holds the image of an entry list is the longest match of the entries.\<close>

lemma trie_lookup:
  assumes "desired_entries validate encode_key entries revision bank = Ok m"
    and view: "\<And>k. lpm_key_bank k = bank \<Longrightarrow> view k = bt_get m k"
    and "lpm_keys_ok view" "lpm_contract get view" "length h = 8" "h ! 7 = bank"
  shows "get (192, h @ be_bytes 16 x) = map_option (\<lambda>(d, s). encode_policy_decisions d s revision)
    (longest_match cidr_of (\<lambda>k. header k bank = h) entries x)"
proof -
  note img = desired_entries_image [OF assms(1)]
  let ?key = "(192, h @ be_bytes 16 x)"
  let ?mine = "\<lambda>e. e \<in> set entries \<and> header (entry_key e) bank = h \<and> cidr6_contains (cidr_of (entry_key e)) x"
  have valid: "validate e = Ok ()" if "e \<in> set entries" for e using img(3) that by (simp add: list_all_iff)
  have here: "view (encode_key e bank) = Some (encode_policy_decisions (entry_decision e) (entry_shadow e) revision)"
    if "e \<in> set entries" for e
    using that img(4) [of e] rows_map_Some [OF img(2)] view [of "encode_key e bank"] bank_of_encode [of e bank]
    by auto
  have matching: "\<exists>e. ?mine e \<and> k = encode_key e bank" if "view k \<noteq> None" "lpm_matches k ?key" for k
  proof -
    have "lpm_key_bank k = bank" using matching_entry [OF assms(3) that assms(5)] assms(6) by simp
    then have "k \<in> fst ` set m" using that(1) view by (metis bt_get_eq_None)
    then obtain e where "e \<in> set entries" "k = encode_key e bank" using img(5) by blast
    then show ?thesis using that(2) valid encoded_matches assms(5) by blast
  qed
  have mine: "view (encode_key e bank) \<noteq> None \<and> lpm_matches (encode_key e bank) ?key" if "?mine e" for e
    using that here encoded_matches [OF valid assms(5)] by simp
  show ?thesis
  proof (cases "get ?key")
    case None
    then have "\<not> lpm_matches e ?key" if "view e \<noteq> None" for e
      using lpm_contractD(1) [OF assms(4)] that by blast
    then have "longest_match cidr_of (\<lambda>k. header k bank = h) entries x = None"
      using mine unfolding longest_match_None by blast
    with None show ?thesis by simp
  next
    case (Some v)
    then obtain k where k: "view k = Some v" "lpm_matches k ?key"
      and longest: "\<And>k'. view k' \<noteq> None \<Longrightarrow> lpm_matches k' ?key \<Longrightarrow> fst k' \<le> fst k"
      using lpm_contractD(2) [OF assms(4)] by blast
    then obtain e where e: "?mine e" "k = encode_key e bank" using matching [of k] by auto
    have "longest_match cidr_of (\<lambda>k. header k bank = h) entries x = Some (entry_decision e, entry_shadow e)"
    proof (rule longest_match_unique)
      show "e \<in> set entries" "header (entry_key e) bank = h" "cidr6_contains (cidr_of (entry_key e)) x"
        using e by auto
      fix b assume b: "b \<in> set entries" "header (entry_key b) bank = h" "cidr6_contains (cidr_of (entry_key b)) x"
      then have "fst (encode_key b bank) \<le> fst (encode_key e bank)" using longest mine e(2) by blast
      then have "prefix_len6 (cidr_of (entry_key b)) \<le> prefix_len6 (cidr_of (entry_key e))"
        using canonical [OF valid [OF b(1)]] canonical [OF valid, of e] e(1)
        by (simp add: encode_split) (simp add: word_le_nat_alt prefix_len_sum)
      moreover have "b = e" if "prefix_len6 (cidr_of (entry_key b)) = prefix_len6 (cidr_of (entry_key e))"
      proof -
        have "cidr_of (entry_key b) = cidr_of (entry_key e)"
          using that b(3) e(1) by (auto simp: cidr6_contains_iff Ipv6Cidr.expand)
        then have "entry_key b = entry_key e" using header_key [of "entry_key b" bank] b(2) e(1) by metis
        then show ?thesis using img(2) b(1) e(1) by (auto simp: distinct_map inj_on_def)
      qed
      ultimately show "prefix_len6 (cidr_of (entry_key b)) < prefix_len6 (cidr_of (entry_key e)) \<or> b = e"
        by (metis order_le_less)
    qed
    then show ?thesis using Some k(1) here e by simp
  qed
qed

end

lemma canonical_mask:
  "n AND prefix_mask p = n \<Longrightarrow> n AND net_mask (128 - unat p) = n" for n :: u128
  by (auto simp: prefix_mask_def net_mask_def push_bit_minus_one_eq_not_mask split: if_splits)

interpretation ipv6_trie_kind: lpm_kind validate_ipv6_policy_entry encode_ipv6_policy_key
  "\<lambda>k. Ipv6Cidr (pk6_source_network k) (pk6_source_prefix_len k)"
  "\<lambda>k b. ipv6_policy_data (pk6_destination_identity k) (be_bytes 2 (pk6_destination_port k)) (pk6_protocol k) b []"
proof (unfold_locales, goal_cases)
  case (4 k b k')
  then show ?case by (auto simp: ipv6_policy_data_def key_bytes_eq bytes_inject Ipv6PolicyMapKey.expand)
next
  case (5 e)
  then show ?case
    by (auto simp: validate_ipv6_policy_entry_def not_less canonical_mask split: if_splits)
qed (auto simp: encode_ipv6_policy_key_def ipv6_policy_data_def nth_append)

interpretation egress_ipv6_trie_kind: lpm_kind validate_egress_ipv6_policy_entry encode_egress_ipv6_policy_key
  "\<lambda>k. Ipv6Cidr (ek6_destination_network k) (ek6_destination_prefix_len k)"
  "\<lambda>k b. egress_ipv6_policy_data (ek6_source_identity k) (be_bytes 2 (ek6_destination_port k)) (ek6_protocol k) b []"
proof (unfold_locales, goal_cases)
  case (4 k b k')
  then show ?case by (auto simp: egress_ipv6_policy_data_def key_bytes_eq bytes_inject EgressIpv6PolicyMapKey.expand)
next
  case (5 e)
  then show ?case
    by (auto simp: validate_egress_ipv6_policy_entry_def not_less canonical_mask split: if_splits)
qed (auto simp: encode_egress_ipv6_policy_key_def egress_ipv6_policy_data_def nth_append)

section \<open>What a lookup finds\<close>

definition encoded :: "u64 \<Rightarrow> outcome \<Rightarrow> PolicyMapValue" where
  "encoded revision o1 = policy_map_value (encode_policy_decisions (fst o1) (snd o1) revision)"

lemma current_encoded:
  "current_value (map_option (\<lambda>(d, s). encode_policy_decisions d s revision) r) revision =
     map_option (encoded revision) r"
  by (cases r) (auto simp: current_value_def encoded_value encoded_def Let_def)

lemma ipv4_value_found:
  assumes "desired_ipv4_policy_entries entries revision bank = Ok m"
    and "\<And>k. key_bank k = bank \<Longrightarrow> policy_ipv4_get maps k = bt_get m k"
  shows "lookup_ipv4_policy_value maps (ipv4_policy_key (be_bytes 4 x) i (be_bytes 2 port) proto bank) revision =
    map_option (encoded revision) (rows_map entries (Ipv4PolicyMapKey x i proto port))"
proof -
  let ?e = "\<lparr>entry_key = Ipv4PolicyMapKey x i proto port, entry_decision = undefined, entry_shadow = undefined\<rparr>"
  have key: "ipv4_policy_key (be_bytes 4 x) i (be_bytes 2 port) proto bank = encode_ipv4_policy_key ?e bank"
    by (simp add: ipv4_policy_key_def encode_ipv4_policy_key_def)
  show ?thesis
    using ipv4_kind.desired_entries_image(4) [OF assms(1) [unfolded desired_ipv4_policy_entries_def], of ?e]
    by (simp add: lookup_ipv4_policy_value_def key assms(2) current_encoded)
qed

lemma egress_ipv4_value_found:
  assumes "desired_egress_ipv4_policy_entries entries revision bank = Ok m"
    and "\<And>k. key_bank k = bank \<Longrightarrow> egress_ipv4_get maps k = bt_get m k"
  shows "lookup_egress_ipv4_policy_value maps (egress_ipv4_policy_key (be_bytes 4 x) i (be_bytes 2 port) proto bank)
      revision = map_option (encoded revision) (rows_map entries (EgressIpv4PolicyMapKey i x proto port))"
proof -
  let ?e = "\<lparr>entry_key = EgressIpv4PolicyMapKey i x proto port, entry_decision = undefined, entry_shadow = undefined\<rparr>"
  have key: "egress_ipv4_policy_key (be_bytes 4 x) i (be_bytes 2 port) proto bank = encode_egress_ipv4_policy_key ?e bank"
    by (simp add: egress_ipv4_policy_key_def encode_egress_ipv4_policy_key_def)
  show ?thesis
    using egress_ipv4_kind.desired_entries_image(4)
      [OF assms(1) [unfolded desired_egress_ipv4_policy_entries_def], of ?e]
    by (simp add: lookup_egress_ipv4_policy_value_def key assms(2) current_encoded)
qed

lemma identity_value_found:
  assumes "desired_policy_entries entries revision bank = Ok m"
    and "\<And>k. key_bank k = bank \<Longrightarrow> policy_rules_get maps k = bt_get m k"
  shows "lookup_policy_value maps (policy_key i j (be_bytes 2 port) proto bank) revision =
    map_option (encoded revision) (rows_map entries (PolicyMapKey i j proto port))"
proof -
  let ?e = "\<lparr>entry_key = PolicyMapKey i j proto port, entry_decision = undefined, entry_shadow = undefined\<rparr>"
  have key: "policy_key i j (be_bytes 2 port) proto bank = encode_policy_key ?e bank"
    by (simp add: policy_key_def encode_policy_key_def)
  show ?thesis
    using identity_kind.desired_entries_image(4) [OF assms(1) [unfolded desired_policy_entries_def], of ?e]
    by (simp add: lookup_policy_value_def key assms(2) current_encoded)
qed

lemma ipv6_value_found:
  assumes "desired_ipv6_policy_entries entries revision bank = Ok m"
    and "\<And>k. lpm_key_bank k = bank \<Longrightarrow> view k = bt_get m k" "lpm_keys_ok view"
    and "lpm_contract (policy_ipv6_get maps) view"
  shows "lookup_ipv6_policy_value maps (ipv6_policy_data i (be_bytes 2 port) proto bank (be_bytes 16 x)) revision =
    map_option (encoded revision) (ipv6_trie entries x i (proto, port))"
proof -
  let ?h = "ipv6_policy_data i (be_bytes 2 port) proto bank []"
  have h: "length ?h = 8" "?h ! 7 = bank" by (simp_all add: ipv6_policy_data_def nth_append)
  have "ipv6_policy_data i (be_bytes 2 port) proto bank (be_bytes 16 x) = ?h @ be_bytes 16 x"
    by (simp add: ipv6_policy_data_def)
  moreover have "(\<lambda>k. ipv6_policy_data (pk6_destination_identity k) (be_bytes 2 (pk6_destination_port k))
      (pk6_protocol k) bank [] = ?h) = (\<lambda>k. pk6_destination_identity k = i \<and>
      (pk6_protocol k, pk6_destination_port k) = (proto, port))"
    by (auto simp: ipv6_policy_data_def key_bytes_eq bytes_inject)
  ultimately show ?thesis
    using ipv6_trie_kind.trie_lookup [OF assms(1) [unfolded desired_ipv6_policy_entries_def] assms(2-4) h, of x]
    by (simp add: lookup_ipv6_policy_value_def current_encoded ipv6_trie_def)
qed

lemma egress_ipv6_value_found:
  assumes "desired_egress_ipv6_policy_entries entries revision bank = Ok m"
    and "\<And>k. lpm_key_bank k = bank \<Longrightarrow> view k = bt_get m k" "lpm_keys_ok view"
    and "lpm_contract (egress_ipv6_get maps) view"
  shows "lookup_egress_ipv6_policy_value maps
      (egress_ipv6_policy_data i (be_bytes 2 port) proto bank (be_bytes 16 x)) revision =
    map_option (encoded revision) (egress_ipv6_trie entries i x (proto, port))"
proof -
  let ?h = "egress_ipv6_policy_data i (be_bytes 2 port) proto bank []"
  have h: "length ?h = 8" "?h ! 7 = bank" by (simp_all add: egress_ipv6_policy_data_def nth_append)
  have "egress_ipv6_policy_data i (be_bytes 2 port) proto bank (be_bytes 16 x) = ?h @ be_bytes 16 x"
    by (simp add: egress_ipv6_policy_data_def)
  moreover have "(\<lambda>k. egress_ipv6_policy_data (ek6_source_identity k) (be_bytes 2 (ek6_destination_port k))
      (ek6_protocol k) bank [] = ?h) = (\<lambda>k. ek6_source_identity k = i \<and>
      (ek6_protocol k, ek6_destination_port k) = (proto, port))"
    by (auto simp: egress_ipv6_policy_data_def key_bytes_eq bytes_inject)
  ultimately show ?thesis
    using egress_ipv6_trie_kind.trie_lookup
      [OF assms(1) [unfolded desired_egress_ipv6_policy_entries_def] assms(2-4) h, of x]
    by (simp add: lookup_egress_ipv6_policy_value_def current_encoded egress_ipv6_trie_def)
qed

end
