(* ===== verification/Tc_Published.thy ===== *)
theory Tc_Published
  imports Policy_Sync Tc_Lookup
begin

text \<open>
  Maps that hold a published snapshot of the controller: what each lookup of the traffic-control
  program finds there is the decision the policy evaluator computes for the flow.
\<close>

section \<open>A published snapshot\<close>

text \<open>The maps hold the encoded entries of the snapshot in the active bank.  \<open>v6\<close> and \<open>w6\<close> are the
  contents of the two tries.\<close>

definition published ::
  "dataplane_policy \<Rightarrow> policy_maps \<Rightarrow> (lpm_key \<rightharpoonup> bytes) \<Rightarrow> (lpm_key \<rightharpoonup> bytes) \<Rightarrow> PolicyMapConfig \<Rightarrow> bool" where
  "published snap maps v6 w6 config \<longleftrightarrow>
     (let revision = cfg_revision config; bank = cfg_active_bank config in
      (\<exists>m. desired_policy_entries (dp_entries snap) revision bank = Ok m \<and>
         (\<forall>k. key_bank k = bank \<longrightarrow> policy_rules_get maps k = bt_get m k)) \<and>
      (\<exists>m. desired_ipv4_policy_entries (dp_ipv4_entries snap) revision bank = Ok m \<and>
         (\<forall>k. key_bank k = bank \<longrightarrow> policy_ipv4_get maps k = bt_get m k)) \<and>
      (\<exists>m. desired_ipv6_policy_entries (dp_ipv6_entries snap) revision bank = Ok m \<and>
         (\<forall>k. lpm_key_bank k = bank \<longrightarrow> v6 k = bt_get m k)) \<and>
      (\<exists>m. desired_egress_ipv4_policy_entries (dp_egress_ipv4_entries snap) revision bank = Ok m \<and>
         (\<forall>k. key_bank k = bank \<longrightarrow> egress_ipv4_get maps k = bt_get m k)) \<and>
      (\<exists>m. desired_egress_ipv6_policy_entries (dp_egress_ipv6_entries snap) revision bank = Ok m \<and>
         (\<forall>k. lpm_key_bank k = bank \<longrightarrow> w6 k = bt_get m k)) \<and>
      lpm_keys_ok v6 \<and> lpm_contract (policy_ipv6_get maps) v6 \<and>
      lpm_keys_ok w6 \<and> lpm_contract (egress_ipv6_get maps) w6)"

text \<open>The decision of the evaluator, as the program reports it.\<close>

definition enforced :: "u64 \<Rightarrow> PolicyDirection \<Rightarrow> PolicyDecision \<Rightarrow> DataplaneDecision" where
  "enforced revision direction d = outcome_decision revision direction (outcome_of d)"

lemma or_else_map: "or_else (map_option f a) (map_option f b) = map_option f (or_else a b)"
  by (cases a) (simp_all add: or_else_def)

lemma or_else_assoc: "or_else (or_else a b) c = or_else a (or_else b c)"
  by (cases a) (simp_all add: or_else_def)

lemma zero_bytes: "[0, 0] = be_bytes 2 (0 :: u16)" "[0, 0, 0, 0] = be_bytes 4 (0 :: u32)"
  by (simp_all add: be_bytes_def le_bytes_def numeral_eq_Suc)

section \<open>The values a packet finds\<close>

lemma ingress_ipv4_found:
  assumes "desired_ipv4_policy_entries es (cfg_revision config) (cfg_active_bank config) = Ok m"
    and "\<And>k. key_bank k = cfg_active_bank config \<Longrightarrow> policy_ipv4_get maps k = bt_get m k"
  shows "ingress_ipv4_value maps (be_bytes 4 x) i (be_bytes 2 port) proto config = map_option (encoded (cfg_revision config))
    (or_else (rows_map es (Ipv4PolicyMapKey x 0 0 0))
      (or_else (chain_lookup (rows_map es) (Ipv4PolicyMapKey x i) proto port)
        (chain_lookup (rows_map es) (Ipv4PolicyMapKey 0 i) proto port)))"
proof -
  have found: "lookup_ipv4_policy_value maps (ipv4_policy_key (be_bytes 4 x) i (be_bytes 2 port) proto (cfg_active_bank config))
      (cfg_revision config) = map_option (encoded (cfg_revision config)) (rows_map es (Ipv4PolicyMapKey x i proto port))" for x i port proto
    by (rule ipv4_value_found [OF assms(1)]) (rule assms(2))
  show ?thesis by (simp only: ingress_ipv4_value_def Let_def zero_bytes(2),
        simp only: zero_bytes(1) found or_else_map chain_lookup_def or_else_assoc)
qed

lemma ingress_ipv6_found:
  assumes "desired_ipv6_policy_entries es (cfg_revision config) (cfg_active_bank config) = Ok m"
    and "\<And>k. lpm_key_bank k = cfg_active_bank config \<Longrightarrow> view k = bt_get m k" "lpm_keys_ok view"
    and "lpm_contract (policy_ipv6_get maps) view"
  shows "ingress_ipv6_value maps (be_bytes 16 x) i (be_bytes 2 port) proto config = map_option (encoded (cfg_revision config))
    (or_else (ipv6_trie es x 0 (0, 0)) (chain_lookup (ipv6_trie es x i) Pair proto port))"
proof -
  have found: "lookup_ipv6_policy_value maps (ipv6_policy_data i (be_bytes 2 port) proto (cfg_active_bank config) (be_bytes 16 x))
      (cfg_revision config) = map_option (encoded (cfg_revision config)) (ipv6_trie es x i (proto, port))" for i port proto
    by (rule ipv6_value_found [where view = view, OF assms(1)]) (auto simp: assms(2-4))
  show ?thesis by (simp only: ingress_ipv6_value_def Let_def zero_bytes found or_else_map chain_lookup_def or_else_assoc)
qed

lemma ingress_identity_found:
  assumes "desired_policy_entries es (cfg_revision config) (cfg_active_bank config) = Ok m"
    and "\<And>k. key_bank k = cfg_active_bank config \<Longrightarrow> policy_rules_get maps k = bt_get m k"
  shows "ingress_identity_value maps i j (be_bytes 2 port) proto config = map_option (encoded (cfg_revision config))
    (chain_lookup (rows_map es) (PolicyMapKey i j) proto port)"
proof -
  have found: "lookup_policy_value maps (policy_key i j (be_bytes 2 port) proto (cfg_active_bank config))
      (cfg_revision config) = map_option (encoded (cfg_revision config)) (rows_map es (PolicyMapKey i j proto port))" for port proto
    by (rule identity_value_found [OF assms(1)]) (rule assms(2))
  show ?thesis by (simp only: ingress_identity_value_def Let_def zero_bytes found or_else_map chain_lookup_def or_else_assoc)
qed

lemma egress_ipv4_found:
  assumes "desired_egress_ipv4_policy_entries es (cfg_revision config) (cfg_active_bank config) = Ok m"
    and "\<And>k. key_bank k = cfg_active_bank config \<Longrightarrow> egress_ipv4_get maps k = bt_get m k"
  shows "egress_ipv4_value maps (be_bytes 4 x) i (be_bytes 2 port) proto config = map_option (encoded (cfg_revision config))
    (or_else (rows_map es (EgressIpv4PolicyMapKey 0 x 0 0))
      (or_else (chain_lookup (rows_map es) (EgressIpv4PolicyMapKey i x) proto port)
        (chain_lookup (rows_map es) (EgressIpv4PolicyMapKey i 0) proto port)))"
proof -
  have found: "lookup_egress_ipv4_policy_value maps (egress_ipv4_policy_key (be_bytes 4 x) i (be_bytes 2 port) proto (cfg_active_bank config))
      (cfg_revision config) = map_option (encoded (cfg_revision config)) (rows_map es (EgressIpv4PolicyMapKey i x proto port))" for x i port proto
    by (rule egress_ipv4_value_found [OF assms(1)]) (rule assms(2))
  show ?thesis by (simp only: egress_ipv4_value_def Let_def zero_bytes(2),
        simp only: zero_bytes(1) found or_else_map chain_lookup_def or_else_assoc)
qed


lemma egress_ipv6_found:
  assumes "desired_egress_ipv6_policy_entries es (cfg_revision config) (cfg_active_bank config) = Ok m"
    and "\<And>k. lpm_key_bank k = cfg_active_bank config \<Longrightarrow> view k = bt_get m k" "lpm_keys_ok view"
    and "lpm_contract (egress_ipv6_get maps) view"
  shows "egress_ipv6_value maps (be_bytes 16 x) i (be_bytes 2 port) proto config = map_option (encoded (cfg_revision config))
    (or_else (egress_ipv6_trie es 0 x (0, 0)) (chain_lookup (egress_ipv6_trie es i x) Pair proto port))"
proof -
  have found: "lookup_egress_ipv6_policy_value maps
      (egress_ipv6_policy_data i (be_bytes 2 port) proto (cfg_active_bank config) (be_bytes 16 x)) (cfg_revision config) =
      map_option (encoded (cfg_revision config)) (egress_ipv6_trie es i x (proto, port))" for i port proto
    by (rule egress_ipv6_value_found [where view = view, OF assms(1)]) (auto simp: assms(2-4))
  show ?thesis by (simp only: egress_ipv6_value_def Let_def zero_bytes found or_else_map chain_lookup_def or_else_assoc)
qed

section \<open>No compiled row has identity zero\<close>

lemma ipv4_no_zero_row:
  assumes "compile_ipv4_dataplane_entries ps eps eps4 = Ok es" "\<forall>ep \<in> set eps. ep_identity ep \<noteq> 0"
  shows "rows_map es (Ipv4PolicyMapKey x 0 pr po) = None"
proof -
  from assms(1) obtain vs known addresses where vs: "unique_endpoints eps = Ok vs"
    and es: "es = sort_key entry_key
      (concat (map (\<lambda>(a, t). ipv4_rows ps (endpoint_at known a) (Some a) a t) (List.product addresses (bt_values vs))) @
       concat (map (\<lambda>t. ipv4_rows ps external_endpoint (fallback_address (source_blocks ps) addresses) 0 t)
         (filter (kubernetes_targeted ps) (bt_values vs))))" by (rule compile_ipv4_Ok)
  show ?thesis unfolding es rows_map_None using unique_endpoints_Ok(1) [OF vs] assms(2)
    by (fastforce dest: ipv4_rows_keys)
qed

lemma egress_ipv4_no_zero_row:
  assumes "compile_egress_ipv4_dataplane_entries ps eps eps4 = Ok es" "\<forall>ep \<in> set eps. ep_identity ep \<noteq> 0"
  shows "rows_map es (EgressIpv4PolicyMapKey 0 x pr po) = None"
proof -
  from assms(1) obtain vs known addresses where vs: "unique_endpoints eps = Ok vs"
    and es: "es = sort_key entry_key (concat (map (egress_source_rows ps known addresses) (bt_values vs)))"
    by (rule compile_egress_ipv4_Ok)
  show ?thesis unfolding es rows_map_None using unique_endpoints_Ok(1) [OF vs] assms(2)
    by (fastforce simp: egress_source_rows_def dest: egress_ipv4_rows_keys split: if_splits)
qed

lemma ipv6_no_zero_row:
  assumes "compile_ipv6_dataplane_entries ps eps eps6 = Ok es" "\<forall>ep \<in> set eps. ep_identity ep \<noteq> 0"
  shows "ipv6_trie es x 0 t = None"
proof -
  from assms(1) obtain vs known where vs: "unique_endpoints eps = Ok vs"
    and es: "es = sort_key entry_key (concat (map (piece_rows ps known (ipv6_boundaries (source_blocks6 ps) known))
      (List.product (bt_values vs) (ipv6_boundaries (source_blocks6 ps) known))))" by (rule compile_ipv6_Ok)
  have "pk6_destination_identity (entry_key e) = ep_identity d" if "e \<in> set (piece_rows ps known bs (d, b))" for e bs d b
    using that by (auto simp: piece_rows_def ipv6_rows_def all_rows_def Let_def ipv6_policy_map_entry_def
        split: option.splits if_splits)
  then show ?thesis unfolding ipv6_trie_def longest_match_None es using unique_endpoints_Ok(1) [OF vs] assms(2) by fastforce
qed

lemma egress_ipv6_no_zero_row:
  assumes "compile_egress_ipv6_dataplane_entries ps eps eps6 = Ok es" "\<forall>ep \<in> set eps. ep_identity ep \<noteq> 0"
  shows "egress_ipv6_trie es 0 x t = None"
proof -
  from assms(1) obtain vs known where vs: "unique_endpoints eps = Ok vs"
    and es: "es = sort_key entry_key (concat (map (\<lambda>src. concat (map
      (egress_piece ps known (ipv6_boundaries (destination_blocks6 ps) known) src)
      (ipv6_boundaries (destination_blocks6 ps) known))) (bt_values vs)))" by (rule compile_egress_ipv6_Ok)
  have "ek6_source_identity (entry_key e) = ep_identity src" if "e \<in> set (egress_piece ps known bs src b)" for e bs src b
    using that by (auto simp: egress_piece_def egress_ipv6_rows_def all_rows_def Let_def egress_ipv6_policy_map_entry_def
        split: option.splits if_splits)
  then show ?thesis unfolding egress_ipv6_trie_def longest_match_None es
    using unique_endpoints_Ok(1) [OF vs] assms(2) by fastforce
qed

section \<open>Decisions end to end\<close>

text \<open>What the enforcement theorems ask of the controller's state: policies the compilers and the agent
  accept, endpoints with identities, and addresses other than the wildcard.\<close>

definition state_wf :: "controller_state \<Rightarrow> bool" where
  "state_wf state \<longleftrightarrow>
     policies_wf (compiled_policies state) \<and> policies_named (compiled_policies state) \<and>
     list_all (\<lambda>p. pol_default_action p \<noteq> AuditAction) (compiled_policies state) \<and>
     (\<forall>ep \<in> set (endpoints_of state). ep_identity ep \<noteq> 0 \<and> named_ports_nonzero ep) \<and>
     (\<forall>e \<in> set (ipv4_endpoints_with_namespace_labels state). ep4_address e \<noteq> 0) \<and>
     0 \<notin> host_addresses4 state \<union> node_addresses4 state \<union> gateway_addresses4 state \<and>
     proper_excepts (source_blocks (ingress_of state)) \<and> proper_excepts (destination_blocks (egress_of state))"

lemma state_wfD:
  assumes "state_wf state"
  shows "policies_wf (ingress_of state)" "policies_wf (egress_of state)"
    and "policies_named (ingress_of state)" "policies_named (egress_of state)"
    and "list_all (\<lambda>p. pol_default_action p \<noteq> AuditAction) (ingress_of state)"
    and "list_all (\<lambda>p. pol_default_action p \<noteq> AuditAction) (egress_of state)"
    and "\<forall>ep \<in> set (endpoints_of state). ep_identity ep \<noteq> 0"
    and "\<And>ep. ep \<in> set (endpoints_of state) \<Longrightarrow> named_ports_nonzero ep"
  using assms by (auto simp: state_wf_def policies_wf_def policies_named_def list_all_iff)

lemma decode_decided:
  assumes "policies_named ps" "decided (evaluate_for_direction_with_addresses ps direction flow a) = Some r"
  shows "decode_policy_value (encoded revision r) revision d2 =
    enforced revision d2 (evaluate_for_direction_with_addresses ps direction flow a)"
proof -
  let ?d = "evaluate_for_direction_with_addresses ps direction flow a"
  have r: "r = outcome_of ?d" using assms(2) by (simp add: decided_def split: if_splits)
  have ok: "record_ok (policy_decision_record ?d)" "\<forall>s \<in> set_option (shadow_policy_decision_record ?d). record_ok s"
    using evaluate_records_ok [OF assms(1)] by simp_all
  then have "validate_policy_decision (policy_decision_record ?d) = Ok ()"
    "\<forall>s \<in> set_option (shadow_policy_decision_record ?d). validate_policy_decision s = Ok ()"
    by (auto simp: record_ok_def)
  then show ?thesis using ok by (simp add: r encoded_def outcome_of_def enforced_def decode_encoded)
qed

lemma published_maps:
  assumes "published snap maps v6 w6 config"
  shows "\<exists>m. desired_policy_entries (dp_entries snap) (cfg_revision config) (cfg_active_bank config) = Ok m \<and>
      (\<forall>k. key_bank k = cfg_active_bank config \<longrightarrow> policy_rules_get maps k = bt_get m k)"
    and "\<exists>m. desired_ipv4_policy_entries (dp_ipv4_entries snap) (cfg_revision config) (cfg_active_bank config) = Ok m \<and>
      (\<forall>k. key_bank k = cfg_active_bank config \<longrightarrow> policy_ipv4_get maps k = bt_get m k)"
    and "\<exists>m. desired_ipv6_policy_entries (dp_ipv6_entries snap) (cfg_revision config) (cfg_active_bank config) = Ok m \<and>
      (\<forall>k. lpm_key_bank k = cfg_active_bank config \<longrightarrow> v6 k = bt_get m k)"
    and "\<exists>m. desired_egress_ipv4_policy_entries (dp_egress_ipv4_entries snap) (cfg_revision config)
        (cfg_active_bank config) = Ok m \<and>
      (\<forall>k. key_bank k = cfg_active_bank config \<longrightarrow> egress_ipv4_get maps k = bt_get m k)"
    and "\<exists>m. desired_egress_ipv6_policy_entries (dp_egress_ipv6_entries snap) (cfg_revision config)
        (cfg_active_bank config) = Ok m \<and>
      (\<forall>k. lpm_key_bank k = cfg_active_bank config \<longrightarrow> w6 k = bt_get m k)"
    and "lpm_keys_ok v6" "lpm_contract (policy_ipv6_get maps) v6" "lpm_keys_ok w6" "lpm_contract (egress_ipv6_get maps) w6"
  using assms unfolding published_def Let_def by simp_all

lemma published_ipv4_value:
  assumes "compile_policy_state state = Ok snap" "state_wf state" "published snap maps v6 w6 config"
    and "dst \<in> set (endpoints_of state)" "x \<noteq> 0" "x \<notin> host_addresses4 state \<union> node_addresses4 state"
    and "kubernetes_targeted (ingress_of state) dst \<or> x \<in> ep4_address ` set (ipv4_endpoints_with_namespace_labels state) \<union>
      set (block_row_addresses (source_blocks (ingress_of state)))"
  shows "ingress_ipv4_value maps (be_bytes 4 x) (ep_identity dst) (be_bytes 2 port) (protocol_number p) config =
    map_option (encoded (cfg_revision config)) (decided (evaluate (ingress_of state)
      (pair_flow (source_endpoint (ipv4_endpoints_with_namespace_labels state) x) dst (Some x) None p port)))"
proof -
  note wf = state_wfD [OF assms(2)]
  from snapshot_compiled(2) [OF assms(1)] obtain e4 where
    e4: "compile_ipv4_dataplane_entries (ingress_of state) (endpoints_of state)
      (ipv4_endpoints_with_namespace_labels state) = Ok e4"
    and agree: "agree_off (\<lambda>k. pk4_source_address k \<in> host_addresses4 state \<union> node_addresses4 state) e4 (dp_ipv4_entries snap)"
    by blast
  from published_maps(2) [OF assms(3)] obtain m4 where
    m4: "desired_ipv4_policy_entries (dp_ipv4_entries snap) (cfg_revision config) (cfg_active_bank config) = Ok m4"
    and get: "\<And>k. key_bank k = cfg_active_bank config \<Longrightarrow> policy_ipv4_get maps k = bt_get m4 k" by blast
  have "distinct (map entry_key (dp_ipv4_entries snap))"
    using ipv4_kind.desired_entries_image(2) m4 unfolding desired_ipv4_policy_entries_def by blast
  moreover have "0 \<notin> host_addresses4 state \<union> node_addresses4 state" using assms(2) by (simp add: state_wf_def)
  ultimately have rows: "rows_map (dp_ipv4_entries snap) (Ipv4PolicyMapKey a i pr po) = rows_map e4 (Ipv4PolicyMapKey a i pr po)"
    if "a \<in> {0, x}" for a i pr po
    using agree_rows [OF agree, of "Ipv4PolicyMapKey a i pr po"] that assms(6) by auto
  have "or_else (chain_lookup (rows_map e4) (Ipv4PolicyMapKey x (ep_identity dst)) (protocol_number p) port)
      (chain_lookup (rows_map e4) (Ipv4PolicyMapKey 0 (ep_identity dst)) (protocol_number p) port) =
    decided (evaluate (ingress_of state)
      (pair_flow (source_endpoint (ipv4_endpoints_with_namespace_labels state) x) dst (Some x) None p port))"
    by (rule ipv4_lookup_correct [OF e4 wf(1) _ _ _ assms(4) _ assms(5,7)])
      (use assms(2) wf assms(4) in \<open>auto simp: state_wf_def list_all_iff\<close>)
  moreover have "ingress_ipv4_value maps (be_bytes 4 x) (ep_identity dst) (be_bytes 2 port) (protocol_number p) config =
    map_option (encoded (cfg_revision config)) (or_else (rows_map (dp_ipv4_entries snap) (Ipv4PolicyMapKey x 0 0 0))
      (or_else (chain_lookup (rows_map (dp_ipv4_entries snap)) (Ipv4PolicyMapKey x (ep_identity dst)) (protocol_number p) port)
        (chain_lookup (rows_map (dp_ipv4_entries snap)) (Ipv4PolicyMapKey 0 (ep_identity dst)) (protocol_number p) port)))"
    by (rule ingress_ipv4_found [OF m4]) (rule get)
  ultimately show ?thesis
    by (simp add: rows chain_lookup_def ipv4_no_zero_row [OF e4 wf(7)])
qed

lemma published_ipv6_value:
  assumes "compile_policy_state state = Ok snap" "state_wf state" "published snap maps v6 w6 config"
    and "dst \<in> set (endpoints_of state)" "x \<notin> host_addresses6 state \<union> node_addresses6 state"
  shows "ingress_ipv6_value maps (be_bytes 16 x) (ep_identity dst) (be_bytes 2 port) (protocol_number p) config =
    map_option (encoded (cfg_revision config)) (decided (evaluate (ingress_of state)
      (pair_flow (known_endpoint6 (ipv6_endpoints_with_namespace_labels state) x) dst None (Some x) p port)))"
proof -
  note wf = state_wfD [OF assms(2)]
  from snapshot_compiled(3) [OF assms(1)] obtain e6 where
    e6: "compile_ipv6_dataplane_entries (ingress_of state) (endpoints_of state)
      (ipv6_endpoints_with_namespace_labels state) = Ok e6"
    and agree: "agree_off (\<lambda>k. pk6_source_prefix_len k = 128 \<and>
      pk6_source_network k \<in> host_addresses6 state \<union> node_addresses6 state) e6 (dp_ipv6_entries snap)" by blast
  from published_maps(3) [OF assms(3)] obtain m6 where
    m6: "desired_ipv6_policy_entries (dp_ipv6_entries snap) (cfg_revision config) (cfg_active_bank config) = Ok m6"
    and get: "\<And>k. lpm_key_bank k = cfg_active_bank config \<Longrightarrow> v6 k = bt_get m6 k" by blast
  have "distinct (map entry_key (dp_ipv6_entries snap))"
    using ipv6_kind.desired_entries_image(2) m6 unfolding desired_ipv6_policy_entries_def by blast
  then have rows: "ipv6_trie (dp_ipv6_entries snap) x i t = ipv6_trie e6 x i t" for i t
    using ipv6_trie_agree [OF agree _ assms(5)] by simp
  have "chain_lookup (ipv6_trie e6 x (ep_identity dst)) Pair (protocol_number p) port = decided (evaluate (ingress_of state)
      (pair_flow (known_endpoint6 (ipv6_endpoints_with_namespace_labels state) x) dst None (Some x) p port))"
    by (rule ipv6_lookup_correct [OF e6 wf(1,5) assms(4) wf(8) [OF assms(4)]])
  moreover have "ingress_ipv6_value maps (be_bytes 16 x) (ep_identity dst) (be_bytes 2 port) (protocol_number p) config =
    map_option (encoded (cfg_revision config)) (or_else (ipv6_trie (dp_ipv6_entries snap) x 0 (0, 0))
      (chain_lookup (ipv6_trie (dp_ipv6_entries snap) x (ep_identity dst)) Pair (protocol_number p) port))"
    by (rule ingress_ipv6_found [where view = v6, OF m6]) (auto simp: get published_maps(6,7) [OF assms(3)])
  ultimately show ?thesis by (simp add: rows chain_lookup_def ipv6_no_zero_row [OF e6 wf(7)])
qed

lemma published_identity_value:
  assumes "compile_policy_state state = Ok snap" "state_wf state" "published snap maps v6 w6 config"
    and "src \<in> set (endpoints_of state)" "dst \<in> set (endpoints_of state)"
  shows "ingress_identity_value maps (ep_identity src) (ep_identity dst) (be_bytes 2 port) (protocol_number p) config =
    map_option (encoded (cfg_revision config)) (decided (evaluate (ingress_of state) (pair_flow src dst None None p port)))"
proof -
  note wf = state_wfD [OF assms(2)]
  from published_maps(1) [OF assms(3)] obtain m where
    m: "desired_policy_entries (dp_entries snap) (cfg_revision config) (cfg_active_bank config) = Ok m"
    and get: "\<And>k. key_bank k = cfg_active_bank config \<Longrightarrow> policy_rules_get maps k = bt_get m k" by blast
  have "ingress_identity_value maps (ep_identity src) (ep_identity dst) (be_bytes 2 port) (protocol_number p) config =
    map_option (encoded (cfg_revision config)) (chain_lookup (rows_map (dp_entries snap))
      (PolicyMapKey (ep_identity src) (ep_identity dst)) (protocol_number p) port)"
    by (rule ingress_identity_found [OF m]) (rule get)
  then show ?thesis
    using identity_lookup_correct [OF snapshot_compiled(1) [OF assms(1)] wf(1) assms(4,5) wf(8) [OF assms(5)]] by simp
qed

text \<open>Every address of an endpoint list belongs to a pod or to the gateway endpoint.\<close>

lemma address_endpoint_ports:
  assumes "state_wf state"
  shows "named_ports_nonzero (source_endpoint (ipv4_endpoints_with_namespace_labels state) x)"
    and "named_ports_nonzero (known_endpoint6 (ipv6_endpoints_with_namespace_labels state) y)"
proof -
  have outside: "named_ports_nonzero external_endpoint"
    "named_ports_nonzero (host_network_gateway_endpoint (ctl_namespaces state))"
    by (simp_all add: named_ports_nonzero_def external_endpoint_def host_network_gateway_endpoint_def
        endpoint_with_namespace_labels_def)
  have pod: "named_ports_nonzero (endpoint_with_namespace_labels (pod_endpoint pod) (ctl_namespaces state))"
    if "pod \<in> set (bt_values (ctl_pods state))" for pod
    using state_wfD(8) [OF assms] that by (simp add: endpoints_with_namespace_labels_def)
  have "named_ports_nonzero (ep4_endpoint e)" if "e \<in> set (ipv4_endpoints_with_namespace_labels state)" for e
    using that pod outside by (auto simp: ipv4_endpoints_with_namespace_labels_def)
  then show "named_ports_nonzero (source_endpoint (ipv4_endpoints_with_namespace_labels state) x)"
    using outside(1) by (auto simp: source_endpoint_def find_Some_iff split: option.split)
  have "named_ports_nonzero (ep6_endpoint e)" if "e \<in> set (ipv6_endpoints_with_namespace_labels state)" for e
    using that pod outside by (auto simp: ipv6_endpoints_with_namespace_labels_def)
  then show "named_ports_nonzero (known_endpoint6 (ipv6_endpoints_with_namespace_labels state) y)"
    using outside(1) by (auto simp: known_endpoint6_def find_Some_iff split: option.split)
qed

lemma published_egress_ipv4_value:
  assumes "compile_policy_state state = Ok snap" "state_wf state" "published snap maps v6 w6 config"
    and "src \<in> set (endpoints_of state)" "x \<noteq> 0" "x \<notin> gateway_addresses4 state \<union> node_addresses4 state"
  shows "egress_ipv4_value maps (be_bytes 4 x) (ep_identity src) (be_bytes 2 port) (protocol_number p) config =
    map_option (encoded (cfg_revision config)) (decided (evaluate_for_direction_with_addresses (egress_of state) Egress
      (pair_flow src (source_endpoint (ipv4_endpoints_with_namespace_labels state) x) None None p port)
      \<lparr>dest_ipv4 = Some x, dest_ipv6 = None\<rparr>))"
proof -
  note wf = state_wfD [OF assms(2)]
  from snapshot_compiled(4) [OF assms(1)] obtain x4 where
    x4: "compile_egress_ipv4_dataplane_entries (egress_of state) (endpoints_of state)
      (ipv4_endpoints_with_namespace_labels state) = Ok x4"
    and agree: "agree_off (\<lambda>k. ek4_destination_address k \<in> gateway_addresses4 state \<union> node_addresses4 state)
      x4 (dp_egress_ipv4_entries snap)" by blast
  from published_maps(4) [OF assms(3)] obtain n4 where
    n4: "desired_egress_ipv4_policy_entries (dp_egress_ipv4_entries snap) (cfg_revision config) (cfg_active_bank config) = Ok n4"
    and get: "\<And>k. key_bank k = cfg_active_bank config \<Longrightarrow> egress_ipv4_get maps k = bt_get n4 k" by blast
  have "distinct (map entry_key (dp_egress_ipv4_entries snap))"
    using egress_ipv4_kind.desired_entries_image(2) n4 unfolding desired_egress_ipv4_policy_entries_def by blast
  moreover have "0 \<notin> gateway_addresses4 state \<union> node_addresses4 state" using assms(2) by (simp add: state_wf_def)
  ultimately have rows: "rows_map (dp_egress_ipv4_entries snap) (EgressIpv4PolicyMapKey i a pr po) =
      rows_map x4 (EgressIpv4PolicyMapKey i a pr po)" if "a \<in> {0, x}" for a i pr po
    using agree_rows [OF agree, of "EgressIpv4PolicyMapKey i a pr po"] that assms(6) by auto
  have "or_else (chain_lookup (rows_map x4) (EgressIpv4PolicyMapKey (ep_identity src) x) (protocol_number p) port)
      (chain_lookup (rows_map x4) (EgressIpv4PolicyMapKey (ep_identity src) 0) (protocol_number p) port) =
    decided (evaluate_for_direction_with_addresses (egress_of state) Egress
      (pair_flow src (source_endpoint (ipv4_endpoints_with_namespace_labels state) x) None None p port)
      \<lparr>dest_ipv4 = Some x, dest_ipv6 = None\<rparr>)"
    by (rule egress_ipv4_lookup_correct [OF x4 wf(2) _ _ wf(6) assms(4) address_endpoint_ports(1) [OF assms(2)] assms(5)])
      (use assms(2) in \<open>auto simp: state_wf_def\<close>)
  moreover have "egress_ipv4_value maps (be_bytes 4 x) (ep_identity src) (be_bytes 2 port) (protocol_number p) config =
    map_option (encoded (cfg_revision config)) (or_else (rows_map (dp_egress_ipv4_entries snap) (EgressIpv4PolicyMapKey 0 x 0 0))
      (or_else (chain_lookup (rows_map (dp_egress_ipv4_entries snap)) (EgressIpv4PolicyMapKey (ep_identity src) x) (protocol_number p) port)
        (chain_lookup (rows_map (dp_egress_ipv4_entries snap)) (EgressIpv4PolicyMapKey (ep_identity src) 0) (protocol_number p) port)))"
    by (rule egress_ipv4_found [OF n4]) (rule get)
  ultimately show ?thesis by (simp add: rows chain_lookup_def egress_ipv4_no_zero_row [OF x4 wf(7)])
qed

lemma published_egress_ipv6_value:
  assumes "compile_policy_state state = Ok snap" "state_wf state" "published snap maps v6 w6 config"
    and "plain_destinations (egress_of state)"
    and "src \<in> set (endpoints_of state)" "x \<notin> gateway_addresses6 state \<union> node_addresses6 state"
  shows "egress_ipv6_value maps (be_bytes 16 x) (ep_identity src) (be_bytes 2 port) (protocol_number p) config =
    map_option (encoded (cfg_revision config)) (decided (evaluate_for_direction_with_addresses (egress_of state) Egress
      (pair_flow src (known_endpoint6 (ipv6_endpoints_with_namespace_labels state) x) None None p port)
      \<lparr>dest_ipv4 = None, dest_ipv6 = Some x\<rparr>))"
proof -
  note wf = state_wfD [OF assms(2)]
  from snapshot_compiled(5) [OF assms(1)] obtain x6 where
    x6: "compile_egress_ipv6_dataplane_entries (egress_of state) (endpoints_of state)
      (ipv6_endpoints_with_namespace_labels state) = Ok x6"
    and agree: "agree_off (\<lambda>k. ek6_destination_prefix_len k = 128 \<and>
      ek6_destination_network k \<in> gateway_addresses6 state \<union> node_addresses6 state) x6 (dp_egress_ipv6_entries snap)" by blast
  from published_maps(5) [OF assms(3)] obtain n6 where
    n6: "desired_egress_ipv6_policy_entries (dp_egress_ipv6_entries snap) (cfg_revision config) (cfg_active_bank config) = Ok n6"
    and get: "\<And>k. lpm_key_bank k = cfg_active_bank config \<Longrightarrow> w6 k = bt_get n6 k" by blast
  have "distinct (map entry_key (dp_egress_ipv6_entries snap))"
    using egress_ipv6_kind.desired_entries_image(2) n6 unfolding desired_egress_ipv6_policy_entries_def by blast
  then have rows: "egress_ipv6_trie (dp_egress_ipv6_entries snap) i x t = egress_ipv6_trie x6 i x t" for i t
    using egress_ipv6_trie_agree [OF agree _ assms(6)] by simp
  have "chain_lookup (egress_ipv6_trie x6 (ep_identity src) x) Pair (protocol_number p) port =
    decided (evaluate_for_direction_with_addresses (egress_of state) Egress
      (pair_flow src (known_endpoint6 (ipv6_endpoints_with_namespace_labels state) x) None None p port)
      \<lparr>dest_ipv4 = None, dest_ipv6 = Some x\<rparr>)"
    by (rule egress_ipv6_lookup_correct [OF x6 wf(2,6) assms(4,5) address_endpoint_ports(2) [OF assms(2)]])
  moreover have "egress_ipv6_value maps (be_bytes 16 x) (ep_identity src) (be_bytes 2 port) (protocol_number p) config =
    map_option (encoded (cfg_revision config)) (or_else (egress_ipv6_trie (dp_egress_ipv6_entries snap) 0 x (0, 0))
      (chain_lookup (egress_ipv6_trie (dp_egress_ipv6_entries snap) (ep_identity src) x) Pair (protocol_number p) port))"
    by (rule egress_ipv6_found [where view = w6, OF n6]) (auto simp: get published_maps(8,9) [OF assms(3)])
  ultimately show ?thesis by (simp add: rows chain_lookup_def egress_ipv6_no_zero_row [OF x6 wf(7)])
qed

lemma decode_found:
  assumes "policies_named ps"
    and "v = map_option (encoded revision) (decided (evaluate_for_direction_with_addresses ps direction flow a))"
  shows "(case v of Some v \<Rightarrow> decode_policy_value v revision d2 | None \<Rightarrow> z) =
    (if has_policy_provenance (evaluate_for_direction_with_addresses ps direction flow a)
     then enforced revision d2 (evaluate_for_direction_with_addresses ps direction flow a) else z)"
proof (cases "decided (evaluate_for_direction_with_addresses ps direction flow a)")
  case None
  then show ?thesis by (simp add: assms(2) decided_def split: if_splits)
next
  case (Some r)
  then have "has_policy_provenance (evaluate_for_direction_with_addresses ps direction flow a)"
    by (simp add: decided_def split: if_splits)
  then show ?thesis using Some decode_decided [OF assms(1) Some] by (simp add: assms(2))
qed

text \<open>One address family at a time, the lookups are a decoded value or the next lookup.\<close>

lemma lookup_steps:
  "j \<noteq> 0 \<Longrightarrow> lookup_ingress_policy maps (Some a) None i j port proto config =
     (case ingress_ipv4_value maps a j port proto config of
        Some v \<Rightarrow> decode_policy_value v (cfg_revision config) Ingress
      | None \<Rightarrow> lookup_ingress_policy maps None None i j port proto config)"
  "j \<noteq> 0 \<Longrightarrow> lookup_ingress_policy maps None (Some b) i j port proto config =
     (case ingress_ipv6_value maps b j port proto config of
        Some v \<Rightarrow> decode_policy_value v (cfg_revision config) Ingress
      | None \<Rightarrow> lookup_ingress_policy maps None None i j port proto config)"
  "i \<noteq> 0 \<Longrightarrow> j \<noteq> 0 \<Longrightarrow> lookup_ingress_policy maps None None i j port proto config =
     (case ingress_identity_value maps i j port proto config of
        Some v \<Rightarrow> decode_policy_value v (cfg_revision config) Ingress | None \<Rightarrow> observed Ingress Observed)"
  "i \<noteq> 0 \<Longrightarrow> lookup_egress_policy maps (Some a) None i port proto config =
     (case egress_ipv4_value maps a i port proto config of
        Some v \<Rightarrow> decode_policy_value v (cfg_revision config) Egress | None \<Rightarrow> observed Egress Observed)"
  "i \<noteq> 0 \<Longrightarrow> lookup_egress_policy maps None (Some b) i port proto config =
     (case egress_ipv6_value maps b i port proto config of
        Some v \<Rightarrow> decode_policy_value v (cfg_revision config) Egress | None \<Rightarrow> observed Egress Observed)"
  by (simp_all add: lookup_ingress_policy_def lookup_egress_policy_def Let_def split: option.split)

section \<open>Packets\<close>

definition reported :: "u64 \<Rightarrow> PolicyDirection \<Rightarrow> PolicyDecision \<Rightarrow> DataplaneDecision" where
  "reported revision direction d =
     (if has_policy_provenance d then enforced revision direction d else observed direction Observed)"

lemma enforced_fields [simp]:
  "dd_policy_revision (enforced revision direction d) = revision"
  "dd_verdict (enforced revision direction d) = dec_verdict d"
  by (simp_all add: enforced_def outcome_decision_def outcome_of_def policy_decision_record_def)

lemma observed_fields [simp]:
  "dd_policy_revision (observed direction reason) = 0" "dd_verdict (observed direction reason) = AllowVerdict"
  by (simp_all add: observed_def)

lemma denied_provenance:
  "dec_verdict (evaluate_for_direction_with_addresses ps direction flow a) = DenyVerdict \<Longrightarrow>
     has_policy_provenance (evaluate_for_direction_with_addresses ps direction flow a)"
  using no_provenance_outcome [of ps direction flow a]
  by (auto simp: outcome_of_def no_policy_outcome_def policy_decision_record_def)

lemma decisive_denies:
  assumes "revision \<noteq> 0" "dec_verdict d = DenyVerdict \<Longrightarrow> has_policy_provenance d"
    "dec_verdict e = DenyVerdict \<Longrightarrow> has_policy_provenance e"
  shows "dd_verdict (decisive_directional_policy (reported revision Ingress d) (reported revision Egress e)
      (observed direction reason)) = DenyVerdict \<longleftrightarrow> dec_verdict d = DenyVerdict \<or> dec_verdict e = DenyVerdict"
  using assms by (auto simp: decisive_directional_policy_def reported_def Let_def)

lemma active_config_revision: "active_policy_config maps = Some config \<Longrightarrow> cfg_revision config \<noteq> 0"
  by (auto simp: active_policy_config_def Let_def split: option.splits if_splits)

text \<open>Whether a policy decides depends on the target alone, so the fall-through to identities finds nothing.\<close>

lemma same_provenance:
  assumes "state_wf state"
  shows "has_policy_provenance (evaluate (ingress_of state) (pair_flow src dst s4 s6 p port)) =
    has_policy_provenance (evaluate (ingress_of state) (pair_flow src' dst s4' s6' p' port'))"
proof -
  have "list_all (\<lambda>p. pol_direction p = Ingress \<and> pol_default_action p \<noteq> AuditAction) (ingress_of state)"
    using state_wfD(5) [OF assms] by (auto simp: list_all_iff)
  from evaluate_provenance_targeted [OF this] show ?thesis by simp
qed

section \<open>From the agent to the program\<close>

text \<open>The program reads the maps the agent writes: hash lookups see their contents, tries match the
  longest prefix of theirs, and the configuration is the array's only element.\<close>

definition attached ::
  "('s \<Rightarrow> bytes \<rightharpoonup> bytes) \<Rightarrow> ('t \<Rightarrow> lpm_key \<rightharpoonup> bytes) \<Rightarrow> ('c \<Rightarrow> bytes) \<Rightarrow> ('s, 't, 'c) PolicySynchronizer \<Rightarrow>
   policy_maps \<Rightarrow> bool" where
  "attached vh vl vc s maps \<longleftrightarrow>
     policy_rules_get maps = vh (identity_map s) \<and> policy_ipv4_get maps = vh (ipv4_map s) \<and>
     lpm_contract (policy_ipv6_get maps) (vl (ipv6_map s)) \<and> egress_ipv4_get maps = vh (egress_ipv4_map s) \<and>
     lpm_contract (egress_ipv6_get maps) (vl (egress_ipv6_map s)) \<and>
     policy_config_get maps = Some (vc (sync_config s))"

lemma entries_lpm_keys: "all_entries lpm_entry_ok vl m \<Longrightarrow> lpm_keys_ok (vl m)"
  unfolding all_entries_def lpm_keys_ok_def lpm_entry_ok_def by (metis fst_conv not_None_eq)

lemma config_decoded:
  assumes "encode_policy_config epoch revision entry_count bank = Ok raw" "revision \<noteq> 0" "policy_config_get maps = Some raw"
  shows "\<exists>config. active_policy_config maps = Some config \<and> cfg_revision config = revision \<and> cfg_active_bank config = bank"
proof -
  note f = config_fields [OF assms(1) [unfolded encode_policy_config_def]]
  show ?thesis using assms(2,3) f by (simp add: active_policy_config_def policy_map_config_def Let_def)
qed

lemma bank_published:
  assumes "desired_bank policy revision bank = Ok desired" "holds_bank vh vl bank desired s" "maps_ok vh vl s"
    and "attached vh vl vc s maps" "cfg_revision config = revision" "cfg_active_bank config = bank"
  shows "published policy maps (vl (ipv6_map s)) (vl (egress_ipv6_map s)) config"
  using desired_bank_Ok [OF assms(1)] assms(2-6) entries_lpm_keys [of vl "ipv6_map s"] entries_lpm_keys [of vl "egress_ipv6_map s"]
  by (simp add: published_def attached_def holds_bank_def maps_ok_def)

text \<open>A synchronization that goes through leaves the program with a published snapshot.\<close>

lemma synchronize_published:
  assumes "kernel_contract os vh vl vc" "agent_inv vh vl vc s (applied_policy_revision a)" "snapshot_ok snapshot"
    and "synchronize_policies os (Some snapshot) (s, a) = (Ok (), s', a')"
    and "(snap_source_epoch snapshot, dp_revision (snap_policy snapshot)) \<noteq> (applied_epoch s, applied_policy_revision a)"
    and "attached vh vl vc s' maps"
  shows "\<exists>config. active_policy_config maps = Some config \<and> cfg_revision config = dp_revision (snap_policy snapshot) \<and>
    published (snap_policy snapshot) maps (vl (ipv6_map s')) (vl (egress_ipv6_map s')) config"
  using assms(4)
proof (cases rule: synchronize_cases)
  case (published snap desired t)
  then have snap: "snap = snapshot" by simp
  have sync: "sync_ok vh vl s" using assms(2) by (simp add: agent_inv_def)
  have b: "staging_bank s < POLICY_BANK_COUNT" "staging_bank s \<noteq> active_bank s"
    using staging_other [of s] sync by (auto simp: sync_ok_def)
  note i = apply_installs_bank [OF assms(1) sync desired_bank_wf [OF published(5)] b published(6)]
  have "maps_ok vh vl s'"
    using synchronize_keeps [OF assms(1,2) _ assms(4)] assms(3) by (auto simp: agent_inv_def entries_ok_def)
  moreover have "holds_bank vh vl (staging_bank s) desired s'"
    using i published(7) by (simp add: holds_bank_def)
  moreover have "policy_config_get maps = Some (vc (sync_config s'))" using assms(6) by (simp add: attached_def)
  moreover have "encode_policy_config (snap_source_epoch snap) (dp_revision (snap_policy snap)) (bank_entry_count desired)
      (staging_bank s) = Ok (vc (sync_config s'))" using i published(7) by simp
  moreover have "dp_revision (snap_policy snap) \<noteq> 0" using assms(3) by (simp add: snap snapshot_ok_def)
  ultimately show ?thesis
    using config_decoded [of _ _ _ _ _ maps] bank_published [OF published(5) _ _ assms(6)] unfolding snap by metis
qed (use assms(5) in auto)

section \<open>Longest match by search\<close>

text \<open>A trie kept as a list of entries meets the contract of the lookups.\<close>

definition lpm_get :: "(lpm_key \<times> bytes) list \<Rightarrow> lpm_key \<Rightarrow> bytes option" where
  "lpm_get m key =
     (let matching = filter (\<lambda>e. lpm_matches (fst e) key) m
      in map_option snd (find (\<lambda>e. list_all (\<lambda>e'. fst (fst e') \<le> fst (fst e)) matching) matching))"

lemma longest_exists:
  fixes es :: "(lpm_key \<times> bytes) list"
  assumes "es \<noteq> []"
  shows "\<exists>e \<in> set es. \<forall>e' \<in> set es. fst (fst e') \<le> fst (fst e)"
proof -
  let ?S = "(\<lambda>e. fst (fst e)) ` set es"
  have "Max ?S \<in> ?S" using assms by (intro Max_in) auto
  then obtain e where e: "e \<in> set es" "Max ?S = fst (fst e)" by blast
  have "fst (fst e') \<le> Max ?S" if "e' \<in> set es" for e' using that by (intro Max_ge) auto
  then show ?thesis using e(1) unfolding e(2) by blast
qed

lemma lpm_get_contract:
  assumes "distinct (map fst m)"
  shows "lpm_contract (lpm_get m) (map_of m)"
  unfolding lpm_contract_def
proof (intro allI, goal_cases)
  case (1 key)
  let ?es = "filter (\<lambda>e. lpm_matches (fst e) key) m"
  let ?r = "find (\<lambda>e. list_all (\<lambda>e'. fst (fst e') \<le> fst (fst e)) ?es) ?es"
  have mem: "map_of m k \<noteq> None \<and> lpm_matches k key \<longleftrightarrow> k \<in> fst ` set ?es" for k
    by (auto simp: map_of_eq_None_iff)
  show ?case
  proof (cases ?r)
    case None
    then have "?es = []" using longest_exists [of ?es] unfolding find_None_iff list_all_iff by blast
    then have "\<not> lpm_matches k key" if "map_of m k \<noteq> None" for k using that mem [of k] by simp
    then show ?thesis using None by (simp add: lpm_get_def)
  next
    case (Some e)
    then have "e \<in> set ?es" "list_all (\<lambda>e'. fst (fst e') \<le> fst (fst e)) ?es" by (blast dest: find_SomeD)+
    then have e: "e \<in> set m" "lpm_matches (fst e) key" "\<forall>e' \<in> set ?es. fst (fst e') \<le> fst (fst e)"
      by (simp_all add: list_all_iff)
    have "map_of m (fst e) = Some (snd e)" using e(1) assms by simp
    moreover have "fst k \<le> fst (fst e)" if "map_of m k \<noteq> None \<and> lpm_matches k key" for k
      using e(3) that [unfolded mem] by blast
    moreover have "lpm_get m key = Some (snd e)" using Some by (simp add: lpm_get_def)
    ultimately show ?thesis using e(2) by (simp only: option.case) blast
  qed
qed

end
