(* ===== verification/Small_Cluster.thy ===== *)
theory Small_Cluster
  imports Tc_Published
begin

text \<open>
  A cluster of two pods and a node whose policies allow one port, compiled, synchronized and published:
  the concrete input at which the enforcement theorems are applied.
\<close>

definition small_endpoint :: "u32 \<Rightarrow> Endpoint" where
  "small_endpoint identity = \<lparr>ep_identity = identity, ep_namespace = [], ep_namespace_labels = [],
     ep_service_account = [], ep_application = None, ep_labels = [], ep_named_ports = []\<rparr>"

definition small_pod :: "u32 \<Rightarrow> u32 \<Rightarrow> PodRecord" where
  "small_pod identity address = \<lparr>pod_namespace = [], pod_name = [], pod_uid = [], pod_node_name = None,
     pod_host_network = False, pod_endpoint = small_endpoint identity,
     pod_ipv4_addresses = [address], pod_ipv6_addresses = [ucast address]\<rparr>"

text \<open>Two pods and a node, and a policy in each direction that allows port 443 only.\<close>

definition small_cluster :: controller_state where
  "small_cluster = \<lparr>ctl_policy_revision = 3, ctl_pods = [(''a'', small_pod 1 10), (''b'', small_pod 2 20)],
     ctl_namespaces = [([], [])], ctl_host_network_gateways = [],
     ctl_node_blocks = [(''n'', \<lparr>node_uid = [], node_provider = sample_provider, node_revision = 0, node_transport = Ok (40, 40)\<rparr>)],
     ctl_security_policies = [], ctl_network_policies = [(''p'', [web_policy Ingress, web_policy Egress])],
     ctl_policy_cache = None\<rparr>"

lemma small_cluster_endpoints:
  "endpoints_of small_cluster = [small_endpoint 1, small_endpoint 2]"
  "source_endpoint (ipv4_endpoints_with_namespace_labels small_cluster) 10 = small_endpoint 1"
  "source_endpoint (ipv4_endpoints_with_namespace_labels small_cluster) 20 = small_endpoint 2"
  "known_endpoint6 (ipv6_endpoints_with_namespace_labels small_cluster) 10 = small_endpoint 1"
  "known_endpoint6 (ipv6_endpoints_with_namespace_labels small_cluster) 20 = small_endpoint 2"
  "ep4_address ` set (ipv4_endpoints_with_namespace_labels small_cluster) = {10, 20}"
  by code_simp+

lemma small_cluster_addresses [simp]:
  "host_addresses4 small_cluster = {}" "host_addresses6 small_cluster = {}"
  "gateway_addresses4 small_cluster = {}" "gateway_addresses6 small_cluster = {}"
  "node_addresses4 small_cluster = {40}" "node_addresses6 small_cluster = {40}"
  "node_transports small_cluster = [(40, 40)]"
  by code_simp+

lemma small_cluster_policies:
  "ingress_of small_cluster = [web_policy Ingress]" "egress_of small_cluster = [web_policy Egress]"
  "compiled_policies small_cluster = [web_policy Ingress, web_policy Egress]"
  by (simp_all add: compiled_policies_def small_cluster_def bt_values_def)

lemma small_cluster_wf: "state_wf small_cluster"
proof -
  have "0 \<notin> ep4_address ` set (ipv4_endpoints_with_namespace_labels small_cluster)"
    by (simp add: small_cluster_endpoints)
  then have "\<forall>e \<in> set (ipv4_endpoints_with_namespace_labels small_cluster). ep4_address e \<noteq> 0" by force
  then show ?thesis unfolding state_wf_def small_cluster_policies small_cluster_endpoints
    by (simp add: policies_wf_def policies_named_def rule_wf_def sample_rule_def web_policy_def sample_policy_def
        small_endpoint_def named_ports_nonzero_def any_selector_def proper_excepts_def source_blocks_def destination_blocks_def)
qed

section \<open>The cluster published\<close>

definition small_snapshot :: "dataplane_policy \<Rightarrow> PolicyStateSnapshot" where
  "small_snapshot snap = \<lparr>snap_schema_version = 4, snap_source_epoch = 9, snap_policy = snap\<rparr>"

text \<open>The maps of the program, read from the lists of a kernel that never fails.\<close>

definition list_maps ::
  "((bytes \<times> bytes) list \<times> bool list, (lpm_key \<times> bytes) list \<times> bool list, bytes) PolicySynchronizer \<Rightarrow> policy_maps" where
  "list_maps s = \<lparr>policy_rules_get = map_of (fst (identity_map s)), policy_ipv4_get = map_of (fst (ipv4_map s)),
     policy_ipv6_get = lpm_get (fst (ipv6_map s)), egress_ipv4_get = map_of (fst (egress_ipv4_map s)),
     egress_ipv6_get = lpm_get (fst (egress_ipv6_map s)), policy_config_get = Some (sync_config s),
     direction_scratch = True, decision_scratch = True, connection_scratch = True, event_scratch = True, counter_slot = True\<rparr>"

lemma list_maps_attached:
  assumes "distinct (map fst (fst (ipv6_map s)))" "distinct (map fst (fst (egress_ipv6_map s)))"
  shows "attached scheduled_view scheduled_view (\<lambda>c. c) s (list_maps s)" "direction_scratch (list_maps s)"
  using assms by (simp_all add: attached_def list_maps_def scheduled_view_def lpm_get_contract)

lemma small_cluster_run:
  obtains snap s' a' where "compile_policy_state small_cluster = Ok snap" "snapshot_ok (small_snapshot snap)"
    "synchronize_policies flaky_kernel (Some (small_snapshot snap)) (empty_synchronizer [], new_agent) = (Ok (), s', a')"
    "attached scheduled_view scheduled_view (\<lambda>c. c) s' (list_maps s')" "direction_scratch (list_maps s')"
proof -
  have "case compile_policy_state small_cluster of Err _ \<Rightarrow> False
   | Ok snap \<Rightarrow> snapshot_ok (small_snapshot snap) \<and>
      (case synchronize_policies flaky_kernel (Some (small_snapshot snap)) (empty_synchronizer [], new_agent) of
        (r, s', a') \<Rightarrow> r = Ok () \<and> distinct (map fst (fst (ipv6_map s'))) \<and> distinct (map fst (fst (egress_ipv6_map s'))))"
    by code_simp
  then show thesis using that list_maps_attached by (auto split: sum.splits prod.splits)
qed

lemma empty_agent_inv: "agent_inv scheduled_view scheduled_view (\<lambda>c. c) (empty_synchronizer oks) 0"
  by (rule start_inv) (simp_all add: empty_synchronizer_def new_synchronizer_def scheduled_view_def)

lemma small_cluster_published:
  obtains snap maps v6 w6 config where "compile_policy_state small_cluster = Ok snap" "direction_scratch maps"
    "active_policy_config maps = Some config" "published snap maps v6 w6 config"
proof -
  obtain snap s' a' where run: "compile_policy_state small_cluster = Ok snap" "snapshot_ok (small_snapshot snap)"
    "synchronize_policies flaky_kernel (Some (small_snapshot snap)) (empty_synchronizer [], new_agent) = (Ok (), s', a')"
    "attached scheduled_view scheduled_view (\<lambda>c. c) s' (list_maps s')" "direction_scratch (list_maps s')"
    by (rule small_cluster_run)
  have "agent_inv scheduled_view scheduled_view (\<lambda>c. c) (empty_synchronizer []) (applied_policy_revision new_agent)"
    using empty_agent_inv by (simp add: new_agent_def)
  from synchronize_published [OF flaky_kernel_contract this run(2,3) _ run(4)] obtain config where
    "active_policy_config (list_maps s') = Some config" "published snap (list_maps s') (scheduled_view (ipv6_map s'))
      (scheduled_view (egress_ipv6_map s')) config"
    by (auto simp: small_snapshot_def empty_synchronizer_def)
  then show thesis using that run(1,5) by blast
qed

section \<open>Flows of the small cluster\<close>

lemma small_cluster_denied:
  "dec_verdict (evaluate (ingress_of small_cluster)
     (pair_flow (small_endpoint 1) (small_endpoint 2) (Some 10) None Tcp 80)) = DenyVerdict"
  "dec_verdict (evaluate (ingress_of small_cluster)
     (pair_flow (small_endpoint 1) (small_endpoint 2) None (Some 10) Tcp 80)) = DenyVerdict"
  "dec_verdict (evaluate (ingress_of small_cluster)
     (pair_flow (small_endpoint 1) (small_endpoint 2) None None Tcp 80)) = DenyVerdict"
  "dec_verdict (evaluate_for_direction_with_addresses (egress_of small_cluster) Egress
     (pair_flow (small_endpoint 1) (small_endpoint 2) None None Tcp 80) \<lparr>dest_ipv4 = Some 20, dest_ipv6 = None\<rparr>) = DenyVerdict"
  "dec_verdict (evaluate_for_direction_with_addresses (egress_of small_cluster) Egress
     (pair_flow (small_endpoint 1) (small_endpoint 2) None None Tcp 80) \<lparr>dest_ipv4 = None, dest_ipv6 = Some 20\<rparr>) = DenyVerdict"
  by code_simp+

lemmas small_cluster_provenance = small_cluster_denied(1-3) [unfolded evaluate_ingress, THEN denied_provenance, folded evaluate_ingress]
  small_cluster_denied(4,5) [THEN denied_provenance]

lemma small_cluster_allowed:
  "dec_verdict (evaluate (ingress_of small_cluster)
     (pair_flow (small_endpoint 1) (small_endpoint 2) (Some 10) None Tcp 443)) = AllowVerdict"
  "dec_verdict (evaluate_for_direction_with_addresses (egress_of small_cluster) Egress
     (pair_flow (small_endpoint 1) (small_endpoint 2) None None Tcp 443) \<lparr>dest_ipv4 = Some 20, dest_ipv6 = None\<rparr>) = AllowVerdict"
  by code_simp+

lemma small_cluster_known:
  "small_endpoint 1 \<in> set (endpoints_of small_cluster)" "small_endpoint 2 \<in> set (endpoints_of small_cluster)"
  "10 \<in> ep4_address ` set (ipv4_endpoints_with_namespace_labels small_cluster)"
  "10 \<notin> host_addresses4 small_cluster \<union> node_addresses4 small_cluster"
  "10 \<notin> host_addresses6 small_cluster \<union> node_addresses6 small_cluster"
  "20 \<notin> gateway_addresses4 small_cluster \<union> node_addresses4 small_cluster"
  "20 \<notin> gateway_addresses6 small_cluster \<union> node_addresses6 small_cluster"
  "(10 :: u32) \<noteq> 0" "(20 :: u32) \<noteq> 0" "ep_identity (small_endpoint i) = i"
  unfolding small_cluster_endpoints by (simp_all add: small_endpoint_def)

lemma small_cluster_row:
  "kubernetes_targeted (ingress_of small_cluster) (small_endpoint 2) \<or>
   10 \<in> ep4_address ` set (ipv4_endpoints_with_namespace_labels small_cluster) \<union>
     set (block_row_addresses (source_blocks (ingress_of small_cluster)))"
  using small_cluster_known(3) by blast

lemma small_cluster_plain: "plain_destinations (egress_of small_cluster)"
  by code_simp

definition small_packet :: "u16 \<Rightarrow> FlowObservation" where
  "small_packet port = \<lparr>obs_source_address = be_bytes 4 (10 :: u32) @ replicate 12 0, obs_destination_address = be_bytes 4 (20 :: u32) @ replicate 12 0,
     obs_source_port = [0, 1], obs_destination_port = be_bytes 2 port, obs_source_identity = 1, obs_destination_identity = 2,
     obs_direction = Ingress, obs_address_family = Ipv4, obs_protocol = 6, obs_tcp_flags = 0, obs_enforce = True\<rparr>"

lemma small_packet_fields:
  "take 4 (obs_source_address (small_packet port)) = be_bytes 4 (10 :: u32)"
  "take 4 (obs_destination_address (small_packet port)) = be_bytes 4 (20 :: u32)"
  "obs_destination_port (small_packet port) = be_bytes 2 port" "obs_protocol (small_packet port) = protocol_number Tcp"
  "obs_address_family (small_packet port) = Ipv4"
  "obs_source_identity (small_packet port) = 1" "obs_destination_identity (small_packet port) = 2"
  by (simp_all add: small_packet_def)

end
