(* ===== verification/Tc_Enforce.thy ===== *)
theory Tc_Enforce
  imports Small_Cluster
begin

text \<open>
  Enforcement end to end: a packet handled by the traffic-control program on maps that hold a
  published snapshot of the controller gets the decision the policy evaluator computes for its flow.
\<close>

section \<open>Lookups\<close>





text \<open>
  C8: identity policy is enforced as decided.  Between known endpoints, a lookup without addresses
  reaches the evaluator's decision, and an observation when no policy decides.
\<close>

theorem identity_ingress_enforced:
  assumes "compile_policy_state state = Ok snap" and "state_wf state" and "published snap maps v6 w6 config"
    and "src \<in> set (endpoints_of state)" and "dst \<in> set (endpoints_of state)"
    and "d = evaluate (ingress_of state) (pair_flow src dst None None p port)"
  shows "lookup_ingress_policy maps None None (ep_identity src) (ep_identity dst) (be_bytes 2 port) (protocol_number p)
      config = (if has_policy_provenance d then enforced (cfg_revision config) Ingress d else observed Ingress Observed)"
  unfolding assms(6) evaluate_ingress
    decode_found [OF state_wfD(3) [OF assms(2)]
      published_identity_value [OF assms(1-5), of port p, unfolded evaluate_ingress], symmetric]
  using state_wfD(7) [OF assms(2)] assms(4,5) by (simp add: lookup_steps)

theorem identity_ingress_enforced_witness:
  "\<exists>snap maps v6 w6 config. compile_policy_state small_cluster = Ok snap \<and> published snap maps v6 w6 config \<and>
     dd_verdict (lookup_ingress_policy maps None None 1 2 (be_bytes 2 (80 :: u16)) 6 config) = DenyVerdict"
proof -
  obtain snap maps v6 w6 config where c: "compile_policy_state small_cluster = Ok snap" "direction_scratch maps"
    "active_policy_config maps = Some config" "published snap maps v6 w6 config" by (rule small_cluster_published)
  have "lookup_ingress_policy maps None None 1 2 (be_bytes 2 (80 :: u16)) 6 config =
    enforced (cfg_revision config) Ingress (evaluate (ingress_of small_cluster)
      (pair_flow (small_endpoint 1) (small_endpoint 2) None None Tcp 80))"
    using identity_ingress_enforced [OF c(1) small_cluster_wf c(4) small_cluster_known(1,2) refl, of 80 Tcp]
    unfolding small_cluster_known protocol_number.simps if_P [OF small_cluster_provenance(3)] .
  then show ?thesis using c small_cluster_denied(3) enforced_fields(2) by metis
qed

text \<open>
  C13: IPv4 egress is enforced as decided, for every destination that is neither a node nor a
  host-network gateway, inside or outside the cluster.
\<close>

theorem ipv4_egress_enforced:
  assumes "compile_policy_state state = Ok snap" and "state_wf state" and "published snap maps v6 w6 config"
    and "src \<in> set (endpoints_of state)" and "x \<noteq> 0" and "x \<notin> gateway_addresses4 state \<union> node_addresses4 state"
    and "d = evaluate_for_direction_with_addresses (egress_of state) Egress
      (pair_flow src (source_endpoint (ipv4_endpoints_with_namespace_labels state) x) None None p port)
      \<lparr>dest_ipv4 = Some x, dest_ipv6 = None\<rparr>"
  shows "lookup_egress_policy maps (Some (be_bytes 4 x)) None (ep_identity src) (be_bytes 2 port) (protocol_number p)
      config = (if has_policy_provenance d then enforced (cfg_revision config) Egress d else observed Egress Observed)"
  unfolding assms(7)
    decode_found [OF state_wfD(4) [OF assms(2)] published_egress_ipv4_value [OF assms(1-6), of port p], symmetric]
  using state_wfD(7) [OF assms(2)] assms(4) by (simp add: lookup_steps)

theorem ipv4_egress_enforced_witness:
  "\<exists>snap maps v6 w6 config. compile_policy_state small_cluster = Ok snap \<and> published snap maps v6 w6 config \<and>
     dd_verdict (lookup_egress_policy maps (Some (be_bytes 4 (20 :: u32))) None 1 (be_bytes 2 (80 :: u16)) 6 config) = DenyVerdict"
proof -
  obtain snap maps v6 w6 config where c: "compile_policy_state small_cluster = Ok snap" "direction_scratch maps"
    "active_policy_config maps = Some config" "published snap maps v6 w6 config" by (rule small_cluster_published)
  have "lookup_egress_policy maps (Some (be_bytes 4 (20 :: u32))) None 1 (be_bytes 2 (80 :: u16)) 6 config =
    enforced (cfg_revision config) Egress (evaluate_for_direction_with_addresses (egress_of small_cluster) Egress
      (pair_flow (small_endpoint 1) (small_endpoint 2) None None Tcp 80) \<lparr>dest_ipv4 = Some 20, dest_ipv6 = None\<rparr>)"
    using ipv4_egress_enforced [OF c(1) small_cluster_wf c(4) small_cluster_known(1,9,6) refl, of 80 Tcp]
    unfolding small_cluster_endpoints small_cluster_known protocol_number.simps if_P [OF small_cluster_provenance(4)] .
  then show ?thesis using c small_cluster_denied(4) enforced_fields(2) by metis
qed



section \<open>Node traffic\<close>

lemma decode_allowed:
  "rec_verdict d = AllowVerdict \<Longrightarrow> dd_verdict (decode_policy_value (encoded revision (d, s)) revision' direction) = AllowVerdict"
  by (simp add: decode_policy_value_def encoded_def encoded_value decode_verdict_def split: option.split prod.split)

lemma allowed_longest:
  assumes "allowed_at es k" "distinct (map entry_key es)" "sel k" "cidr_of k = Ipv6Cidr x 128"
    and "\<And>k'. sel k' \<Longrightarrow> cidr_of k' = Ipv6Cidr x 128 \<Longrightarrow> k' = k"
  shows "\<exists>d s. longest_match cidr_of sel es x = Some (d, s) \<and> rec_verdict d = AllowVerdict"
proof -
  from assms(1) obtain e where e: "e \<in> set es" "entry_key e = k" "rec_verdict (entry_decision e) = AllowVerdict"
    unfolding allowed_at_def rows_map_Some [OF assms(2)] by auto
  have "longest_match cidr_of sel es x = Some (entry_decision e, entry_shadow e)"
  proof (rule longest_match_unique)
    fix b assume b: "b \<in> set es" "sel (entry_key b)" "cidr6_contains (cidr_of (entry_key b)) x"
    have "b = e" if "prefix_len6 (cidr_of (entry_key b)) = 128"
    proof -
      have "cidr_of (entry_key b) = Ipv6Cidr x 128"
        using b(3) that by (cases "cidr_of (entry_key b)") (simp add: host_contains)
      then have "entry_key b = k" using assms(5) b(2) by blast
      then show ?thesis using e(1,2) b(1) assms(2) by (auto simp: distinct_map inj_on_def)
    qed
    moreover have "prefix_len6 (cidr_of (entry_key b)) \<le> 128" using b(3) by (simp add: cidr6_contains_iff)
    moreover have "prefix_len6 (cidr_of (entry_key e)) = 128" by (simp add: e(2) assms(4))
    ultimately show "prefix_len6 (cidr_of (entry_key b)) < prefix_len6 (cidr_of (entry_key e)) \<or> b = e"
      by (metis order_le_less)
  qed (use e(1,2) assms(3,4) in \<open>simp_all add: host_contains\<close>)
  with e(3) show ?thesis by blast
qed

lemma allowed_first:
  assumes "v = map_option (encoded revision) (or_else a b)" "a = Some (d, s)" "rec_verdict d = AllowVerdict"
  shows "dd_verdict (case v of Some w \<Rightarrow> decode_policy_value w revision' direction | None \<Rightarrow> z) = AllowVerdict"
  using assms by (simp add: or_else_def decode_allowed)

lemma node_rows:
  assumes "compile_policy_state state = Ok snap" "published snap maps v6 w6 config" "(n4, n6) \<in> set (node_transports state)"
  obtains d4 s4 d6 s6 x4 t4 x6 t6 where
    "rows_map (dp_ipv4_entries snap) (Ipv4PolicyMapKey n4 0 0 0) = Some (d4, s4)" "rec_verdict d4 = AllowVerdict"
    "ipv6_trie (dp_ipv6_entries snap) n6 0 (0, 0) = Some (d6, s6)" "rec_verdict d6 = AllowVerdict"
    "rows_map (dp_egress_ipv4_entries snap) (EgressIpv4PolicyMapKey 0 n4 0 0) = Some (x4, t4)" "rec_verdict x4 = AllowVerdict"
    "egress_ipv6_trie (dp_egress_ipv6_entries snap) 0 n6 (0, 0) = Some (x6, t6)" "rec_verdict x6 = AllowVerdict"
proof -
  from snapshot_compiled(6) [OF assms(1)] assms(3) have a:
    "allowed_at (dp_ipv4_entries snap) (Ipv4PolicyMapKey n4 0 0 0)" "allowed_at (dp_ipv6_entries snap) (Ipv6PolicyMapKey n6 128 0 0 0)"
    "allowed_at (dp_egress_ipv4_entries snap) (EgressIpv4PolicyMapKey 0 n4 0 0)"
    "allowed_at (dp_egress_ipv6_entries snap) (EgressIpv6PolicyMapKey 0 n6 128 0 0)"
    by (auto simp: node_allowed_def)
  have "distinct (map entry_key (dp_ipv6_entries snap))"
    using ipv6_kind.desired_entries_image(2) published_maps(3) [OF assms(2)] unfolding desired_ipv6_policy_entries_def by blast
  then have v6: "\<exists>d s. ipv6_trie (dp_ipv6_entries snap) n6 0 (0, 0) = Some (d, s) \<and> rec_verdict d = AllowVerdict"
    unfolding ipv6_trie_def by (intro allowed_longest [OF a(2)]) (auto simp: Ipv6PolicyMapKey.expand)
  have "distinct (map entry_key (dp_egress_ipv6_entries snap))"
    using egress_ipv6_kind.desired_entries_image(2) published_maps(5) [OF assms(2)]
    unfolding desired_egress_ipv6_policy_entries_def by blast
  then have "\<exists>d s. egress_ipv6_trie (dp_egress_ipv6_entries snap) 0 n6 (0, 0) = Some (d, s) \<and> rec_verdict d = AllowVerdict"
    unfolding egress_ipv6_trie_def by (intro allowed_longest [OF a(4)]) (auto simp: EgressIpv6PolicyMapKey.expand)
  with a(1,3) v6 that show thesis unfolding allowed_at_def by blast
qed

text \<open>
  C15: node traffic is never dropped by policy.  On maps holding a published snapshot, a packet from or
  to a node's transport address is allowed in both families and directions, for all identities, ports
  and protocols, whatever the policies say.
\<close>

theorem node_traffic_allowed:
  fixes port :: u16
  assumes "compile_policy_state state = Ok snap" and "published snap maps v6 w6 config"
    and "(n4, n6) \<in> set (node_transports state)"
  shows "dd_verdict (lookup_ingress_policy maps (Some (be_bytes 4 n4)) None i j (be_bytes 2 port) proto config) = AllowVerdict \<and>
    dd_verdict (lookup_ingress_policy maps None (Some (be_bytes 16 n6)) i j (be_bytes 2 port) proto config) = AllowVerdict \<and>
    dd_verdict (lookup_egress_policy maps (Some (be_bytes 4 n4)) None i (be_bytes 2 port) proto config) = AllowVerdict \<and>
    dd_verdict (lookup_egress_policy maps None (Some (be_bytes 16 n6)) i (be_bytes 2 port) proto config) = AllowVerdict"
proof -
  obtain d4 s4 d6 s6 x4 t4 x6 t6 where rows:
    "rows_map (dp_ipv4_entries snap) (Ipv4PolicyMapKey n4 0 0 0) = Some (d4, s4)" "rec_verdict d4 = AllowVerdict"
    "ipv6_trie (dp_ipv6_entries snap) n6 0 (0, 0) = Some (d6, s6)" "rec_verdict d6 = AllowVerdict"
    "rows_map (dp_egress_ipv4_entries snap) (EgressIpv4PolicyMapKey 0 n4 0 0) = Some (x4, t4)" "rec_verdict x4 = AllowVerdict"
    "egress_ipv6_trie (dp_egress_ipv6_entries snap) 0 n6 (0, 0) = Some (x6, t6)" "rec_verdict x6 = AllowVerdict"
    by (rule node_rows [OF assms])
  note pub = published_maps [OF assms(2)]
  have "dd_verdict (lookup_ingress_policy maps (Some (be_bytes 4 n4)) None i j (be_bytes 2 port) proto config) = AllowVerdict"
  proof (cases "j = 0")
    case False
    then show ?thesis using pub(2) unfolding lookup_steps(1) [OF False]
      by (blast intro: allowed_first [OF ingress_ipv4_found rows(1,2)])
  qed (simp add: lookup_ingress_policy_def)
  moreover have "dd_verdict (lookup_ingress_policy maps None (Some (be_bytes 16 n6)) i j (be_bytes 2 port) proto config) = AllowVerdict"
  proof (cases "j = 0")
    case False
    then show ?thesis using pub(3,6,7) unfolding lookup_steps(2) [OF False]
      by (blast intro: allowed_first [OF ingress_ipv6_found rows(3,4)])
  qed (simp add: lookup_ingress_policy_def)
  moreover have "dd_verdict (lookup_egress_policy maps (Some (be_bytes 4 n4)) None i (be_bytes 2 port) proto config) = AllowVerdict"
  proof (cases "i = 0")
    case False
    then show ?thesis using pub(4) unfolding lookup_steps(4) [OF False]
      by (blast intro: allowed_first [OF egress_ipv4_found rows(5,6)])
  qed (simp add: lookup_egress_policy_def)
  moreover have "dd_verdict (lookup_egress_policy maps None (Some (be_bytes 16 n6)) i (be_bytes 2 port) proto config) = AllowVerdict"
  proof (cases "i = 0")
    case False
    then show ?thesis using pub(5,8,9) unfolding lookup_steps(5) [OF False]
      by (blast intro: allowed_first [OF egress_ipv6_found rows(7,8)])
  qed (simp add: lookup_egress_policy_def)
  ultimately show ?thesis by blast
qed

theorem node_traffic_allowed_witness:
  "\<exists>snap maps v6 w6 config. compile_policy_state small_cluster = Ok snap \<and> published snap maps v6 w6 config \<and>
     dd_verdict (lookup_ingress_policy maps (Some (be_bytes 4 (40 :: u32))) None 0 2 (be_bytes 2 (80 :: u16)) 6 config) = AllowVerdict"
proof -
  obtain snap maps v6 w6 config where c: "compile_policy_state small_cluster = Ok snap" "direction_scratch maps"
    "active_policy_config maps = Some config" "published snap maps v6 w6 config" by (rule small_cluster_published)
  have "(40, 40) \<in> set (node_transports small_cluster)" by simp
  from c(1,4) node_traffic_allowed [OF c(1,4) this, of 0 2 80 6] show ?thesis by blast
qed

section \<open>Packets\<close>

text \<open>For an IPv4 packet between known pods, the policy decision of the program denies if and only if the
  evaluator denies the flow on ingress or on egress.\<close>

lemma ipv4_packet_enforced:
  fixes state
  defines "eps4 \<equiv> ipv4_endpoints_with_namespace_labels state"
  assumes "compile_policy_state state = Ok snap" and "state_wf state" and "published snap maps v6 w6 config"
    and "active_policy_config maps = Some config" and "direction_scratch maps"
    and "obs_address_family obs = Ipv4" and "take 4 (obs_source_address obs) = be_bytes 4 x"
    and "take 4 (obs_destination_address obs) = be_bytes 4 y" and "obs_destination_port obs = be_bytes 2 port"
    and "obs_protocol obs = protocol_number p" and "src = source_endpoint eps4 x" and "dst = source_endpoint eps4 y"
    and "src \<in> set (endpoints_of state)" and "dst \<in> set (endpoints_of state)"
    and "obs_source_identity obs = ep_identity src" and "obs_destination_identity obs = ep_identity dst"
    and "x \<noteq> 0" and "y \<noteq> 0" and "x \<in> ep4_address ` set eps4" and "x \<notin> host_addresses4 state \<union> node_addresses4 state"
    and "y \<notin> gateway_addresses4 state \<union> node_addresses4 state"
  shows "dd_verdict (lookup_observation_policy maps obs) = DenyVerdict \<longleftrightarrow>
    dec_verdict (evaluate (ingress_of state) (pair_flow src dst (Some x) None p port)) = DenyVerdict \<or>
    dec_verdict (evaluate_for_direction_with_addresses (egress_of state) Egress (pair_flow src dst None None p port)
      \<lparr>dest_ipv4 = Some y, dest_ipv6 = None\<rparr>) = DenyVerdict"
proof -
  let ?d = "evaluate (ingress_of state) (pair_flow src dst (Some x) None p port)"
  let ?e = "evaluate_for_direction_with_addresses (egress_of state) Egress (pair_flow src dst None None p port)
      \<lparr>dest_ipv4 = Some y, dest_ipv6 = None\<rparr>"
  note wf = state_wfD [OF assms(3)] and pub = assms(2,3,4)
  have ids: "ep_identity src \<noteq> 0" "ep_identity dst \<noteq> 0" using wf(7) assms(14,15) by auto
  have rows: "kubernetes_targeted (ingress_of state) dst \<or> x \<in> ep4_address ` set (ipv4_endpoints_with_namespace_labels state) \<union>
      set (block_row_addresses (source_blocks (ingress_of state)))" using assms(20) by (simp add: eps4_def)
  have "lookup_ingress_policy maps (Some (be_bytes 4 x)) None (ep_identity src) (ep_identity dst) (be_bytes 2 port)
      (protocol_number p) config = reported (cfg_revision config) Ingress ?d"
    unfolding reported_def evaluate_ingress lookup_steps(1,3) [OF ids(2)] lookup_steps(3) [OF ids]
      decode_found [OF wf(3) published_identity_value [OF pub assms(14,15), of port p, unfolded evaluate_ingress]]
      decode_found [OF wf(3) published_ipv4_value [OF pub assms(15,18,21) rows, of port p, unfolded evaluate_ingress,
        folded eps4_def, folded assms(12)]]
    using same_provenance [OF assms(3), of src dst None None p port src "Some x" None p port]
    by (simp add: evaluate_ingress)
  moreover have "lookup_egress_policy maps (Some (be_bytes 4 y)) None (ep_identity src) (be_bytes 2 port)
      (protocol_number p) config = reported (cfg_revision config) Egress ?e"
    unfolding reported_def lookup_steps(4) [OF ids(1)]
      decode_found [OF wf(4) published_egress_ipv4_value [OF pub assms(14,19,22), of port p, folded eps4_def, folded assms(13)]] ..
  ultimately show ?thesis
    using assms(5-11,16,17) decisive_denies [OF active_config_revision [OF assms(5)] denied_provenance denied_provenance]
    by (simp add: lookup_observation_policy_def lookup_ipv4_observation_policy_def observation_policy_decision_def
        evaluate_ingress)
qed

text \<open>
  C1: what the controller decides is what packets meet.  From any state the agent reaches without a
  failed rollback, after a synchronization with a new snapshot compiled from the controller's state,
  the traffic-control program denies an IPv4 packet between known pods if and only if the evaluator
  denies its flow on ingress or on egress under the controller's policies.
\<close>

theorem synchronized_packet_enforced:
  fixes state
  defines "eps4 \<equiv> ipv4_endpoints_with_namespace_labels state"
  assumes "kernel_contract os vh vl vc" and "agent_reach os reads vh vl vc True s a"
    and "compile_policy_state state = Ok (snap_policy snapshot)" and "state_wf state" and "snapshot_ok snapshot"
    and "synchronize_policies os (Some snapshot) (s, a) = (Ok (), s', a')"
    and "(snap_source_epoch snapshot, dp_revision (snap_policy snapshot)) \<noteq> (applied_epoch s, applied_policy_revision a)"
    and "attached vh vl vc s' maps" and "direction_scratch maps"
    and "obs_address_family obs = Ipv4" and "take 4 (obs_source_address obs) = be_bytes 4 x"
    and "take 4 (obs_destination_address obs) = be_bytes 4 y" and "obs_destination_port obs = be_bytes 2 port"
    and "obs_protocol obs = protocol_number p" and "src = source_endpoint eps4 x" and "dst = source_endpoint eps4 y"
    and "src \<in> set (endpoints_of state)" and "dst \<in> set (endpoints_of state)"
    and "obs_source_identity obs = ep_identity src" and "obs_destination_identity obs = ep_identity dst"
    and "x \<noteq> 0" and "y \<noteq> 0" and "x \<in> ep4_address ` set eps4" and "x \<notin> host_addresses4 state \<union> node_addresses4 state"
    and "y \<notin> gateway_addresses4 state \<union> node_addresses4 state"
  shows "dd_verdict (lookup_observation_policy maps obs) = DenyVerdict \<longleftrightarrow>
    dec_verdict (evaluate (ingress_of state) (pair_flow src dst (Some x) None p port)) = DenyVerdict \<or>
    dec_verdict (evaluate_for_direction_with_addresses (egress_of state) Egress (pair_flow src dst None None p port)
      \<lparr>dest_ipv4 = Some y, dest_ipv6 = None\<rparr>) = DenyVerdict"
proof -
  have "agent_inv vh vl vc s (applied_policy_revision a)" using reach_inv [OF assms(3,2)] by simp
  from synchronize_published [OF assms(2) this assms(6-9)] obtain config where
    c: "active_policy_config maps = Some config"
      "published (snap_policy snapshot) maps (vl (ipv6_map s')) (vl (egress_ipv6_map s')) config" by blast
  show ?thesis by (rule ipv4_packet_enforced [OF assms(4,5) c(2,1) assms(10-15) assms(16,17) [unfolded eps4_def]
      assms(18-23) assms(24) [unfolded eps4_def] assms(25,26)])
qed

theorem synchronized_packet_enforced_witness:
  "\<exists>snap s' a'. compile_policy_state small_cluster = Ok snap \<and>
     synchronize_policies flaky_kernel (Some (small_snapshot snap)) (empty_synchronizer [], new_agent) = (Ok (), s', a') \<and>
     dd_verdict (lookup_observation_policy (list_maps s') (small_packet 80)) = DenyVerdict \<and>
     dd_verdict (lookup_observation_policy (list_maps s') (small_packet 443)) \<noteq> DenyVerdict"
proof -
  obtain snap s' a' where run: "compile_policy_state small_cluster = Ok snap" "snapshot_ok (small_snapshot snap)"
    "synchronize_policies flaky_kernel (Some (small_snapshot snap)) (empty_synchronizer [], new_agent) = (Ok (), s', a')"
    "attached scheduled_view scheduled_view (\<lambda>c. c) s' (list_maps s')" "direction_scratch (list_maps s')"
    by (rule small_cluster_run)
  have new: "(snap_source_epoch (small_snapshot snap), dp_revision (snap_policy (small_snapshot snap))) \<noteq>
      (applied_epoch (empty_synchronizer []), applied_policy_revision new_agent)"
    by (simp add: small_snapshot_def empty_synchronizer_def)
  have compiled: "compile_policy_state small_cluster = Ok (snap_policy (small_snapshot snap))"
    using run(1) by (simp add: small_snapshot_def)
  note enforced = synchronized_packet_enforced [OF flaky_kernel_contract empty_reach compiled small_cluster_wf run(2,3) new
      run(4,5), of "small_packet port" 10 20 port Tcp "small_endpoint 1" "small_endpoint 2" for port]
  have "dd_verdict (lookup_observation_policy (list_maps s') (small_packet port)) = DenyVerdict \<longleftrightarrow>
    dec_verdict (evaluate (ingress_of small_cluster) (pair_flow (small_endpoint 1) (small_endpoint 2) (Some 10) None Tcp port)) = DenyVerdict \<or>
    dec_verdict (evaluate_for_direction_with_addresses (egress_of small_cluster) Egress
      (pair_flow (small_endpoint 1) (small_endpoint 2) None None Tcp port) \<lparr>dest_ipv4 = Some 20, dest_ipv6 = None\<rparr>) = DenyVerdict" for port
    by (rule enforced) (simp_all only: small_cluster_known small_cluster_endpoints(2,3) small_packet_fields not_False_eq_True)
  from this [of 80] this [of 443] run(1,3) show ?thesis
    unfolding small_cluster_denied small_cluster_allowed by blast
qed

end
