(* ===== verification/Identity_Registry.thy ===== *)
theory Identity_Registry
  imports Policy_Lowering Ipam
begin

text \<open>
  The identity registry of \<^verbatim>\<open>crates/unf-state/src/lib.rs\<close>: the canonical key and the numeric identifier
  of a pod's identity, admission and removal of pods with their collision checks, the index from
  addresses to identities and the snapshot sent to the agents.  Strings are their UTF-8 bytes.
\<close>

section \<open>Addresses\<close>

text \<open>The order of the standard library: IPv4 addresses first, then by value.\<close>

instantiation IpAddr :: linorder
begin

definition less_eq_IpAddr :: "IpAddr \<Rightarrow> IpAddr \<Rightarrow> bool" where
  "less_eq_IpAddr a b = (case a of V4 x \<Rightarrow> (case b of V4 y \<Rightarrow> x \<le> y | V6 _ \<Rightarrow> True)
     | V6 x \<Rightarrow> (case b of V4 _ \<Rightarrow> False | V6 y \<Rightarrow> x \<le> y))"

definition less_IpAddr :: "IpAddr \<Rightarrow> IpAddr \<Rightarrow> bool" where
  "less_IpAddr a b = (case a of V4 x \<Rightarrow> (case b of V4 y \<Rightarrow> x < y | V6 _ \<Rightarrow> True)
     | V6 x \<Rightarrow> (case b of V4 _ \<Rightarrow> False | V6 y \<Rightarrow> x < y))"

instance
  by standard (auto simp: less_eq_IpAddr_def less_IpAddr_def split: IpAddr.splits)

end

section \<open>Identities\<close>

record NetworkIdentity =
  ni_id :: u32
  ni_cluster :: string
  ni_namespace :: string
  ni_workload :: string
  ni_service_account :: string
  ni_application :: "string option"
  ni_labels :: labels

record IdentityEntry =
  entry_canonical_key :: string
  entry_identity :: NetworkIdentity
  entry_pod_references :: nat

record PodIdentityBinding =
  binding_identity_id :: u32
  binding_addresses :: "IpAddr list"

record IdentityRegistry =
  reg_revision :: u64
  reg_identities :: "(u32, IdentityEntry) btree"
  reg_pods :: "(string, PodIdentityBinding) btree"
  reg_addresses :: "(IpAddr, string \<times> u32) btree"

datatype IdentityAdmissionError =
    ReservedIdentityId
  | IdentityCollision u32 string string
  | AddressConflict IpAddr string string

definition revision_next :: "u64 \<Rightarrow> u64" where
  "revision_next revision = (if revision = - 1 then revision else revision + 1)"

text \<open>FNV-1a over the bytes of the key, avoiding zero.\<close>

definition fnv_step :: "u32 \<Rightarrow> char \<Rightarrow> u32" where
  "fnv_step hash byte = (hash XOR of_nat (of_char byte)) * 0x01000193"

definition provisional_identity_id :: "string \<Rightarrow> u32" where
  "provisional_identity_id identity_key =
     (let hash = foldl fnv_step 0x811c9dc5 identity_key in if hash = 0 then 1 else hash)"

section \<open>Canonical keys\<close>

definition append_component :: "string \<Rightarrow> string \<Rightarrow> string" where
  "append_component key value = key @ ''|'' @ decimal (length value) @ '':'' @ value"

definition canonical_identity_key ::
  "string \<Rightarrow> string \<Rightarrow> string \<Rightarrow> string \<Rightarrow> labels \<Rightarrow> (NamedPort, u16) btree \<Rightarrow> string" where
  "canonical_identity_key cluster namespace service_account workload labels named_ports =
     (let key = ''v2'';
          key = append_component key cluster;
          key = append_component key namespace;
          key = append_component key service_account;
          key = append_component key workload;
          key = append_component key (decimal (length labels));
          key = foldl (\<lambda>key (label, value). append_component (append_component key label) value) key labels;
          key = append_component key (decimal (length named_ports));
          key = foldl (\<lambda>key (named_port, number).
            append_component (append_component (append_component key (port_name named_port))
              (decimal (unat (protocol_number (port_protocol named_port))))) (decimal (unat number))) key named_ports
      in key)"

section \<open>Admission and removal\<close>

definition remove_pod_binding :: "string \<Rightarrow> IdentityRegistry \<Rightarrow> bool \<times> IdentityRegistry" where
  "remove_pod_binding pod_key r = (case bt_get (reg_pods r) pod_key of None \<Rightarrow> (False, r)
   | Some binding \<Rightarrow>
       let i = binding_identity_id binding;
           r = r\<lparr>reg_pods := bt_remove pod_key (reg_pods r)\<rparr>;
           r = r\<lparr>reg_addresses := foldl (\<lambda>m a. bt_remove a m) (reg_addresses r) (binding_addresses binding)\<rparr>
       in (True, case bt_get (reg_identities r) i of None \<Rightarrow> r
          | Some entry \<Rightarrow>
              let references = entry_pod_references entry - 1
              in if references = 0 then r\<lparr>reg_identities := bt_remove i (reg_identities r)\<rparr>
                 else r\<lparr>reg_identities := bt_insert i (entry\<lparr>entry_pod_references := references\<rparr>) (reg_identities r)\<rparr>))"

definition check_addresses ::
  "string \<Rightarrow> IdentityRegistry \<Rightarrow> IpAddr list \<Rightarrow> (IdentityAdmissionError, unit) res" where
  "check_addresses pod_key r = try_fold (\<lambda>_ address. case bt_get (reg_addresses r) address of
       Some (existing_pod, _) \<Rightarrow>
         if existing_pod \<noteq> pod_key then Err (AddressConflict address existing_pod pod_key) else Ok ()
     | None \<Rightarrow> Ok ()) ()"

definition admit_pod ::
  "string \<Rightarrow> string \<Rightarrow> NetworkIdentity \<Rightarrow> IpAddr list \<Rightarrow> IdentityRegistry \<Rightarrow>
   (IdentityAdmissionError, IdentityRegistry) res" where
  "admit_pod pod_key canonical_key identity addresses previous =
     (if ni_id identity = 0 then Err ReservedIdentityId else
      rbind (case bt_get (reg_identities previous) (ni_id identity) of
          Some existing \<Rightarrow> if entry_canonical_key existing \<noteq> canonical_key
            then Err (IdentityCollision (ni_id identity) (entry_canonical_key existing) canonical_key) else Ok ()
        | None \<Rightarrow> Ok ()) (\<lambda>_.
      let addresses = btree_set addresses in
      rbind (check_addresses pod_key previous addresses) (\<lambda>_.
      let r = snd (remove_pod_binding pod_key previous);
          r = r\<lparr>reg_identities := bt_insert (ni_id identity) (case bt_get (reg_identities r) (ni_id identity) of
              Some entry \<Rightarrow> entry\<lparr>entry_identity := identity, entry_pod_references := entry_pod_references entry + 1\<rparr>
            | None \<Rightarrow> \<lparr>entry_canonical_key = canonical_key, entry_identity = identity, entry_pod_references = 1\<rparr>)
            (reg_identities r)\<rparr>;
          r = r\<lparr>reg_addresses := foldl (\<lambda>m a. bt_insert a (pod_key, ni_id identity) m) (reg_addresses r) addresses\<rparr>;
          r = r\<lparr>reg_pods := bt_insert pod_key
              \<lparr>binding_identity_id = ni_id identity, binding_addresses = addresses\<rparr> (reg_pods r)\<rparr>
      in Ok (if reg_identities r \<noteq> reg_identities previous \<or> reg_pods r \<noteq> reg_pods previous \<or>
               reg_addresses r \<noteq> reg_addresses previous
             then r\<lparr>reg_revision := revision_next (reg_revision previous)\<rparr> else r))))"

definition registry_remove_pod :: "string \<Rightarrow> IdentityRegistry \<Rightarrow> bool \<times> IdentityRegistry" where
  "registry_remove_pod pod_key r =
     (let (removed, r) = remove_pod_binding pod_key r
      in (removed, if removed then r\<lparr>reg_revision := revision_next (reg_revision r)\<rparr> else r))"

definition registry_clear :: "IdentityRegistry \<Rightarrow> IdentityRegistry" where
  "registry_clear r =
     (if reg_pods r = [] \<and> reg_identities r = [] \<and> reg_addresses r = [] then r
      else r\<lparr>reg_pods := [], reg_identities := [], reg_addresses := [], reg_revision := revision_next (reg_revision r)\<rparr>)"

definition empty_registry :: IdentityRegistry where
  "empty_registry = \<lparr>reg_revision = 0, reg_identities = [], reg_pods = [], reg_addresses = []\<rparr>"

section \<open>Queries\<close>

definition identity_for_ip :: "IdentityRegistry \<Rightarrow> IpAddr \<Rightarrow> u32 option" where
  "identity_for_ip r address = map_option snd (bt_get (reg_addresses r) address)"

definition registry_identity :: "IdentityRegistry \<Rightarrow> u32 \<Rightarrow> NetworkIdentity option" where
  "registry_identity r i = map_option entry_identity (bt_get (reg_identities r) i)"

definition identity_count :: "IdentityRegistry \<Rightarrow> nat" where
  "identity_count r = length (reg_identities r)"

definition address_count :: "IdentityRegistry \<Rightarrow> nat" where
  "address_count r = length (reg_addresses r)"

record 'a IdentityMapping =
  map_address :: 'a
  map_identity_id :: u32

record IdentityStateSnapshot =
  ids_schema_version :: u16
  ids_source_epoch :: u64
  ids_revision :: u64
  ids_ipv4_entries :: "u32 IdentityMapping list"
  ids_ipv6_entries :: "u128 IdentityMapping list"

definition IDENTITY_SNAPSHOT_SCHEMA_VERSION :: u16 where
  "IDENTITY_SNAPSHOT_SCHEMA_VERSION = 2"

definition identity_snapshot :: "u64 \<Rightarrow> IdentityRegistry \<Rightarrow> IdentityStateSnapshot" where
  "identity_snapshot source_epoch r =
     \<lparr>ids_schema_version = IDENTITY_SNAPSHOT_SCHEMA_VERSION, ids_source_epoch = source_epoch,
      ids_revision = reg_revision r,
      ids_ipv4_entries = List.map_filter (\<lambda>(address, (_, identity_id)). case address of
          V4 address \<Rightarrow> Some \<lparr>map_address = address, map_identity_id = identity_id\<rparr> | V6 _ \<Rightarrow> None) (reg_addresses r),
      ids_ipv6_entries = List.map_filter (\<lambda>(address, (_, identity_id)). case address of
          V4 _ \<Rightarrow> None | V6 address \<Rightarrow> Some \<lparr>map_address = address, map_identity_id = identity_id\<rparr>) (reg_addresses r)\<rparr>"

section \<open>Keys are unambiguous\<close>

lemma decimal_inject [simp]: "decimal m = decimal n \<longleftrightarrow> m = n"
  by (metis decimal_digits(3))

lemma colon_not_decimal: "CHR '':'' \<notin> set (decimal n)"
  using decimal_digits(1) [of n] by (auto simp: list_all_iff is_digit_def digit_value_def)

lemma split_at_mark:
  assumes "xs @ c # ys = zs @ c # ws" "c \<notin> set xs" "c \<notin> set zs"
  shows "xs = zs \<and> ys = ws"
  using assms
proof (induction xs arbitrary: zs)
  case Nil
  then show ?case by (cases zs) auto
next
  case (Cons x xs)
  then show ?case by (cases zs) auto
qed

definition component :: "string \<Rightarrow> string" where
  "component value = ''|'' @ decimal (length value) @ '':'' @ value"

lemma append_component [simp]: "append_component key value = key @ component value"
  by (simp add: append_component_def component_def)

lemma component_inject: "component v @ xs = component w @ ys \<longleftrightarrow> v = w \<and> xs = ys"
proof
  assume "component v @ xs = component w @ ys"
  then have eq: "decimal (length v) @ CHR '':'' # (v @ xs) = decimal (length w) @ CHR '':'' # (w @ ys)"
    by (simp add: component_def)
  from split_at_mark [OF eq colon_not_decimal colon_not_decimal]
  show "v = w \<and> xs = ys" by (auto simp: append_eq_append_conv)
qed simp

lemma components_inject: "concat (map component vs) = concat (map component ws) \<longleftrightarrow> vs = ws"
proof (induction vs arbitrary: ws)
  case Nil
  then show ?case by (cases ws) (simp_all add: component_def)
next
  case (Cons v vs)
  then show ?case by (cases ws) (simp_all add: component_inject, simp add: component_def)
qed

definition key_components ::
  "string \<Rightarrow> string \<Rightarrow> string \<Rightarrow> string \<Rightarrow> labels \<Rightarrow> (NamedPort, u16) btree \<Rightarrow> string list" where
  "key_components cluster namespace service_account workload labels named_ports =
     [cluster, namespace, service_account, workload, decimal (length labels)] @
     concat (map (\<lambda>(label, value). [label, value]) labels) @ [decimal (length named_ports)] @
     concat (map (\<lambda>(named_port, number). [port_name named_port,
       decimal (unat (protocol_number (port_protocol named_port))), decimal (unat number)]) named_ports)"

lemma canonical_key_components:
  "canonical_identity_key cluster namespace service_account workload labels named_ports =
     ''v2'' @ concat (map component (key_components cluster namespace service_account workload labels named_ports))"
proof -
  have labels: "foldl (\<lambda>key (label, value). append_component (append_component key label) value) key labels =
      key @ concat (map component (concat (map (\<lambda>(label, value). [label, value]) labels)))" for key
    by (induction labels arbitrary: key) (auto split: prod.splits)
  have ports: "foldl (\<lambda>key (named_port, number). append_component (append_component (append_component key
        (port_name named_port)) (decimal (unat (protocol_number (port_protocol named_port))))) (decimal (unat number))) key named_ports =
      key @ concat (map component (concat (map (\<lambda>(named_port, number). [port_name named_port,
        decimal (unat (protocol_number (port_protocol named_port))), decimal (unat number)]) named_ports)))" for key
    by (induction named_ports arbitrary: key) (auto split: prod.splits)
  show ?thesis unfolding canonical_identity_key_def Let_def labels ports key_components_def by simp
qed

lemma pieces_inject:
  assumes "length xs = length ys" "concat (map f xs) @ rs = concat (map f ys) @ ts"
    and "\<And>x y us vs. f x @ us = f y @ vs \<Longrightarrow> x = y \<and> us = vs"
  shows "xs = ys \<and> rs = ts"
  using assms(1,2)
proof (induction xs ys rule: list_induct2)
  case (Cons x xs y ys)
  from Cons.prems have "f x @ (concat (map f xs) @ rs) = f y @ (concat (map f ys) @ ts)" by simp
  from assms(3) [OF this] Cons.IH show ?case by simp
qed simp

lemma key_components_inject:
  assumes "key_components cluster namespace service_account workload labels named_ports =
     key_components cluster' namespace' service_account' workload' labels' named_ports'"
  shows "(cluster, namespace, service_account, workload, labels, named_ports) =
     (cluster', namespace', service_account', workload', labels', named_ports')"
proof -
  let ?port = "\<lambda>(named_port, number :: u16). [port_name named_port,
    decimal (unat (protocol_number (port_protocol named_port))), decimal (unat number)]"
  let ?label = "\<lambda>(label, value). [label :: string, value]"
  from assms have head: "cluster = cluster'" "namespace = namespace'" "service_account = service_account'" "workload = workload'"
    and n: "length labels = length labels'"
    and tail: "concat (map ?label labels) @ decimal (length named_ports) # concat (map ?port named_ports) =
      concat (map ?label labels') @ decimal (length named_ports') # concat (map ?port named_ports')"
    by (simp_all add: key_components_def)
  have "labels = labels' \<and> decimal (length named_ports) # concat (map ?port named_ports) =
      decimal (length named_ports') # concat (map ?port named_ports')"
    by (rule pieces_inject [OF n tail]) (auto split: prod.splits)
  moreover from this have "named_ports = named_ports' \<and> [] = ([] :: string list)"
    by (intro pieces_inject [where f = ?port])
      (auto split: prod.splits simp: NamedPort.expand word_unat_eq_iff [symmetric])
  ultimately show ?thesis using head by simp
qed

text \<open>
  C30: canonical identity keys are unambiguous.  Two pods have the same canonical key exactly when they
  agree on cluster, namespace, service account, workload, labels and named ports, whatever bytes these
  contain, so the collision check of the registry compares all of them.
\<close>

theorem canonical_key_injective:
  "canonical_identity_key cluster namespace service_account workload labels named_ports =
     canonical_identity_key cluster' namespace' service_account' workload' labels' named_ports' \<longleftrightarrow>
   (cluster, namespace, service_account, workload, labels, named_ports) =
     (cluster', namespace', service_account', workload', labels', named_ports')"
  using key_components_inject by (auto simp: canonical_key_components components_inject)

section \<open>The registry's invariant\<close>

lemma foldl_bt_remove:
  "bt_get (foldl (\<lambda>m a. bt_remove a m) m as) = (\<lambda>a. if a \<in> set as then None else bt_get m a)"
  "bt_ok m \<Longrightarrow> bt_ok (foldl (\<lambda>m a. bt_remove a m) m as)"
  by (induction as arbitrary: m) (auto simp: bt_get_remove btm.invar_remove)

lemma foldl_bt_insert:
  "bt_ok m \<Longrightarrow> bt_get (foldl (\<lambda>m a. bt_insert a v m) m as) = (\<lambda>a. if a \<in> set as then Some v else bt_get m a)"
  "bt_ok m \<Longrightarrow> bt_ok (foldl (\<lambda>m a. bt_insert a v m) m as)"
  by (induction as arbitrary: m) (auto simp: bt_get_insert bt_ok_insert)

text \<open>What the registry stands for: each admitted pod with its identity and addresses.\<close>

definition bindings :: "IdentityRegistry \<Rightarrow> string \<Rightarrow> (u32 \<times> IpAddr set) option" where
  "bindings r p = map_option (\<lambda>b. (binding_identity_id b, set (binding_addresses b))) (bt_get (reg_pods r) p)"

definition holders :: "IdentityRegistry \<Rightarrow> u32 \<Rightarrow> string set" where
  "holders r i = {p. \<exists>as. bindings r p = Some (i, as)}"

definition registry_ok :: "IdentityRegistry \<Rightarrow> bool" where
  "registry_ok r \<longleftrightarrow> bt_ok (reg_identities r) \<and> bt_ok (reg_pods r) \<and> bt_ok (reg_addresses r) \<and>
     (\<forall>a p i. bt_get (reg_addresses r) a = Some (p, i) \<longleftrightarrow> (\<exists>as. bindings r p = Some (i, as) \<and> a \<in> as)) \<and>
     (\<forall>i. bt_get (reg_identities r) i = None \<longleftrightarrow> holders r i = {}) \<and>
     (\<forall>i e. bt_get (reg_identities r) i = Some e \<longrightarrow>
        entry_pod_references e = card (holders r i) \<and> ni_id (entry_identity e) = i \<and> i \<noteq> 0)"

definition canonical_of :: "IdentityRegistry \<Rightarrow> u32 \<Rightarrow> string option" where
  "canonical_of r i = map_option entry_canonical_key (bt_get (reg_identities r) i)"

lemma finite_holders [simp]: "finite (holders r i)"
proof -
  have "holders r i \<subseteq> fst ` set (reg_pods r)"
    by (auto simp: holders_def bindings_def) (metis bt_get_eq_None option.distinct(1))
  then show ?thesis by (rule finite_subset) simp
qed

lemma registry_ok_empty: "registry_ok empty_registry"
  by (simp add: registry_ok_def empty_registry_def bindings_def holders_def bt_get_def)

lemma registry_okD:
  assumes "registry_ok r"
  shows "bt_ok (reg_identities r)" "bt_ok (reg_pods r)" "bt_ok (reg_addresses r)"
    and "bt_get (reg_addresses r) a = Some (p, i) \<longleftrightarrow> (\<exists>as. bindings r p = Some (i, as) \<and> a \<in> as)"
    and "bt_get (reg_identities r) i = None \<longleftrightarrow> holders r i = {}"
    and "bt_get (reg_identities r) i = Some e \<Longrightarrow> entry_pod_references e = card (holders r i) \<and> ni_id (entry_identity e) = i \<and> i \<noteq> 0"
  using assms unfolding registry_ok_def by blast+

lemma remove_pod_binding_Some:
  assumes "bt_get (reg_pods r) p = Some b" "bt_get (reg_identities r) (binding_identity_id b) = Some e"
  shows "remove_pod_binding p r = (True, r\<lparr>reg_pods := bt_remove p (reg_pods r),
    reg_addresses := foldl (\<lambda>m a. bt_remove a m) (reg_addresses r) (binding_addresses b),
    reg_identities := (if entry_pod_references e - 1 = 0 then bt_remove (binding_identity_id b) (reg_identities r)
      else bt_insert (binding_identity_id b) (e\<lparr>entry_pod_references := entry_pod_references e - 1\<rparr>) (reg_identities r))\<rparr>)"
  using assms by (simp add: remove_pod_binding_def Let_def)

lemma holders_remove: "bindings r' = (bindings r)(p := None) \<Longrightarrow> holders r' i = holders r i - {p}"
  by (auto simp: holders_def)

lemma remove_binding:
  assumes "registry_ok r" "remove_pod_binding p r = (removed, r')"
  shows "registry_ok r' \<and> bindings r' = (bindings r)(p := None) \<and> reg_revision r' = reg_revision r \<and>
    (removed \<longleftrightarrow> bindings r p \<noteq> None) \<and> (\<forall>i. holders r i - {p} \<noteq> {} \<longrightarrow> canonical_of r' i = canonical_of r i)"
proof (cases "bt_get (reg_pods r) p")
  case None
  then show ?thesis using assms by (auto simp: remove_pod_binding_def bindings_def fun_eq_iff)
next
  case (Some b)
  let ?i = "binding_identity_id b"
  note ok = registry_okD [OF assms(1)]
  have p: "p \<in> holders r ?i" using Some by (simp add: holders_def bindings_def)
  then obtain e where e: "bt_get (reg_identities r) ?i = Some e" using ok(5) [of ?i] by fastforce
  note refs = ok(6) [OF e]
  have count: "entry_pod_references e - 1 = card (holders r ?i - {p})"
    "card (holders r ?i - {p}) = 0 \<longleftrightarrow> holders r ?i - {p} = {}"
    using refs card_Diff_singleton [OF p] card_0_eq [of "holders r ?i - {p}"] by (simp_all del: card_Diff_insert card_Diff_singleton)
  from assms(2) have r': "removed" "r' = r\<lparr>reg_pods := bt_remove p (reg_pods r),
      reg_addresses := foldl (\<lambda>m a. bt_remove a m) (reg_addresses r) (binding_addresses b),
      reg_identities := (if holders r ?i - {p} = {} then bt_remove ?i (reg_identities r)
        else bt_insert ?i (e\<lparr>entry_pod_references := card (holders r ?i - {p})\<rparr>) (reg_identities r))\<rparr>"
    unfolding remove_pod_binding_Some [OF Some e] count by simp_all
  have b: "bindings r' = (bindings r)(p := None)" by (auto simp: bindings_def r'(2) bt_get_remove fun_eq_iff)
  have addr: "bt_get (reg_addresses r') a = (if a \<in> set (binding_addresses b) then None else bt_get (reg_addresses r) a)" for a
    by (simp add: r'(2) foldl_bt_remove)
  have ids: "bt_get (reg_identities r') j = (if j = ?i then if holders r ?i - {p} = {} then None
      else Some (e\<lparr>entry_pod_references := card (holders r ?i - {p})\<rparr>) else bt_get (reg_identities r) j)" for j
    using ok(1) by (simp add: r'(2) bt_get_remove bt_get_insert)
  have owner: "bt_get (reg_addresses r) a = Some (p, j) \<longleftrightarrow> j = ?i \<and> a \<in> set (binding_addresses b)" for a j
    using ok(4) [of a p j] Some by (auto simp: bindings_def)
  have index: "bt_get (reg_addresses r') a = Some (q, j) \<longleftrightarrow> (\<exists>as. bindings r' q = Some (j, as) \<and> a \<in> as)" for a q j
  proof (cases "q = p")
    case True
    then show ?thesis using owner [of a j] by (auto simp: addr b)
  next
    case False
    then show ?thesis using ok(4) [of a q j] owner [of a ?i] by (auto simp: addr b)
  qed
  have others: "holders r j - {p} = holders r j" if "j \<noteq> ?i" for j using that Some by (auto simp: holders_def bindings_def)
  have "registry_ok r'" unfolding registry_ok_def
  proof (intro conjI allI impI)
    show "bt_ok (reg_identities r')" "bt_ok (reg_pods r')" "bt_ok (reg_addresses r')"
      using ok(1-3) by (simp_all add: r'(2) btm.invar_remove bt_ok_insert foldl_bt_remove)
    fix j
    show "(bt_get (reg_identities r') j = None) = (holders r' j = {})"
      using ok(5) [of j] others [of j] by (cases "j = ?i") (simp_all add: ids holders_remove [OF b])
    fix d assume d: "bt_get (reg_identities r') j = Some d"
    show "entry_pod_references d = card (holders r' j)" "ni_id (entry_identity d) = j" "j \<noteq> 0"
      using d ok(6) [of j d] refs others [of j] by (auto simp: ids holders_remove [OF b] split: if_splits)
  qed (rule index)
  moreover have "canonical_of r' j = canonical_of r j" if "holders r j - {p} \<noteq> {}" for j
    using that e by (auto simp: canonical_of_def ids)
  ultimately show ?thesis using b r' Some by (simp add: bindings_def)
qed

lemma check_addresses_Ok:
  "check_addresses p r as = Ok () \<longleftrightarrow> (\<forall>a \<in> set as. \<forall>q i. bt_get (reg_addresses r) a = Some (q, i) \<longrightarrow> q = p)"
  by (induction as) (auto simp: check_addresses_def res_simps split: option.splits if_splits)

text \<open>The registry after an admission, before its revision is set.\<close>

definition admitted :: "string \<Rightarrow> string \<Rightarrow> NetworkIdentity \<Rightarrow> IpAddr list \<Rightarrow> IdentityRegistry \<Rightarrow> IdentityRegistry" where
  "admitted pod_key canonical_key identity addresses r = r\<lparr>
     reg_identities := bt_insert (ni_id identity) (case bt_get (reg_identities r) (ni_id identity) of
         Some entry \<Rightarrow> entry\<lparr>entry_identity := identity, entry_pod_references := entry_pod_references entry + 1\<rparr>
       | None \<Rightarrow> \<lparr>entry_canonical_key = canonical_key, entry_identity = identity, entry_pod_references = 1\<rparr>) (reg_identities r),
     reg_addresses := foldl (\<lambda>m a. bt_insert a (pod_key, ni_id identity) m) (reg_addresses r) addresses,
     reg_pods := bt_insert pod_key \<lparr>binding_identity_id = ni_id identity, binding_addresses = addresses\<rparr> (reg_pods r)\<rparr>"

lemma admit_pod_cases:
  "admit_pod p key identity as r = Ok r' \<longleftrightarrow>
     ni_id identity \<noteq> 0 \<and> canonical_of r (ni_id identity) \<in> {None, Some key} \<and>
     (\<forall>a \<in> set as. \<forall>q i. bt_get (reg_addresses r) a = Some (q, i) \<longrightarrow> q = p) \<and>
     (let t = admitted p key identity (btree_set as) (snd (remove_pod_binding p r))
      in r' = (if reg_identities t \<noteq> reg_identities r \<or> reg_pods t \<noteq> reg_pods r \<or> reg_addresses t \<noteq> reg_addresses r
               then t\<lparr>reg_revision := revision_next (reg_revision r)\<rparr> else t))"
proof -
  have checks: "rbind (check_addresses p r (btree_set as)) f = Ok r' \<longleftrightarrow>
      (\<forall>a \<in> set as. \<forall>q i. bt_get (reg_addresses r) a = Some (q, i) \<longrightarrow> q = p) \<and> f () = Ok r'" for f
    using check_addresses_Ok [of p r "btree_set as"] by (cases "check_addresses p r (btree_set as)") auto
  show ?thesis
    by (auto simp: admit_pod_def canonical_of_def checks Let_def admitted_def split: option.splits)
qed

lemma admitted_ok:
  assumes "registry_ok r" "bindings r p = None" "ni_id identity \<noteq> 0"
    and "\<forall>a \<in> set as. bt_get (reg_addresses r) a = None"
    and "r' = admitted p key identity as r"
  shows "registry_ok r'" "bindings r' = (bindings r)(p \<mapsto> (ni_id identity, set as))"
    and "canonical_of r' = (canonical_of r)(ni_id identity \<mapsto>
      (case canonical_of r (ni_id identity) of Some k \<Rightarrow> k | None \<Rightarrow> key))"
proof -
  let ?i = "ni_id identity"
  note ok = registry_okD [OF assms(1)]
  show b: "bindings r' = (bindings r)(p \<mapsto> (?i, set as))"
    using ok(2) by (auto simp: bindings_def assms(5) admitted_def bt_get_insert fun_eq_iff)
  have h: "holders r' j = (if j = ?i then insert p (holders r j) else holders r j)" for j
    using assms(2) by (auto simp: holders_def b)
  have fresh: "p \<notin> holders r j" for j using assms(2) by (simp add: holders_def)
  have addr: "bt_get (reg_addresses r') a = (if a \<in> set as then Some (p, ?i) else bt_get (reg_addresses r) a)" for a
    using ok(3) by (simp add: assms(5) admitted_def foldl_bt_insert)
  have ids: "bt_get (reg_identities r') j = (if j = ?i then Some (case bt_get (reg_identities r) ?i of
         Some entry \<Rightarrow> entry\<lparr>entry_identity := identity, entry_pod_references := entry_pod_references entry + 1\<rparr>
       | None \<Rightarrow> \<lparr>entry_canonical_key = key, entry_identity = identity, entry_pod_references = 1\<rparr>)
      else bt_get (reg_identities r) j)" for j
    using ok(1) by (simp add: assms(5) admitted_def bt_get_insert)
  show "canonical_of r' = (canonical_of r)(?i \<mapsto> (case canonical_of r ?i of Some k \<Rightarrow> k | None \<Rightarrow> key))"
    by (auto simp: canonical_of_def ids fun_eq_iff split: option.split)
  have index: "bt_get (reg_addresses r') a = Some (q, j) \<longleftrightarrow> (\<exists>xs. bindings r' q = Some (j, xs) \<and> a \<in> xs)" for a q j
    using ok(4) [of a q j] assms(2,4) by (auto simp: addr b)
  show "registry_ok r'" unfolding registry_ok_def
  proof (intro conjI allI impI)
    show "bt_ok (reg_identities r')" "bt_ok (reg_pods r')" "bt_ok (reg_addresses r')"
      using ok(1-3) by (simp_all add: assms(5) admitted_def bt_ok_insert foldl_bt_insert)
    fix j
    show "(bt_get (reg_identities r') j = None) = (holders r' j = {})"
      using ok(5) [of j] by (auto simp: ids h)
    fix d assume d: "bt_get (reg_identities r') j = Some d"
    show "entry_pod_references d = card (holders r' j)" "ni_id (entry_identity d) = j" "j \<noteq> 0"
      using d ok(6) [of j] ok(5) [of j] fresh assms(3) by (auto simp: ids h split: if_splits option.splits)
  qed (rule index)
qed

lemma registry_ok_revision [simp]: "registry_ok (r\<lparr>reg_revision := n\<rparr>) = registry_ok r"
  "bindings (r\<lparr>reg_revision := n\<rparr>) = bindings r" "canonical_of (r\<lparr>reg_revision := n\<rparr>) = canonical_of r"
  "holders (r\<lparr>reg_revision := n\<rparr>) = holders r"
  by (simp_all add: registry_ok_def holders_def bindings_def canonical_of_def fun_eq_iff)

lemma admit_ok:
  assumes "registry_ok r" "admit_pod p key identity as r = Ok r'"
  shows "registry_ok r'" "bindings r' = (bindings r)(p \<mapsto> (ni_id identity, set as))"
    and "canonical_of r' (ni_id identity) = Some key"
    and "\<And>i. holders r i - {p} \<noteq> {} \<Longrightarrow> canonical_of r' i = canonical_of r i"
proof -
  obtain removed t where t: "remove_pod_binding p r = (removed, t)" by fastforce
  note rem = remove_binding [OF assms(1) t]
  have c: "ni_id identity \<noteq> 0" "canonical_of r (ni_id identity) \<in> {None, Some key}"
    "\<forall>a \<in> set as. \<forall>q i. bt_get (reg_addresses r) a = Some (q, i) \<longrightarrow> q = p"
    and r': "\<exists>n. r' = (admitted p key identity (btree_set as) t)\<lparr>reg_revision := n\<rparr>"
    using assms(2) [unfolded admit_pod_cases] t
    by (auto simp: Let_def split: if_splits intro: exI [of _ "reg_revision (admitted p key identity (btree_set as) t)"])
  have free: "\<forall>a \<in> set (btree_set as). bt_get (reg_addresses t) a = None"
  proof (rule ccontr)
    assume "\<not> ?thesis"
    then obtain a q i where a: "a \<in> set as" "bt_get (reg_addresses t) a = Some (q, i)" by (auto simp del: not_None_eq)
    then obtain xs where "bindings t q = Some (i, xs)" "a \<in> xs" using registry_okD(4) [of t a q i] rem by blast
    then have "q \<noteq> p" "bt_get (reg_addresses r) a = Some (q, i)"
      using rem registry_okD(4) [OF assms(1), of a q i] by (auto split: if_splits)
    then show False using c(3) a(1) by blast
  qed
  have t_ok: "registry_ok t" "bindings t p = None" using rem by simp_all
  note adm = admitted_ok [OF t_ok c(1) free refl, of key]
  show "registry_ok r'" "bindings r' = (bindings r)(p \<mapsto> (ni_id identity, set as))"
    using adm(1,2) r' rem by auto
  have old: "canonical_of t (ni_id identity) \<in> {None, Some key}"
  proof (cases "holders r (ni_id identity) - {p} = {}")
    case True
    then have "holders t (ni_id identity) = {}" using holders_remove [of t r p] rem by simp
    then show ?thesis using registry_okD(5) [OF t_ok(1), of "ni_id identity"] by (simp add: canonical_of_def)
  next
    case False
    then show ?thesis using rem c(2) by simp
  qed
  then show k: "canonical_of r' (ni_id identity) = Some key" using adm(3) r' by auto
  show "canonical_of r' i = canonical_of r i" if h: "holders r i - {p} \<noteq> {}" for i
  proof (cases "i = ni_id identity")
    case True
    have "holders r i \<noteq> {}" using h by blast
    then have "canonical_of r i \<noteq> None" using registry_okD(5) [OF assms(1), of i] by (simp add: canonical_of_def)
    then show ?thesis using k c(2) True by auto
  next
    case False
    then show ?thesis using adm(3) r' rem h by auto
  qed
qed

section \<open>Every registry the controller reaches\<close>

inductive registry_reach :: "IdentityRegistry \<Rightarrow> bool" where
  start: "registry_reach empty_registry"
| admit: "registry_reach r \<Longrightarrow> admit_pod p key identity as r = Ok r' \<Longrightarrow> registry_reach r'"
| remove: "registry_reach r \<Longrightarrow> registry_reach (snd (registry_remove_pod p r))"
| clear: "registry_reach r \<Longrightarrow> registry_reach (registry_clear r)"

lemma remove_ok:
  assumes "registry_ok r"
  shows "registry_ok (snd (registry_remove_pod p r))" "bindings (snd (registry_remove_pod p r)) = (bindings r)(p := None)"
    and "holders r i - {p} \<noteq> {} \<Longrightarrow> canonical_of (snd (registry_remove_pod p r)) i = canonical_of r i"
    and "fst (registry_remove_pod p r) \<longleftrightarrow> bindings r p \<noteq> None"
proof -
  obtain removed t where t: "remove_pod_binding p r = (removed, t)" by fastforce
  note rem = remove_binding [OF assms t]
  show "registry_ok (snd (registry_remove_pod p r))" "bindings (snd (registry_remove_pod p r)) = (bindings r)(p := None)"
    "holders r i - {p} \<noteq> {} \<Longrightarrow> canonical_of (snd (registry_remove_pod p r)) i = canonical_of r i"
    "fst (registry_remove_pod p r) \<longleftrightarrow> bindings r p \<noteq> None"
    using rem by (simp_all add: registry_remove_pod_def t)
qed

lemma clear_ok: "registry_ok r \<Longrightarrow> registry_ok (registry_clear r)" "bindings (registry_clear r) = Map.empty"
  by (auto simp: registry_clear_def registry_ok_def bindings_def holders_def bt_get_def fun_eq_iff)

lemma registry_reach_ok: "registry_reach r \<Longrightarrow> registry_ok r"
  by (induction rule: registry_reach.induct) (auto intro: registry_ok_empty admit_ok(1) remove_ok(1) clear_ok(1))

definition sample_identity :: "u32 \<Rightarrow> NetworkIdentity" where
  "sample_identity i = \<lparr>ni_id = i, ni_cluster = ''local'', ni_namespace = ''shop'', ni_workload = ''web'',
     ni_service_account = ''default'', ni_application = None, ni_labels = []\<rparr>"

definition two_pods :: IdentityRegistry where
  "two_pods = \<lparr>reg_revision = 2,
     reg_identities = [(5, \<lparr>entry_canonical_key = ''k'', entry_identity = sample_identity 5, entry_pod_references = 2\<rparr>)],
     reg_pods = [(''a'', \<lparr>binding_identity_id = 5, binding_addresses = [V4 10]\<rparr>),
       (''b'', \<lparr>binding_identity_id = 5, binding_addresses = [V4 20, V6 20]\<rparr>)],
     reg_addresses = [(V4 10, (''a'', 5)), (V4 20, (''b'', 5)), (V6 20, (''b'', 5))]\<rparr>"

lemma two_pods_reach: "registry_reach two_pods"
proof -
  have "rbind (admit_pod ''a'' ''k'' (sample_identity 5) [V4 10] empty_registry)
      (admit_pod ''b'' ''k'' (sample_identity 5) [V6 20, V4 20]) = Ok two_pods" by code_simp
  then obtain r where r: "admit_pod ''a'' ''k'' (sample_identity 5) [V4 10] empty_registry = Ok r"
    "admit_pod ''b'' ''k'' (sample_identity 5) [V6 20, V4 20] r = Ok two_pods" by (auto simp: res_simps)
  show ?thesis by (rule registry_reach.admit [OF registry_reach.admit [OF registry_reach.start r(1)] r(2)])
qed

text \<open>
  C28: the registry's indexes are exact.  In every registry the controller reaches by admissions,
  removals and resets, an address is resolved to an identity exactly when an admitted pod holds both,
  no two pods share an address, an identity is known exactly while some pod has it, and its reference
  count is the number of these pods.
\<close>

theorem registry_index_exact:
  assumes "registry_reach r"
  shows "(identity_for_ip r a = Some i \<longleftrightarrow> (\<exists>p as. bindings r p = Some (i, as) \<and> a \<in> as)) \<and>
    (bindings r p = Some (j, as) \<and> bindings r q = Some (k, bs) \<and> p \<noteq> q \<longrightarrow> as \<inter> bs = {}) \<and>
    (registry_identity r i = None \<longleftrightarrow> holders r i = {}) \<and>
    (\<forall>e. bt_get (reg_identities r) i = Some e \<longrightarrow> entry_pod_references e = card (holders r i))"
proof -
  note ok = registry_okD [OF registry_reach_ok [OF assms]]
  have "as \<inter> bs = {}" if "bindings r p = Some (j, as)" "bindings r q = Some (k, bs)" "p \<noteq> q"
  proof (rule ccontr)
    assume "as \<inter> bs \<noteq> {}"
    then obtain x where "x \<in> as" "x \<in> bs" by blast
    then show False using ok(4) [of x p j] ok(4) [of x q k] that by auto
  qed
  moreover have "identity_for_ip r a = Some i \<longleftrightarrow> (\<exists>p as. bindings r p = Some (i, as) \<and> a \<in> as)"
    using ok(4) [of a _ i] by (auto simp: identity_for_ip_def)
  ultimately show ?thesis using ok(5,6) [of i] by (auto simp: registry_identity_def)
qed

theorem registry_index_exact_witness:
  "identity_for_ip two_pods (V6 20) = Some 5 \<and> (\<exists>p as. bindings two_pods p = Some (5, as) \<and> V6 20 \<in> as)"
proof -
  have "identity_for_ip two_pods (V6 20) = Some 5" by code_simp
  with registry_index_exact [OF two_pods_reach, of "V6 20" 5] show ?thesis by blast
qed



section \<open>The snapshot for the agents\<close>

lemma set_map_filter: "y \<in> set (List.map_filter f xs) \<longleftrightarrow> (\<exists>x \<in> set xs. f x = Some y)"
  by (force simp: map_filter_def)

lemma snapshot_entries:
  assumes "registry_ok r"
  shows "m \<in> set (ids_ipv4_entries (identity_snapshot epoch r)) \<longleftrightarrow>
      (\<exists>p as. bindings r p = Some (map_identity_id m, as) \<and> V4 (map_address m) \<in> as)"
    and "n \<in> set (ids_ipv6_entries (identity_snapshot epoch r)) \<longleftrightarrow>
      (\<exists>p as. bindings r p = Some (map_identity_id n, as) \<and> V6 (map_address n) \<in> as)"
proof -
  note ok = registry_okD [OF assms]
  have mem: "(a, p, i) \<in> set (reg_addresses r) \<longleftrightarrow> (\<exists>as. bindings r p = Some (i, as) \<and> a \<in> as)" for a p i
    using ok(4) [of a p i] bt_get_eq_Some [OF ok(3)] by simp
  have f4: "(case a of V4 x \<Rightarrow> Some \<lparr>map_address = x, map_identity_id = i\<rparr> | V6 _ \<Rightarrow> None) = Some m \<longleftrightarrow>
      a = V4 (map_address m) \<and> i = map_identity_id m" for a i
    by (cases a; cases m) auto
  have f6: "(case a of V4 _ \<Rightarrow> None | V6 x \<Rightarrow> Some \<lparr>map_address = x, map_identity_id = i\<rparr>) = Some n \<longleftrightarrow>
      a = V6 (map_address n) \<and> i = map_identity_id n" for a i
    by (cases a; cases n) auto
  show "m \<in> set (ids_ipv4_entries (identity_snapshot epoch r)) \<longleftrightarrow>
      (\<exists>p as. bindings r p = Some (map_identity_id m, as) \<and> V4 (map_address m) \<in> as)"
    by (simp only: identity_snapshot_def IdentityStateSnapshot.simps set_map_filter Bex_def split_paired_Ex prod.case f4 mem) blast
  show "n \<in> set (ids_ipv6_entries (identity_snapshot epoch r)) \<longleftrightarrow>
      (\<exists>p as. bindings r p = Some (map_identity_id n, as) \<and> V6 (map_address n) \<in> as)"
    by (simp only: identity_snapshot_def IdentityStateSnapshot.simps set_map_filter Bex_def split_paired_Ex prod.case f6 mem) blast
qed

lemma bound_identity_nonzero:
  assumes "registry_ok r" "bindings r p = Some (i, as)"
  shows "i \<noteq> 0"
proof -
  have "holders r i \<noteq> {}" using assms(2) by (auto simp: holders_def)
  then obtain e where "bt_get (reg_identities r) i = Some e" using registry_okD(5) [OF assms(1), of i] by fastforce
  then show ?thesis using registry_okD(6) [OF assms(1)] by blast
qed

lemma snapshot_distinct:
  assumes "registry_ok r"
  shows "distinct (map map_address (ids_ipv4_entries (identity_snapshot epoch r)))"
    and "distinct (map map_address (ids_ipv6_entries (identity_snapshot epoch r)))"
proof -
  have d: "distinct (map map_address (List.map_filter f es))"
    if "distinct (map fst es)" "\<And>e m. f e = Some m \<Longrightarrow> fst e = c (map_address m)"
    for f :: "'b \<times> 'c \<Rightarrow> 'a IdentityMapping option" and es c
    using that(1)
  proof (induction es)
    case (Cons e es)
    show ?case
    proof (cases "f e")
      case (Some m)
      have "map_address m \<notin> map_address ` set (List.map_filter f es)"
      proof
        assume "map_address m \<in> map_address ` set (List.map_filter f es)"
        then obtain e' m' where "e' \<in> set es" "f e' = Some m'" "map_address m' = map_address m" by (auto simp: set_map_filter)
        then have "fst e' = fst e" using that(2) [of e' m'] that(2) [OF Some] by simp
        moreover have "fst e \<notin> fst ` set es" using Cons.prems by simp
        ultimately show False using \<open>e' \<in> set es\<close> by (metis imageI)
      qed
      then show ?thesis using Some Cons by (simp add: map_filter_simps)
    qed (use Cons in \<open>simp add: map_filter_simps\<close>)
  qed (simp add: map_filter_simps)
  note distinct = bt_ok_distinct [OF registry_okD(3) [OF assms]]
  show "distinct (map map_address (ids_ipv4_entries (identity_snapshot epoch r)))"
    unfolding identity_snapshot_def IdentityStateSnapshot.simps
    by (rule d [OF distinct, of _ V4]) (auto split: IpAddr.splits)
  show "distinct (map map_address (ids_ipv6_entries (identity_snapshot epoch r)))"
    unfolding identity_snapshot_def IdentityStateSnapshot.simps
    by (rule d [OF distinct, of _ V6]) (auto split: IpAddr.splits)
qed

end
