(* ===== verification/Identity_Sync.thy ===== *)
theory Identity_Sync
  imports Policy_Sync Identity_Registry
begin

text \<open>
  The identity synchronizer of the agent (\<^verbatim>\<open>bins/unf-agent/src/main.rs\<close>) and the identity lookups of the
  traffic-control program (\<^verbatim>\<open>ebpf/unf-ebpf-tc/src/main.rs\<close>).  Each family has one kernel map per bank; a
  publication rewrites the two maps of the bank the program does not read and flips the configuration.
  The locality component is consulted around a publication; its answers are an argument of the model.
\<close>

section \<open>Encoding\<close>

definition IDENTITY_MAP_ABI_VERSION :: u16 where
  "IDENTITY_MAP_ABI_VERSION = 2"

definition IDENTITY_BANK_COUNT :: u8 where
  "IDENTITY_BANK_COUNT = 2"

record IdentityMapValue =
  imv_identity_id :: u32
  imv_schema_version :: u16
  imv_flags :: u16
  imv_revision :: u64

definition identity_map_value_new :: "u32 \<Rightarrow> u64 \<Rightarrow> IdentityMapValue" where
  "identity_map_value_new identity_id revision = \<lparr>imv_identity_id = identity_id,
     imv_schema_version = IDENTITY_MAP_ABI_VERSION, imv_flags = 0, imv_revision = revision\<rparr>"

definition encode_identity_value :: "IdentityMapValue \<Rightarrow> bytes" where
  "encode_identity_value v = le_bytes 4 (imv_identity_id v) @ le_bytes 2 (imv_schema_version v) @
     le_bytes 2 (imv_flags v) @ le_bytes 8 (imv_revision v)"

datatype identity_error = ReservedIdentityZero | ConflictingAddress

definition insert_identity_mapping ::
  "('a \<Rightarrow> bytes) \<Rightarrow> u64 \<Rightarrow> (bytes, bytes) btree \<Rightarrow> 'a IdentityMapping \<Rightarrow> (identity_error, (bytes, bytes) btree) res" where
  "insert_identity_mapping octets revision desired mapping =
     (if map_identity_id mapping = 0 then Err ReservedIdentityZero else
      let key = octets (map_address mapping);
          encoded = encode_identity_value (identity_map_value_new (map_identity_id mapping) revision)
      in case bt_get desired key of
           Some existing \<Rightarrow> if existing \<noteq> encoded then Err ConflictingAddress else Ok (bt_insert key encoded desired)
         | None \<Rightarrow> Ok (bt_insert key encoded desired))"

definition desired_ipv4_identity_entries ::
  "u32 IdentityMapping list \<Rightarrow> u64 \<Rightarrow> (identity_error, (bytes, bytes) btree) res" where
  "desired_ipv4_identity_entries mappings revision = try_fold (insert_identity_mapping (be_bytes 4) revision) [] mappings"

definition desired_ipv6_identity_entries ::
  "u128 IdentityMapping list \<Rightarrow> u64 \<Rightarrow> (identity_error, (bytes, bytes) btree) res" where
  "desired_ipv6_identity_entries mappings revision = try_fold (insert_identity_mapping (be_bytes 16) revision) [] mappings"

definition encode_identity_config :: "u64 \<Rightarrow> u64 \<Rightarrow> nat \<Rightarrow> u8 \<Rightarrow> (PolicySyncError, bytes) res" where
  "encode_identity_config source_epoch revision entry_count bank =
     encode_map_config source_epoch revision entry_count IDENTITY_MAP_ABI_VERSION bank IDENTITY_BANK_COUNT"

section \<open>Publication\<close>

record ('s, 'c) IdentitySynchronizer =
  ids_ipv4_maps :: "'s list"
  ids_ipv6_maps :: "'s list"
  ids_config :: 'c
  ids_ipv4_banks :: "(bytes, bytes) btree list"
  ids_ipv6_banks :: "(bytes, bytes) btree list"
  ids_active_bank :: u8
  ids_applied_epoch :: u64

record ('s, 'c) identity_calls =
  ic_ops :: "('s, bytes) map_ops"
  ic_set :: "bytes \<Rightarrow> 'c \<Rightarrow> bool \<times> 'c"
  ic_get :: "'c \<Rightarrow> bytes option"
  ic_iter :: "'s \<Rightarrow> (bytes \<times> bytes) option list"

definition replace_identity_entries ::
  "('s, bytes) map_ops \<Rightarrow> (bytes, bytes) btree \<Rightarrow> (bytes, bytes) btree \<Rightarrow> 's \<Rightarrow> bool \<times> 's" where
  "replace_identity_entries ops current desired =
     run_calls (map (map_remove ops) (filter (\<lambda>key. bt_get desired key = None) (map fst current)) @
       map (\<lambda>(key, value). map_insert ops key value) desired)"

definition restore_identity_entries ::
  "('s, bytes) map_ops \<Rightarrow> (bytes, bytes) btree \<Rightarrow> 's \<Rightarrow> bool \<times> 's" where
  "restore_identity_entries ops previous s = (case map_keys ops s of None \<Rightarrow> (False, s)
   | Some keys \<Rightarrow> run_calls (map (map_remove ops) keys @ map (\<lambda>(key, value). map_insert ops key value) previous) s)"

definition validate_staged_identity_entries ::
  "('s, bytes) map_ops \<Rightarrow> (bytes, bytes) btree \<Rightarrow> 's \<Rightarrow> bool" where
  "validate_staged_identity_entries ops desired s =
     list_all (\<lambda>(key, expected). map_get ops key s = Some expected) desired"

datatype apply_failure = InvalidStagingBank u8 | StageRolledBack | StageRollbackFailed

definition rollback_identity_stage ::
  "('s, 'c) identity_calls \<Rightarrow> (bytes, bytes) btree \<Rightarrow> (bytes, bytes) btree \<Rightarrow> u8 \<Rightarrow> ('s, 'c) IdentitySynchronizer \<Rightarrow>
   (apply_failure, unit) res \<times> ('s, 'c) IdentitySynchronizer" where
  "rollback_identity_stage os previous_ipv4 previous_ipv6 bank s =
     (let index = unat bank;
          (ipv4, m4) = restore_identity_entries (ic_ops os) previous_ipv4 (ids_ipv4_maps s ! index);
          (ipv6, m6) = restore_identity_entries (ic_ops os) previous_ipv6 (ids_ipv6_maps s ! index)
      in (Err (if ipv4 \<and> ipv6 then StageRolledBack else StageRollbackFailed),
          s\<lparr>ids_ipv4_maps := (ids_ipv4_maps s)[index := m4], ids_ipv6_maps := (ids_ipv6_maps s)[index := m6]\<rparr>))"

definition apply_identity_entries ::
  "('s, 'c) identity_calls \<Rightarrow> (bytes, bytes) btree \<Rightarrow> (bytes, bytes) btree \<Rightarrow> u64 \<Rightarrow> u64 \<Rightarrow> u8 \<Rightarrow>
   ('s, 'c) IdentitySynchronizer \<Rightarrow> (apply_failure, unit) res \<times> ('s, 'c) IdentitySynchronizer" where
  "apply_identity_entries os desired_ipv4 desired_ipv6 source_epoch revision to_bank s =
     (if to_bank \<ge> IDENTITY_BANK_COUNT then (Err (InvalidStagingBank to_bank), s) else
      let staging = unat to_bank;
          previous_ipv4 = ids_ipv4_banks s ! staging;
          previous_ipv6 = ids_ipv6_banks s ! staging;
          rollback = rollback_identity_stage os previous_ipv4 previous_ipv6 to_bank;
          (ok4, m4) = replace_identity_entries (ic_ops os) previous_ipv4 desired_ipv4 (ids_ipv4_maps s ! staging);
          s = s\<lparr>ids_ipv4_maps := (ids_ipv4_maps s)[staging := m4]\<rparr>
      in if \<not> ok4 then rollback s else
         let (ok6, m6) = replace_identity_entries (ic_ops os) previous_ipv6 desired_ipv6 (ids_ipv6_maps s ! staging);
             s = s\<lparr>ids_ipv6_maps := (ids_ipv6_maps s)[staging := m6]\<rparr>
         in if \<not> ok6 then rollback s else
            if \<not> (validate_staged_identity_entries (ic_ops os) desired_ipv4 (ids_ipv4_maps s ! staging) \<and>
                  validate_staged_identity_entries (ic_ops os) desired_ipv6 (ids_ipv6_maps s ! staging))
            then rollback s else
            case encode_identity_config source_epoch revision (length desired_ipv4 + length desired_ipv6) to_bank of
              Err _ \<Rightarrow> rollback s
            | Ok config \<Rightarrow>
                let (set_ok, c) = ic_set os config (ids_config s); s = s\<lparr>ids_config := c\<rparr>
                in if \<not> set_ok then rollback s else
                   (Ok (), s\<lparr>ids_ipv4_banks := (ids_ipv4_banks s)[staging := desired_ipv4],
                     ids_ipv6_banks := (ids_ipv6_banks s)[staging := desired_ipv6], ids_active_bank := to_bank\<rparr>))"

definition identity_entry_count_for_bank :: "('s, 'c) IdentitySynchronizer \<Rightarrow> u8 \<Rightarrow> nat" where
  "identity_entry_count_for_bank s bank = length (ids_ipv4_banks s ! unat bank) + length (ids_ipv6_banks s ! unat bank)"

definition identity_entry_count :: "('s, 'c) IdentitySynchronizer \<Rightarrow> nat" where
  "identity_entry_count s = identity_entry_count_for_bank s (ids_active_bank s)"

section \<open>Synchronization\<close>

record AgentIdentityState =
  desired_identity_epoch :: u64
  desired_identity_revision :: u64
  applied_identity_epoch :: u64
  applied_identity_revision :: u64
  identity_map_entries :: u64
  ipv4_identity_map_entries :: u64
  ipv6_identity_map_entries :: u64

text \<open>What the locality component answers during one synchronization: whether the revision is already
  marked applied, and whether a publication may begin and is then accepted.\<close>

record locality_answers =
  loc_is_applied :: "bool option"
  loc_begin :: bool
  loc_complete :: bool

datatype identity_sync_error =
    IdentityFetchFailed
  | UnsupportedIdentitySchema u16
  | StaleIdentityRevision u64
  | InvalidIdentitySnapshot identity_error
  | LocalityRefused
  | IdentityPublicationFailed apply_failure
  | ConfigReadbackMismatch
  | BankReadbackMismatch

definition validate_applied_identity_config ::
  "('s, 'c) identity_calls \<Rightarrow> ('s, 'c) IdentitySynchronizer \<Rightarrow> u64 \<Rightarrow> u64 \<Rightarrow> (identity_sync_error, unit) res" where
  "validate_applied_identity_config os s epoch revision =
     (case encode_identity_config epoch revision (identity_entry_count s) (ids_active_bank s) of
        Err _ \<Rightarrow> Err ConfigReadbackMismatch
      | Ok expected \<Rightarrow> if ic_get os (ids_config s) \<noteq> Some expected then Err ConfigReadbackMismatch else Ok ())"

definition read_bank :: "(bytes \<times> bytes) option list \<Rightarrow> (bytes, bytes) btree option" where
  "read_bank entries = (if list_all (\<lambda>e. e \<noteq> None) entries
     then Some (foldl (\<lambda>m e. bt_insert (fst e) (snd e) m) [] (map the entries)) else None)"

definition revalidate_locality_identities ::
  "('s, 'c) identity_calls \<Rightarrow> locality_answers \<Rightarrow> ('s, 'c) IdentitySynchronizer \<Rightarrow> u64 \<Rightarrow> u64 \<Rightarrow>
   (identity_sync_error, unit) res" where
  "revalidate_locality_identities os locality s epoch revision =
     (case loc_is_applied locality of None \<Rightarrow> Err LocalityRefused
      | Some True \<Rightarrow> Ok ()
      | Some False \<Rightarrow>
        if \<not> loc_begin locality then Err LocalityRefused else
        rbind (validate_applied_identity_config os s epoch revision) (\<lambda>_.
        let bank = unat (ids_active_bank s) in
        if read_bank (ic_iter os (ids_ipv4_maps s ! bank)) \<noteq> Some (ids_ipv4_banks s ! bank) \<or>
           read_bank (ic_iter os (ids_ipv6_maps s ! bank)) \<noteq> Some (ids_ipv6_banks s ! bank)
        then Err BankReadbackMismatch
        else if loc_complete locality then Ok () else Err LocalityRefused))"

definition map_identity_error :: "(identity_error, 'a) res \<Rightarrow> (identity_sync_error, 'a) res" where
  "map_identity_error r = (case r of Err e \<Rightarrow> Err (InvalidIdentitySnapshot e) | Ok v \<Rightarrow> Ok v)"

definition synchronize_identities ::
  "('s, 'c) identity_calls \<Rightarrow> locality_answers \<Rightarrow> IdentityStateSnapshot option \<Rightarrow>
   ('s, 'c) IdentitySynchronizer \<times> AgentIdentityState \<Rightarrow>
   (identity_sync_error, unit) res \<times> ('s, 'c) IdentitySynchronizer \<times> AgentIdentityState" where
  "synchronize_identities os locality fetched = (\<lambda>(s, state).
     case fetched of None \<Rightarrow> (Err IdentityFetchFailed, s, state)
     | Some snapshot \<Rightarrow>
       if ids_schema_version snapshot \<noteq> IDENTITY_SNAPSHOT_SCHEMA_VERSION
       then (Err (UnsupportedIdentitySchema (ids_schema_version snapshot)), s, state) else
       let desired_revision = ids_revision snapshot;
           epoch = ids_source_epoch snapshot;
           state = state\<lparr>desired_identity_epoch := epoch, desired_identity_revision := desired_revision\<rparr>;
           applied_revision = applied_identity_revision state
       in if epoch = ids_applied_epoch s \<and> desired_revision = applied_revision
          then (revalidate_locality_identities os locality s epoch desired_revision, s, state)
          else if epoch = ids_applied_epoch s \<and> desired_revision < applied_revision
          then (Err (StaleIdentityRevision desired_revision), s, state) else
          case rbind (map_identity_error (desired_ipv4_identity_entries (ids_ipv4_entries snapshot) desired_revision)) (\<lambda>d4.
               rbind (map_identity_error (desired_ipv6_identity_entries (ids_ipv6_entries snapshot) desired_revision)) (\<lambda>d6.
               if loc_begin locality then Ok (d4, d6) else Err LocalityRefused)) of
            Err e \<Rightarrow> (Err e, s, state)
          | Ok (d4, d6) \<Rightarrow>
            (case apply_identity_entries os d4 d6 epoch desired_revision
                ((ids_active_bank s + 1) mod IDENTITY_BANK_COUNT) s of
               (Err e, s) \<Rightarrow> (Err (IdentityPublicationFailed e), s, state)
             | (Ok _, s) \<Rightarrow>
               let s = s\<lparr>ids_applied_epoch := epoch\<rparr> in
               case rbind (validate_applied_identity_config os s epoch desired_revision)
                 (\<lambda>_. if loc_complete locality then Ok () else Err LocalityRefused) of
                 Err e \<Rightarrow> (Err e, s, state)
               | Ok _ \<Rightarrow> (Ok (), s, state\<lparr>applied_identity_epoch := epoch, applied_identity_revision := desired_revision,
                   identity_map_entries := of_nat (identity_entry_count s),
                   ipv4_identity_map_entries := of_nat (length (ids_ipv4_banks s ! unat (ids_active_bank s))),
                   ipv6_identity_map_entries := of_nat (length (ids_ipv6_banks s ! unat (ids_active_bank s)))\<rparr>)))"

section \<open>Recovery\<close>

definition validate_recovered_identity_value :: "bytes \<Rightarrow> (PolicySyncError, u64) res" where
  "validate_recovered_identity_value value =
     (let identity_id = field value 0 4 :: u32; schema = field value 4 2 :: u16; flags = field value 6 2 :: u16;
          entry_revision = field value 8 8 :: u64
      in if identity_id = 0 \<or> schema \<noteq> IDENTITY_MAP_ABI_VERSION \<or> flags \<noteq> 0 then Err IncompatibleValue
         else if entry_revision = 0 then Err IncompatibleValue else Ok entry_revision)"

definition decode_recovered_identity_config ::
  "bytes \<Rightarrow> (PolicySyncError, (u64 \<times> u64 \<times> u32 \<times> u8) option) res" where
  "decode_recovered_identity_config config =
     decode_recovered_config config IDENTITY_MAP_ABI_VERSION IDENTITY_BANK_COUNT"

definition recover_identity_bank ::
  "(bytes \<times> bytes) option list \<Rightarrow> (bytes, bytes) btree \<Rightarrow> (recovery_error, (bytes, bytes) btree) res" where
  "recover_identity_bank entries bank =
     (if \<not> list_all (\<lambda>e. e \<noteq> None) entries then Err IterationFailed else
      try_fold (\<lambda>bank (key, value).
        rbind (map_recovery_error InvalidEntry (validate_recovered_identity_value value)) (\<lambda>_. Ok (bt_insert key value bank)))
      bank (map the entries))"

definition recover_identity_entries ::
  "('s, 'c) identity_calls \<Rightarrow> ('s, 'c) IdentitySynchronizer \<Rightarrow> (recovery_error, ('s, 'c) IdentitySynchronizer) res" where
  "recover_identity_entries os =
     (\<lambda>s. try_fold (\<lambda>s bank.
        rbind (recover_identity_bank (ic_iter os (ids_ipv4_maps s ! bank)) (ids_ipv4_banks s ! bank)) (\<lambda>b4.
        let s = s\<lparr>ids_ipv4_banks := (ids_ipv4_banks s)[bank := b4]\<rparr> in
        rbind (recover_identity_bank (ic_iter os (ids_ipv6_maps s ! bank)) (ids_ipv6_banks s ! bank)) (\<lambda>b6.
        Ok (s\<lparr>ids_ipv6_banks := (ids_ipv6_banks s)[bank := b6]\<rparr>)))) s [0..<unat IDENTITY_BANK_COUNT])"

definition validate_active_identity_revision ::
  "('s, 'c) IdentitySynchronizer \<Rightarrow> u8 \<Rightarrow> u64 \<Rightarrow> (recovery_error, unit) res" where
  "validate_active_identity_revision s bank revision =
     try_fold (\<lambda>_ value.
       rbind (map_recovery_error InvalidEntry (validate_recovered_identity_value value)) (\<lambda>entry_revision.
       if entry_revision \<noteq> revision then Err MixedRevision else Ok ())) ()
     (bt_values (ids_ipv4_banks s ! unat bank) @ bt_values (ids_ipv6_banks s ! unat bank))"

definition recover_identity_state ::
  "('s, 'c) identity_calls \<Rightarrow> ('s, 'c) IdentitySynchronizer \<Rightarrow>
   (recovery_error, (u64 \<times> u64) option \<times> ('s, 'c) IdentitySynchronizer) res" where
  "recover_identity_state os s =
     rbind (recover_identity_entries os s) (\<lambda>s.
     case ic_get os (ids_config s) of None \<Rightarrow> Err ConfigReadFailed
     | Some config \<Rightarrow>
       rbind (map_recovery_error InvalidConfig (decode_recovered_identity_config config)) (\<lambda>decoded.
       case decoded of None \<Rightarrow> Ok (None, s)
       | Some (epoch, revision, entry_count, bank) \<Rightarrow>
         if identity_entry_count_for_bank s bank \<noteq> unat entry_count then Err EntryCountMismatch
         else rbind (validate_active_identity_revision s bank revision) (\<lambda>_.
           Ok (Some (epoch, revision), s\<lparr>ids_active_bank := bank, ids_applied_epoch := epoch\<rparr>))))"

section \<open>Lookups of the program\<close>

record identity_maps =
  identity_config_raw :: "bytes option"
  identity_v4 :: "bytes \<rightharpoonup> bytes"
  identity_v4_b :: "bytes \<rightharpoonup> bytes"
  identity_v6 :: "bytes \<rightharpoonup> bytes"
  identity_v6_b :: "bytes \<rightharpoonup> bytes"

record IdentityMapConfig =
  imc_source_epoch :: u64
  imc_revision :: u64
  imc_entry_count :: u32
  imc_schema_version :: u16
  imc_active_bank :: u8
  imc_flags :: u8

definition identity_map_config :: "bytes \<Rightarrow> IdentityMapConfig" where
  "identity_map_config raw = \<lparr>imc_source_epoch = field raw 0 8, imc_revision = field raw 8 8, imc_entry_count = field raw 16 4,
     imc_schema_version = field raw 20 2, imc_active_bank = raw ! 22, imc_flags = raw ! 23\<rparr>"

definition identity_map_value :: "bytes \<Rightarrow> IdentityMapValue" where
  "identity_map_value raw = \<lparr>imv_identity_id = field raw 0 4, imv_schema_version = field raw 4 2, imv_flags = field raw 6 2,
     imv_revision = field raw 8 8\<rparr>"

definition active_identity_config :: "identity_maps \<Rightarrow> IdentityMapConfig option" where
  "active_identity_config maps = (case identity_config_raw maps of None \<Rightarrow> None
   | Some raw \<Rightarrow> let config = identity_map_config raw in
       if imc_source_epoch config = 0 \<or> imc_schema_version config \<noteq> IDENTITY_MAP_ABI_VERSION \<or>
          imc_active_bank config \<ge> IDENTITY_BANK_COUNT \<or> imc_revision config = 0 \<or> imc_flags config \<noteq> 0
       then None else Some config)"

definition current_identity :: "IdentityMapConfig \<Rightarrow> bytes option \<Rightarrow> u32" where
  "current_identity config raw = (case raw of None \<Rightarrow> 0
   | Some raw \<Rightarrow> let value = identity_map_value raw in
       if imv_schema_version value = IDENTITY_MAP_ABI_VERSION \<and> imv_revision value = imc_revision config
       then imv_identity_id value else 0)"

definition lookup_identity_v4 :: "identity_maps \<Rightarrow> bytes \<Rightarrow> IdentityMapConfig option \<Rightarrow> u32" where
  "lookup_identity_v4 maps address config = (case config of None \<Rightarrow> 0
   | Some config \<Rightarrow> current_identity config
       (if imc_active_bank config = 0 then identity_v4 maps address else identity_v4_b maps address))"

definition lookup_identity_v6 :: "identity_maps \<Rightarrow> bytes \<Rightarrow> IdentityMapConfig option \<Rightarrow> u32" where
  "lookup_identity_v6 maps address config = (case config of None \<Rightarrow> 0
   | Some config \<Rightarrow> current_identity config
       (if imc_active_bank config = 0 then identity_v6 maps address else identity_v6_b maps address))"

section \<open>The encoded snapshot\<close>

lemma replace_identity_eq: "replace_identity_entries ops = replace_policy_entries ops"
  by (simp add: replace_identity_entries_def replace_policy_entries_def fun_eq_iff)

lemma restore_identity_eq: "restore_identity_entries ops previous = restore_policy_entries ops (\<lambda>_. 0) previous 0"
  by (simp add: restore_identity_entries_def restore_policy_entries_def fun_eq_iff split: option.split)

abbreviation identity_value :: "u32 \<Rightarrow> u64 \<Rightarrow> bytes" where
  "identity_value i revision \<equiv> encode_identity_value (identity_map_value_new i revision)"

lemma identity_value_decoded [simp]: "identity_map_value (identity_value i revision) = identity_map_value_new i revision"
  by (simp add: identity_map_value_def encode_identity_value_def identity_map_value_new_def field_def of_le_bytes_le_bytes)

lemma identity_value_inject [simp]: "identity_value i revision = identity_value j revision \<longleftrightarrow> i = j"
proof
  assume "identity_value i revision = identity_value j revision"
  then have "identity_map_value_new i revision = identity_map_value_new j revision" by (metis identity_value_decoded)
  then show "i = j" by (simp add: identity_map_value_new_def)
qed simp

lemma insert_mapping_Ok:
  assumes "bt_ok d"
  shows "insert_identity_mapping octets revision d m = Ok d' \<longleftrightarrow> map_identity_id m \<noteq> 0 \<and>
    bt_get d (octets (map_address m)) \<in> {None, Some (identity_value (map_identity_id m) revision)} \<and>
    d' = bt_insert (octets (map_address m)) (identity_value (map_identity_id m) revision) d"
  by (auto simp: insert_identity_mapping_def Let_def split: option.splits)

lemma mappings_fold:
  assumes "try_fold (insert_identity_mapping octets revision) d ms = Ok d'" "bt_ok d"
  shows "bt_ok d' \<and> (\<forall>m \<in> set ms. map_identity_id m \<noteq> 0 \<and>
      bt_get d' (octets (map_address m)) = Some (identity_value (map_identity_id m) revision)) \<and>
    (\<forall>k v. bt_get d k = Some v \<longrightarrow> bt_get d' k = Some v) \<and>
    (\<forall>k v. bt_get d' k = Some v \<longrightarrow> bt_get d k = Some v \<or>
      (\<exists>m \<in> set ms. k = octets (map_address m) \<and> v = identity_value (map_identity_id m) revision))"
  using assms
proof (induction ms arbitrary: d)
  case (Cons m ms)
  from Cons.prems(1) obtain t where t: "insert_identity_mapping octets revision d m = Ok t"
    and rest: "try_fold (insert_identity_mapping octets revision) t ms = Ok d'" by (auto simp: res_simps)
  let ?k = "octets (map_address m)" and ?v = "identity_value (map_identity_id m) revision"
  from t have m: "map_identity_id m \<noteq> 0" "bt_get d ?k \<in> {None, Some ?v}" "t = bt_insert ?k ?v d"
    by (simp_all add: insert_mapping_Ok [OF Cons.prems(2)])
  have t_ok: "bt_ok t" "bt_get t = (bt_get d)(?k \<mapsto> ?v)" using Cons.prems(2) by (simp_all add: m(3) bt_ok_insert bt_get_insert)
  from Cons.IH [OF rest t_ok(1)] have IH: "bt_ok d'" "\<forall>m \<in> set ms. map_identity_id m \<noteq> 0 \<and>
      bt_get d' (octets (map_address m)) = Some (identity_value (map_identity_id m) revision)"
    "\<forall>k v. bt_get t k = Some v \<longrightarrow> bt_get d' k = Some v"
    "\<forall>k v. bt_get d' k = Some v \<longrightarrow> bt_get t k = Some v \<or>
      (\<exists>m \<in> set ms. k = octets (map_address m) \<and> v = identity_value (map_identity_id m) revision)" by blast+
  have "bt_get d' ?k = Some ?v" using IH(3) t_ok(2) by simp
  moreover have "bt_get d' k = Some v" if "bt_get d k = Some v" for k v
    using IH(3) t_ok(2) m(2) that by (cases "k = ?k") auto
  moreover have "bt_get d k = Some v \<or> (\<exists>n \<in> set (m # ms). k = octets (map_address n) \<and>
      v = identity_value (map_identity_id n) revision)" if "bt_get d' k = Some v" for k v
    using IH(4) [rule_format, OF that] by (cases "k = ?k") (auto simp: t_ok(2))
  ultimately show ?case using IH(1,2) m(1) by simp
qed simp

lemma mappings_foldD:
  assumes "try_fold (insert_identity_mapping octets revision) [] ms = Ok d"
  shows "bt_ok d"
    and "m \<in> set ms \<Longrightarrow> map_identity_id m \<noteq> 0"
    and "m \<in> set ms \<Longrightarrow> bt_get d (octets (map_address m)) = Some (identity_value (map_identity_id m) revision)"
    and "bt_get d k = Some v \<Longrightarrow> \<exists>m \<in> set ms. k = octets (map_address m)"
    and "bt_get d k = Some v \<Longrightarrow> \<exists>i. i \<noteq> 0 \<and> v = identity_value i revision"
proof -
  note f = mappings_fold [OF assms bt_ok_Nil]
  show "bt_ok d" by (rule conjunct1 [OF f])
  note f2 = conjunct1 [OF conjunct2 [OF f]] and f4 = conjunct2 [OF conjunct2 [OF conjunct2 [OF f]]]
  show m: "m \<in> set ms \<Longrightarrow> map_identity_id m \<noteq> 0" for m using f2 by blast
  show "m \<in> set ms \<Longrightarrow> bt_get d (octets (map_address m)) = Some (identity_value (map_identity_id m) revision)"
    using f2 by blast
  have "\<exists>m \<in> set ms. k = octets (map_address m) \<and> v = identity_value (map_identity_id m) revision"
    if "bt_get d k = Some v"
    using f4 [rule_format, OF that] by (simp add: bt_get_def)
  then show "bt_get d k = Some v \<Longrightarrow> \<exists>m \<in> set ms. k = octets (map_address m)"
    "bt_get d k = Some v \<Longrightarrow> \<exists>i. i \<noteq> 0 \<and> v = identity_value i revision" using m by blast+
qed

text \<open>The identity a list of mappings gives an address, zero for unknown addresses.\<close>

definition mapped_identity :: "'a IdentityMapping list \<Rightarrow> 'a \<Rightarrow> u32" where
  "mapped_identity ms a = (case find (\<lambda>m. map_address m = a) ms of Some m \<Rightarrow> map_identity_id m | None \<Rightarrow> 0)"

lemma mapped_entries:
  assumes "try_fold (insert_identity_mapping octets revision) [] ms = Ok d" "inj octets"
  shows "bt_ok d" "bt_get d (octets a) =
    (if mapped_identity ms a = 0 then None else Some (identity_value (mapped_identity ms a) revision))"
proof -
  note fold = mappings_foldD [OF assms(1)]
  show "bt_ok d" by (rule fold(1))
  show "bt_get d (octets a) =
    (if mapped_identity ms a = 0 then None else Some (identity_value (mapped_identity ms a) revision))"
  proof (cases "find (\<lambda>m. map_address m = a) ms")
    case None
    have "bt_get d (octets a) = None"
    proof (rule ccontr)
      assume "bt_get d (octets a) \<noteq> None"
      then obtain v where "bt_get d (octets a) = Some v" by blast
      then obtain m where m: "m \<in> set ms" "octets a = octets (map_address m)" using fold(4) by blast
      have "a = map_address m" by (rule injD [OF assms(2) m(2)])
      with m(1) None show False unfolding find_None_iff by blast
    qed
    then show ?thesis using None by (simp add: mapped_identity_def)
  next
    case (Some m)
    then have "m \<in> set ms" "map_address m = a" using find_SomeD by fastforce+
    then show ?thesis using fold(2,3) [of m] Some by (auto simp: mapped_identity_def)
  qed
qed

lemma be_bytes_inj: "inj (be_bytes 4 :: u32 \<Rightarrow> bytes)" "inj (be_bytes 16 :: u128 \<Rightarrow> bytes)"
  by (rule injI, simp add: bytes_inject)+

lemmas desired_identities =
  mapped_entries [of "be_bytes 4", OF _ be_bytes_inj(1), folded desired_ipv4_identity_entries_def]
  mapped_entries [of "be_bytes 16", OF _ be_bytes_inj(2), folded desired_ipv6_identity_entries_def]

section \<open>One publication\<close>

text \<open>What the agent relies on: the map calls do what they report, and so does the configuration write.\<close>

definition identity_contract :: "('s, 'c) identity_calls \<Rightarrow> ('s \<Rightarrow> bytes \<rightharpoonup> bytes) \<Rightarrow> ('c \<Rightarrow> bytes) \<Rightarrow> bool" where
  "identity_contract os vh vc \<longleftrightarrow> map_contract (ic_ops os) vh \<and>
     (\<forall>v c ok c'. ic_set os v c = (ok, c') \<longrightarrow> vc c' = (if ok then v else vc c))"

definition two_banked :: "('s, 'c) IdentitySynchronizer \<Rightarrow> bool" where
  "two_banked s \<longleftrightarrow> length (ids_ipv4_maps s) = 2 \<and> length (ids_ipv6_maps s) = 2 \<and>
     length (ids_ipv4_banks s) = 2 \<and> length (ids_ipv6_banks s) = 2 \<and> ids_active_bank s < IDENTITY_BANK_COUNT \<and>
     list_all bt_ok (ids_ipv4_banks s) \<and> list_all bt_ok (ids_ipv6_banks s)"

definition exactly :: "('s \<Rightarrow> bytes \<rightharpoonup> bytes) \<Rightarrow> ('s, 'c) IdentitySynchronizer \<Rightarrow> nat \<Rightarrow> bool" where
  "exactly vh s b \<longleftrightarrow> vh (ids_ipv4_maps s ! b) = bt_get (ids_ipv4_banks s ! b) \<and>
     vh (ids_ipv6_maps s ! b) = bt_get (ids_ipv6_banks s ! b)"

lemma dom_bt_get: "dom (bt_get m) = fst ` set m"
  using dom_map_of_conv_image_fst [of m] by (simp add: bt_get_def [abs_def])

lemma small_bank: "b < IDENTITY_BANK_COUNT \<longleftrightarrow> b = 0 \<or> b = 1" "b < IDENTITY_BANK_COUNT \<Longrightarrow> unat b < 2"
  using two_banks [of b] by (auto simp: IDENTITY_BANK_COUNT_def POLICY_BANK_COUNT_def)

lemma apply_identity_cases:
  fixes s :: "('s, 'c) IdentitySynchronizer"
  assumes "apply_identity_entries os d4 d6 epoch revision b s = (r, s')" "b < IDENTITY_BANK_COUNT" "two_banked s"
  obtains
    (failed) e m4 m6 c where "r = Err e" "c = ids_config s \<or> (\<exists>v. ic_set os v (ids_config s) = (False, c))"
      "s' = s\<lparr>ids_ipv4_maps := (ids_ipv4_maps s)[unat b := m4], ids_ipv6_maps := (ids_ipv6_maps s)[unat b := m6], ids_config := c\<rparr>"
      "e = StageRollbackFailed \<or> e = StageRolledBack \<and>
        (\<exists>t4 t6. restore_identity_entries (ic_ops os) (ids_ipv4_banks s ! unat b) t4 = (True, m4) \<and>
          restore_identity_entries (ic_ops os) (ids_ipv6_banks s ! unat b) t6 = (True, m6))"
  | (applied) m4 m6 c config where "r = Ok ()"
      "replace_identity_entries (ic_ops os) (ids_ipv4_banks s ! unat b) d4 (ids_ipv4_maps s ! unat b) = (True, m4)"
      "replace_identity_entries (ic_ops os) (ids_ipv6_banks s ! unat b) d6 (ids_ipv6_maps s ! unat b) = (True, m6)"
      "encode_identity_config epoch revision (length d4 + length d6) b = Ok config"
      "ic_set os config (ids_config s) = (True, c)"
      "s' = s\<lparr>ids_ipv4_maps := (ids_ipv4_maps s)[unat b := m4], ids_ipv6_maps := (ids_ipv6_maps s)[unat b := m6], ids_config := c,
         ids_ipv4_banks := (ids_ipv4_banks s)[unat b := d4], ids_ipv6_banks := (ids_ipv6_banks s)[unat b := d6], ids_active_bank := b\<rparr>"
proof -
  let ?i = "unat b" and ?p4 = "ids_ipv4_banks s ! unat b" and ?p6 = "ids_ipv6_banks s ! unat b"
  have i: "?i < length (ids_ipv4_maps s)" "?i < length (ids_ipv6_maps s)"
    using assms(3) small_bank(2) [OF assms(2)] by (auto simp: two_banked_def)
  have undo: "thesis" if "rollback_identity_stage os ?p4 ?p6 b (s\<lparr>ids_ipv4_maps := (ids_ipv4_maps s)[?i := x],
      ids_ipv6_maps := (ids_ipv6_maps s)[?i := y], ids_config := c\<rparr>) = (r, s')"
    "c = ids_config s \<or> (\<exists>v. ic_set os v (ids_config s) = (False, c))" for x y c
  proof -
    obtain ok4 m4 ok6 m6 where m: "restore_identity_entries (ic_ops os) ?p4 x = (ok4, m4)"
      "restore_identity_entries (ic_ops os) ?p6 y = (ok6, m6)" by (meson surj_pair)
    show thesis
      using that(1) i m by (intro failed [of "if ok4 \<and> ok6 then StageRolledBack else StageRollbackFailed", OF _ that(2)])
        (auto simp: rollback_identity_stage_def Let_def)
  qed
  obtain ok4 m4 where m4: "replace_identity_entries (ic_ops os) ?p4 d4 (ids_ipv4_maps s ! ?i) = (ok4, m4)" by fastforce
  obtain ok6 m6 where m6: "replace_identity_entries (ic_ops os) ?p6 d6 (ids_ipv6_maps s ! ?i) = (ok6, m6)" by fastforce
  let ?s4 = "s\<lparr>ids_ipv4_maps := (ids_ipv4_maps s)[?i := m4]\<rparr>"
  let ?s6 = "?s4\<lparr>ids_ipv6_maps := (ids_ipv6_maps s)[?i := m6]\<rparr>"
  have same: "(ids_ipv6_maps s)[?i := ids_ipv6_maps s ! ?i] = ids_ipv6_maps s"
    "s\<lparr>ids_ipv4_maps := x, ids_ipv6_maps := ids_ipv6_maps s, ids_config := ids_config s\<rparr> = s\<lparr>ids_ipv4_maps := x\<rparr>"
    "s\<lparr>ids_ipv4_maps := x, ids_ipv6_maps := y, ids_config := ids_config s\<rparr> = s\<lparr>ids_ipv4_maps := x, ids_ipv6_maps := y\<rparr>" for x y
    by simp_all
  have "\<not> IDENTITY_BANK_COUNT \<le> b" using assms(2) by simp
  note run = assms(1) [unfolded apply_identity_entries_def Let_def if_not_P [OF this] m4 prod.case]
  show thesis
  proof (cases "ok4 \<and> ok6 \<and> validate_staged_identity_entries (ic_ops os) d4 m4 \<and> validate_staged_identity_entries (ic_ops os) d6 m6")
    case False
    then show ?thesis
    proof (cases ok4)
      case True
      then show ?thesis using False run m6 i undo [where x = m4 and y = m6 and c = "ids_config s", unfolded same]
        by (auto split: if_splits)
    next
      case False
      then show ?thesis using run undo [where x = m4 and y = "ids_ipv6_maps s ! ?i" and c = "ids_config s", unfolded same] by simp
    qed
  next
    case True
    show ?thesis
    proof (cases "encode_identity_config epoch revision (length d4 + length d6) b")
      case (Inl e)
      then show ?thesis using True run m6 i undo [where x = m4 and y = m6 and c = "ids_config s", unfolded same]
        by (auto split: if_splits)
    next
      case (Inr config)
      obtain ok c where c: "ic_set os config (ids_config s) = (ok, c)" by fastforce
      show ?thesis
      proof (cases ok)
        case False
        then show ?thesis using Inr True run m6 i c undo [where x = m4 and y = m6 and c = c] by (auto split: if_splits)
      next
        case ok: True
        then show ?thesis using Inr True run m4 m6 i c by (intro applied) (auto split: if_splits)
      qed
    qed
  qed
qed

section \<open>What the program resolves\<close>

definition program_maps ::
  "('s \<Rightarrow> bytes \<rightharpoonup> bytes) \<Rightarrow> ('c \<Rightarrow> bytes) \<Rightarrow> ('s, 'c) IdentitySynchronizer \<Rightarrow> identity_maps" where
  "program_maps vh vc s = \<lparr>identity_config_raw = Some (vc (ids_config s)),
     identity_v4 = vh (ids_ipv4_maps s ! 0), identity_v4_b = vh (ids_ipv4_maps s ! 1),
     identity_v6 = vh (ids_ipv6_maps s ! 0), identity_v6_b = vh (ids_ipv6_maps s ! 1)\<rparr>"

definition resolve_v4 :: "identity_maps \<Rightarrow> u32 \<Rightarrow> u32" where
  "resolve_v4 maps a = lookup_identity_v4 maps (be_bytes 4 a) (active_identity_config maps)"

definition resolve_v6 :: "identity_maps \<Rightarrow> u128 \<Rightarrow> u32" where
  "resolve_v6 maps a = lookup_identity_v6 maps (be_bytes 16 a) (active_identity_config maps)"

lemma current_identity_value:
  "current_identity config (if i = 0 then None else Some (identity_value i (imc_revision config))) = i"
  by (simp add: current_identity_def Let_def) (simp add: identity_map_value_new_def)

lemma active_config_encoded:
  assumes "encode_identity_config epoch revision n b = Ok raw" "epoch \<noteq> 0" "revision \<noteq> 0" "identity_config_raw maps = Some raw"
  shows "\<exists>config. active_identity_config maps = Some config \<and> imc_revision config = revision \<and>
    imc_active_bank config = b"
proof -
  note f = config_fields [OF assms(1) [unfolded encode_identity_config_def]]
  show ?thesis using assms(2-4) f by (simp add: active_identity_config_def identity_map_config_def Let_def)
qed

lemma bank_maps_choice:
  assumes "b < IDENTITY_BANK_COUNT"
  shows "(if b = 0 then identity_v4 (program_maps vh vc s) else identity_v4_b (program_maps vh vc s)) = vh (ids_ipv4_maps s ! unat b)"
    and "(if b = 0 then identity_v6 (program_maps vh vc s) else identity_v6_b (program_maps vh vc s)) = vh (ids_ipv6_maps s ! unat b)"
  using assms by (auto simp: small_bank(1) program_maps_def)

lemma lookup_bank:
  assumes "active_identity_config maps = Some config"
  shows "resolve_v4 maps a = current_identity config
      ((if imc_active_bank config = 0 then identity_v4 maps else identity_v4_b maps) (be_bytes 4 a))"
    and "resolve_v6 maps x = current_identity config
      ((if imc_active_bank config = 0 then identity_v6 maps else identity_v6_b maps) (be_bytes 16 x))"
  by (simp_all add: resolve_v4_def resolve_v6_def assms lookup_identity_v4_def lookup_identity_v6_def)

lemma resolve_published:
  assumes "encode_identity_config epoch revision n b = Ok (vc (ids_config s))" "epoch \<noteq> 0" "revision \<noteq> 0" "b < IDENTITY_BANK_COUNT"
    and "desired_ipv4_identity_entries ms4 revision = Ok d4" "vh (ids_ipv4_maps s ! unat b) = bt_get d4"
    and "desired_ipv6_identity_entries ms6 revision = Ok d6" "vh (ids_ipv6_maps s ! unat b) = bt_get d6"
  shows "resolve_v4 (program_maps vh vc s) a = mapped_identity ms4 a" "resolve_v6 (program_maps vh vc s) x = mapped_identity ms6 x"
proof -
  have "identity_config_raw (program_maps vh vc s) = Some (vc (ids_config s))" by (simp add: program_maps_def)
  from active_config_encoded [OF assms(1-3) this] obtain config where
    c: "active_identity_config (program_maps vh vc s) = Some config" "imc_revision config = revision" "imc_active_bank config = b"
    by blast
  show "resolve_v4 (program_maps vh vc s) a = mapped_identity ms4 a" "resolve_v6 (program_maps vh vc s) x = mapped_identity ms6 x"
    unfolding lookup_bank [OF c(1)] c(3) bank_maps_choice [OF assms(4)] assms(6,8) desired_identities(2) [OF assms(5)]
      desired_identities(4) [OF assms(7)] c(2) [symmetric] by (rule current_identity_value)+
qed

definition unpublished_identities :: "('c \<Rightarrow> bytes) \<Rightarrow> ('s, 'c) IdentitySynchronizer \<Rightarrow> bool" where
  "unpublished_identities vc s \<longleftrightarrow> vc (ids_config s) = replicate 24 0 \<and> ids_applied_epoch s = 0"

definition published_identities ::
  "('s \<Rightarrow> bytes \<rightharpoonup> bytes) \<Rightarrow> ('c \<Rightarrow> bytes) \<Rightarrow> ('s, 'c) IdentitySynchronizer \<Rightarrow> u64 \<Rightarrow> bool" where
  "published_identities vh vc s revision \<longleftrightarrow> ids_applied_epoch s \<noteq> 0 \<and> revision \<noteq> 0 \<and>
     encode_identity_config (ids_applied_epoch s) revision (identity_entry_count s) (ids_active_bank s) = Ok (vc (ids_config s)) \<and>
     exactly vh s (unat (ids_active_bank s)) \<and>
     (\<forall>v \<in> set (bt_values (ids_ipv4_banks s ! unat (ids_active_bank s)) @ bt_values (ids_ipv6_banks s ! unat (ids_active_bank s))).
        \<exists>i. i \<noteq> 0 \<and> v = identity_value i revision)"

text \<open>Nothing the program resolves changes while its configuration and the bank it names stay.\<close>

lemma unpublished_config: "vc (ids_config s) = replicate 24 0 \<Longrightarrow> active_identity_config (program_maps vh vc s) = None"
  by (simp add: active_identity_config_def program_maps_def identity_map_config_def Let_def field_def numeral_eq_Suc)

lemma resolve_same:
  assumes "vc (ids_config s') = vc (ids_config s)" "ids_active_bank s < IDENTITY_BANK_COUNT"
    and "unpublished_identities vc s \<or> published_identities vh vc s revision"
    and "vh (ids_ipv4_maps s' ! unat (ids_active_bank s)) = vh (ids_ipv4_maps s ! unat (ids_active_bank s))"
    and "vh (ids_ipv6_maps s' ! unat (ids_active_bank s)) = vh (ids_ipv6_maps s ! unat (ids_active_bank s))"
  shows "resolve_v4 (program_maps vh vc s') a = resolve_v4 (program_maps vh vc s) a"
    and "resolve_v6 (program_maps vh vc s') x = resolve_v6 (program_maps vh vc s) x"
proof -
  have cfg: "active_identity_config (program_maps vh vc s') = active_identity_config (program_maps vh vc s)"
    using assms(1) by (simp add: active_identity_config_def program_maps_def)
  have "resolve_v4 (program_maps vh vc s') a = resolve_v4 (program_maps vh vc s) a \<and>
    resolve_v6 (program_maps vh vc s') x = resolve_v6 (program_maps vh vc s) x"
  proof (cases "active_identity_config (program_maps vh vc s)")
    case None
    then show ?thesis by (simp add: cfg resolve_v4_def resolve_v6_def lookup_identity_v4_def lookup_identity_v6_def)
  next
    case (Some config)
    then have "\<not> unpublished_identities vc s" using unpublished_config by (force simp: unpublished_identities_def)
    then have "imc_active_bank config = ids_active_bank s"
      using assms(3) active_config_encoded [of "ids_applied_epoch s" revision _ _ "vc (ids_config s)" "program_maps vh vc s"] Some
      by (fastforce simp: published_identities_def program_maps_def)
    then show ?thesis
      by (simp only: lookup_bank [OF Some] lookup_bank [OF Some [folded cfg]] bank_maps_choice [OF assms(2)] assms(4,5))
  qed
  then show "resolve_v4 (program_maps vh vc s') a = resolve_v4 (program_maps vh vc s) a"
    "resolve_v6 (program_maps vh vc s') x = resolve_v6 (program_maps vh vc s) x" by auto
qed

section \<open>The invariant\<close>

definition valid_entry :: "bytes \<times> bytes \<Rightarrow> bool" where
  "valid_entry e \<longleftrightarrow> (\<exists>revision. validate_recovered_identity_value (snd e) = Ok revision)"

lemma validate_identity_value [simp]:
  "validate_recovered_identity_value (identity_value i revision) = Ok r \<longleftrightarrow> i \<noteq> 0 \<and> revision \<noteq> 0 \<and> r = revision"
proof -
  have "field (identity_value i revision) 0 4 = i" "field (identity_value i revision) 4 2 = IDENTITY_MAP_ABI_VERSION"
    "field (identity_value i revision) 6 2 = (0 :: u16)" "field (identity_value i revision) 8 8 = revision"
    using identity_value_decoded [of i revision] by (auto simp: identity_map_value_def identity_map_value_new_def)
  then show ?thesis by (auto simp: validate_recovered_identity_value_def Let_def)
qed

text \<open>
  Both banks are recorded exactly and every recorded entry is one recovery accepts; either nothing is
  published or the active bank holds one revision.
\<close>

definition identity_live :: "('s \<Rightarrow> bytes \<rightharpoonup> bytes) \<Rightarrow> ('c \<Rightarrow> bytes) \<Rightarrow> ('s, 'c) IdentitySynchronizer \<Rightarrow> bool" where
  "identity_live vh vc s \<longleftrightarrow> two_banked s \<and>
     (unpublished_identities vc s \<or> (\<exists>revision. published_identities vh vc s revision))"

definition identity_inv :: "('s \<Rightarrow> bytes \<rightharpoonup> bytes) \<Rightarrow> ('c \<Rightarrow> bytes) \<Rightarrow> ('s, 'c) IdentitySynchronizer \<Rightarrow> bool" where
  "identity_inv vh vc s \<longleftrightarrow> identity_live vh vc s \<and> (\<forall>b < 2. exactly vh s b \<and>
     list_all valid_entry (ids_ipv4_banks s ! b) \<and> list_all valid_entry (ids_ipv6_banks s ! b))"

lemma identity_invD:
  assumes "identity_inv vh vc s"
  shows "two_banked s" "identity_live vh vc s" "ids_active_bank s < IDENTITY_BANK_COUNT"
    and "b < 2 \<Longrightarrow> exactly vh s b" "b < 2 \<Longrightarrow> bt_ok (ids_ipv4_banks s ! b)" "b < 2 \<Longrightarrow> bt_ok (ids_ipv6_banks s ! b)"
  using assms by (auto simp: identity_inv_def identity_live_def two_banked_def list_all_length)

lemma mapped_values:
  assumes "try_fold (insert_identity_mapping octets revision) [] ms = Ok d"
  shows "\<forall>v \<in> set (bt_values d). \<exists>i. i \<noteq> 0 \<and> v = identity_value i revision"
    and "revision \<noteq> 0 \<Longrightarrow> list_all valid_entry d"
proof -
  have v: "\<exists>i. i \<noteq> 0 \<and> snd e = identity_value i revision" if "e \<in> set d" for e
    using mappings_foldD(5) [OF assms, of "fst e" "snd e"] bt_get_eq_Some [OF mappings_foldD(1) [OF assms], of "fst e" "snd e"]
      that by simp
  then show "\<forall>v \<in> set (bt_values d). \<exists>i. i \<noteq> 0 \<and> v = identity_value i revision" by (auto simp: bt_values_def)
  show "revision \<noteq> 0 \<Longrightarrow> list_all valid_entry d" using v by (fastforce simp: list_all_iff valid_entry_def)
qed

abbreviation spare_bank :: "('s, 'c) IdentitySynchronizer \<Rightarrow> u8" where
  "spare_bank s \<equiv> (ids_active_bank s + 1) mod IDENTITY_BANK_COUNT"

lemma spare_other:
  assumes "ids_active_bank s < IDENTITY_BANK_COUNT"
  shows "spare_bank s < IDENTITY_BANK_COUNT" "unat (spare_bank s) \<noteq> unat (ids_active_bank s)"
    "b < 2 \<Longrightarrow> b = unat (spare_bank s) \<or> b = unat (ids_active_bank s)"
  using assms by (auto simp: small_bank(1)) (simp_all add: IDENTITY_BANK_COUNT_def)

lemma list_all_update: "list_all P xs \<Longrightarrow> P x \<Longrightarrow> list_all P (xs[i := x])"
  using set_update_subset_insert [of xs i x] by (auto simp: list_all_iff)

lemma restore_exact:
  assumes "map_contract ops vh" "bt_ok previous" "restore_identity_entries ops previous s = (True, s')"
  shows "vh s' = bt_get previous"
  using restore_view [OF assms(1,2), where bank_of = "\<lambda>_. 0" and b = 0 and s = s] assms(3)
  by (simp add: restore_identity_eq fun_eq_iff)

lemma replace_exact:
  assumes "map_contract ops vh" "bt_ok desired" "vh s = bt_get previous"
    and "replace_identity_entries ops previous desired s = (True, s')"
  shows "vh s' = bt_get desired"
proof
  fix k
  have "bt_get previous k = None" if "k \<notin> fst ` set previous" using that dom_bt_get [of previous] by blast
  then show "vh s' k = bt_get desired k"
    using replace_view [OF assms(1,2), of previous s k] assms(3,4)
    by (auto simp: replace_identity_eq split: option.splits)
qed

text \<open>A publication that fails leaves all the program reads; if its rollback succeeds, everything.\<close>

lemma failed_publication:
  assumes "identity_contract os vh vc" "identity_inv vh vc s"
    and "apply_identity_entries os d4 d6 epoch revision (spare_bank s) s = (Err e, s')"
  shows "identity_live vh vc s'" "resolve_v4 (program_maps vh vc s') a = resolve_v4 (program_maps vh vc s) a"
    "resolve_v6 (program_maps vh vc s') x = resolve_v6 (program_maps vh vc s) x"
    "e \<noteq> StageRollbackFailed \<Longrightarrow> identity_inv vh vc s'"
proof -
  note inv = identity_invD [OF assms(2)] and spare = spare_other [OF identity_invD(3) [OF assms(2)]]
  obtain m4 m6 c where c: "c = ids_config s \<or> (\<exists>v. ic_set os v (ids_config s) = (False, c))"
    and s': "s' = s\<lparr>ids_ipv4_maps := (ids_ipv4_maps s)[unat (spare_bank s) := m4],
      ids_ipv6_maps := (ids_ipv6_maps s)[unat (spare_bank s) := m6], ids_config := c\<rparr>"
    and undo: "e = StageRollbackFailed \<or> e = StageRolledBack \<and>
      (\<exists>t4 t6. restore_identity_entries (ic_ops os) (ids_ipv4_banks s ! unat (spare_bank s)) t4 = (True, m4) \<and>
        restore_identity_entries (ic_ops os) (ids_ipv6_banks s ! unat (spare_bank s)) t6 = (True, m6))"
    by (rule apply_identity_cases [OF assms(3) spare(1) inv(1)]) auto
  have vc: "vc c = vc (ids_config s)" using c assms(1) by (auto simp: identity_contract_def)
  have active: "ids_ipv4_maps s' ! unat (ids_active_bank s) = ids_ipv4_maps s ! unat (ids_active_bank s)"
    "ids_ipv6_maps s' ! unat (ids_active_bank s) = ids_ipv6_maps s ! unat (ids_active_bank s)"
    using spare(2) by (simp_all add: s')
  obtain rev where pub: "unpublished_identities vc s \<or> published_identities vh vc s rev"
    using inv(2) by (auto simp: identity_live_def)
  have "unpublished_identities vc s' \<or> published_identities vh vc s' rev"
    using pub active vc by (simp add: s' unpublished_identities_def published_identities_def exactly_def identity_entry_count_def
      identity_entry_count_for_bank_def)
  moreover have "two_banked s'" using inv(1) by (simp add: s' two_banked_def)
  ultimately show live: "identity_live vh vc s'" by (auto simp: identity_live_def)
  show "resolve_v4 (program_maps vh vc s') a = resolve_v4 (program_maps vh vc s) a"
    "resolve_v6 (program_maps vh vc s') x = resolve_v6 (program_maps vh vc s) x"
    by (rule resolve_same [OF _ inv(3) pub]; use active vc in \<open>simp add: s'\<close>)+
  assume "e \<noteq> StageRollbackFailed"
  then obtain t4 t6 where t: "restore_identity_entries (ic_ops os) (ids_ipv4_banks s ! unat (spare_bank s)) t4 = (True, m4)"
      "restore_identity_entries (ic_ops os) (ids_ipv6_banks s ! unat (spare_bank s)) t6 = (True, m6)" using undo by auto
  have spare2: "unat (spare_bank s) < 2" by (rule small_bank(2) [OF spare(1)])
  have "map_contract (ic_ops os) vh" using assms(1) by (simp add: identity_contract_def)
  note exact = restore_exact [OF this inv(5) [OF spare2] t(1)] restore_exact [OF this inv(6) [OF spare2] t(2)]
  have "exactly vh s' b" if "b < 2" for b
    using inv(4) [OF that] exact spare(3) [OF that] active spare2 inv(1) unfolding exactly_def
    by (cases "b = unat (spare_bank s)") (auto simp: s' two_banked_def)
  then show "identity_inv vh vc s'" using live assms(2) by (auto simp: identity_inv_def s')
qed

text \<open>A publication that succeeds switches the program to the snapshot.\<close>

lemma applied_publication:
  assumes "identity_contract os vh vc" "identity_inv vh vc s" "epoch \<noteq> 0" "revision \<noteq> 0"
    and "desired_ipv4_identity_entries ms4 revision = Ok d4" "desired_ipv6_identity_entries ms6 revision = Ok d6"
    and "apply_identity_entries os d4 d6 epoch revision (spare_bank s) s = (Ok u, t)"
    and "s' = t\<lparr>ids_applied_epoch := epoch\<rparr>"
  shows "identity_inv vh vc s'" "published_identities vh vc s' revision"
    "resolve_v4 (program_maps vh vc s') a = mapped_identity ms4 a" "resolve_v6 (program_maps vh vc s') x = mapped_identity ms6 x"
proof -
  note inv = identity_invD [OF assms(2)] and spare = spare_other [OF identity_invD(3) [OF assms(2)]]
  let ?b = "unat (spare_bank s)"
  have b2: "?b < 2" by (rule small_bank(2) [OF spare(1)])
  note d = desired_identities(1) [OF assms(5)] desired_identities(3) [OF assms(6)]
  have contract: "map_contract (ic_ops os) vh" "\<And>v c c'. ic_set os v c = (True, c') \<Longrightarrow> vc c' = v"
    using assms(1) by (auto simp: identity_contract_def)
  obtain m4 m6 c config where
    m: "replace_identity_entries (ic_ops os) (ids_ipv4_banks s ! ?b) d4 (ids_ipv4_maps s ! ?b) = (True, m4)"
      "replace_identity_entries (ic_ops os) (ids_ipv6_banks s ! ?b) d6 (ids_ipv6_maps s ! ?b) = (True, m6)"
    and enc: "encode_identity_config epoch revision (length d4 + length d6) (spare_bank s) = Ok config"
    and c: "ic_set os config (ids_config s) = (True, c)"
    and t: "t = s\<lparr>ids_ipv4_maps := (ids_ipv4_maps s)[?b := m4], ids_ipv6_maps := (ids_ipv6_maps s)[?b := m6], ids_config := c,
      ids_ipv4_banks := (ids_ipv4_banks s)[?b := d4], ids_ipv6_banks := (ids_ipv6_banks s)[?b := d6],
      ids_active_bank := spare_bank s\<rparr>"
    by (rule apply_identity_cases [OF assms(7) spare(1) inv(1)]) auto
  have views: "vh m4 = bt_get d4" "vh m6 = bt_get d6"
    using replace_exact [OF contract(1) d(1) _ m(1)] replace_exact [OF contract(1) d(2) _ m(2)] inv(4) [OF b2]
    by (simp_all add: exactly_def)
  have len: "?b < length (ids_ipv4_maps s)" "?b < length (ids_ipv6_maps s)" "?b < length (ids_ipv4_banks s)"
    "?b < length (ids_ipv6_banks s)" using inv(1) b2 by (simp_all add: two_banked_def)
  have vc: "vc (ids_config s') = config" using contract(2) [OF c] by (simp add: assms(8) t)
  note values4 = mapped_values [OF assms(5) [unfolded desired_ipv4_identity_entries_def]]
    and values6 = mapped_values [OF assms(6) [unfolded desired_ipv6_identity_entries_def]]
  have exact: "exactly vh s' ?b" using views len by (simp add: exactly_def assms(8) t)
  show pub: "published_identities vh vc s' revision"
    using exact vc enc assms(3,4) values4(1) values6(1) len
    by (auto simp: published_identities_def assms(8) t identity_entry_count_def identity_entry_count_for_bank_def)
  have "two_banked s'" using inv(1) spare(1) d
    by (simp add: assms(8) t two_banked_def list_all_update)
  moreover have "exactly vh s' b" if "b < 2" for b
    using exact inv(4) [OF that] by (cases "b = ?b") (simp_all add: exactly_def assms(8) t)
  moreover have "list_all valid_entry (ids_ipv4_banks s' ! b) \<and> list_all valid_entry (ids_ipv6_banks s' ! b)" if "b < 2" for b
    using values4(2) [OF assms(4)] values6(2) [OF assms(4)] assms(2) that len
    by (cases "b = ?b") (simp_all add: identity_inv_def assms(8) t)
  ultimately show "identity_inv vh vc s'" using pub by (auto simp: identity_inv_def identity_live_def)
  have "encode_identity_config epoch revision (length d4 + length d6) (spare_bank s) = Ok (vc (ids_config s'))"
    by (simp only: vc enc)
  note resolved = resolve_published [where vc = vc and s = s', OF this assms(3,4) spare(1) assms(5) _ assms(6)]
  show "resolve_v4 (program_maps vh vc s') a = mapped_identity ms4 a" "resolve_v6 (program_maps vh vc s') x = mapped_identity ms6 x"
    by (rule resolved; use views len in \<open>simp add: assms(8) t\<close>)+
qed

text \<open>The outcomes of one synchronization.\<close>

lemma map_identity_error_Ok [simp]: "map_identity_error r = Ok v \<longleftrightarrow> r = Ok v"
  by (auto simp: map_identity_error_def split: sum.splits)

lemma synchronize_identity_cases:
  assumes "synchronize_identities os locality fetched (s, st) = (r, s', st')"
  obtains
    (kept) "s' = s" "applied_identity_revision st' = applied_identity_revision st"
      "r = Ok () \<Longrightarrow> \<exists>snapshot. fetched = Some snapshot \<and> ids_source_epoch snapshot = ids_applied_epoch s \<and>
         ids_revision snapshot = applied_identity_revision st"
  | (failed) e snapshot d4 d6 where "r = Err (IdentityPublicationFailed e)" "fetched = Some snapshot"
      "apply_identity_entries os d4 d6 (ids_source_epoch snapshot) (ids_revision snapshot) (spare_bank s) s = (Err e, s')"
      "applied_identity_revision st' = applied_identity_revision st"
  | (published) snapshot d4 d6 u t where "fetched = Some snapshot"
      "desired_ipv4_identity_entries (ids_ipv4_entries snapshot) (ids_revision snapshot) = Ok d4"
      "desired_ipv6_identity_entries (ids_ipv6_entries snapshot) (ids_revision snapshot) = Ok d6"
      "apply_identity_entries os d4 d6 (ids_source_epoch snapshot) (ids_revision snapshot) (spare_bank s) s = (Ok u, t)"
      "s' = t\<lparr>ids_applied_epoch := ids_source_epoch snapshot\<rparr>" "r \<noteq> Err (IdentityPublicationFailed StageRollbackFailed)"
      "r = Ok () \<Longrightarrow> applied_identity_revision st' = ids_revision snapshot"
proof -
  note run = assms [unfolded synchronize_identities_def prod.case Let_def]
  show thesis
  proof (cases fetched)
    case None
    then show thesis using run by (intro kept) auto
  next
    case (Some snapshot)
    let ?epoch = "ids_source_epoch snapshot" and ?revision = "ids_revision snapshot"
    show thesis
    proof (cases "ids_schema_version snapshot \<noteq> IDENTITY_SNAPSHOT_SCHEMA_VERSION \<or>
        ?epoch = ids_applied_epoch s \<and> ?revision \<le> applied_identity_revision st")
      case True
      then show thesis using run Some by (intro kept) (auto split: if_splits)
    next
      case False
      then have skip: "\<not> ids_schema_version snapshot \<noteq> IDENTITY_SNAPSHOT_SCHEMA_VERSION"
        "\<not> (?epoch = ids_applied_epoch s \<and> ?revision = applied_identity_revision st)"
        "\<not> (?epoch = ids_applied_epoch s \<and> ?revision < applied_identity_revision st)" by auto
      note run = run [unfolded Some option.case if_not_P [OF skip(1)]]
      let ?d = "rbind (map_identity_error (desired_ipv4_identity_entries (ids_ipv4_entries snapshot) ?revision)) (\<lambda>d4.
        rbind (map_identity_error (desired_ipv6_identity_entries (ids_ipv6_entries snapshot) ?revision)) (\<lambda>d6.
        if loc_begin locality then Ok (d4, d6) else Err LocalityRefused))"
      show thesis
      proof (cases ?d)
        case (Inl e)
        then show thesis using run skip(2,3) by (intro kept) (auto split: if_splits)
      next
        case (Inr d)
        obtain d4 d6 where d: "d = (d4, d6)" by (cases d)
        have desired: "desired_ipv4_identity_entries (ids_ipv4_entries snapshot) ?revision = Ok d4"
          "desired_ipv6_identity_entries (ids_ipv6_entries snapshot) ?revision = Ok d6"
          using Inr by (auto simp: d res_simps split: if_splits)
        obtain q t where q: "apply_identity_entries os d4 d6 ?epoch ?revision (spare_bank s) s = (q, t)" by fastforce
        show thesis
        proof (cases q)
          case (Inl e)
          then show thesis using run skip(2,3) \<open>?d = Ok d\<close> d q Some by (intro failed) (auto split: if_splits)
        next
          case (Inr u)
          let ?c = "rbind (validate_applied_identity_config os (t\<lparr>ids_applied_epoch := ?epoch\<rparr>) ?epoch ?revision)
            (\<lambda>_. if loc_complete locality then Ok () else Err LocalityRefused)"
          have "?c \<noteq> Err (IdentityPublicationFailed StageRollbackFailed)"
            by (auto simp: validate_applied_identity_config_def split: sum.splits)
          then show thesis using run skip(2,3) \<open>?d = Ok d\<close> d q Inr
            by (intro published [OF Some desired, of u t]; cases ?c) (auto split: if_splits)
        qed
      qed
    qed
  qed
qed

lemma never_rejected:
  assumes "synchronize_identities os locality (Some snapshot) (s, st) = (r, s', st')"
    and "desired_ipv4_identity_entries (ids_ipv4_entries snapshot) (ids_revision snapshot) = Ok d4"
    and "desired_ipv6_identity_entries (ids_ipv6_entries snapshot) (ids_revision snapshot) = Ok d6"
  shows "r \<noteq> Err (InvalidIdentitySnapshot e)"
proof -
  have check: "validate_applied_identity_config os s epoch revision \<noteq> Err (InvalidIdentitySnapshot e)" for s epoch revision
    by (simp add: validate_applied_identity_config_def split: sum.splits)
  then have "revalidate_locality_identities os locality s epoch revision \<noteq> Err (InvalidIdentitySnapshot e)" for epoch revision
    by (auto simp: revalidate_locality_identities_def Let_def res_simps split: option.splits bool.splits)
  then show ?thesis using assms check
    by (fastforce simp: synchronize_identities_def Let_def map_identity_error_def res_simps split: if_splits sum.splits prod.splits)
qed

section \<open>Snapshots of the registry\<close>

lemma mappings_accepted:
  assumes "distinct (map map_address ms)" "inj octets" "\<forall>m \<in> set ms. map_identity_id m \<noteq> 0"
    and "bt_ok d" "\<forall>m \<in> set ms. bt_get d (octets (map_address m)) = None"
  shows "\<exists>d'. try_fold (insert_identity_mapping octets revision) d ms = Ok d'"
  using assms(1,3-5)
proof (induction ms arbitrary: d)
  case (Cons m ms)
  let ?d = "bt_insert (octets (map_address m)) (identity_value (map_identity_id m) revision) d"
  have step: "insert_identity_mapping octets revision d m = Ok ?d" using Cons.prems by (simp add: insert_mapping_Ok)
  have "octets (map_address n) \<noteq> octets (map_address m)" if "n \<in> set ms" for n
    using Cons.prems(1) that inj_eq [OF assms(2)] by (metis distinct.simps(2) imageI list.simps(9) list.set_map)
  then have "\<exists>d'. try_fold (insert_identity_mapping octets revision) ?d ms = Ok d'"
    using Cons.prems by (intro Cons.IH) (simp_all add: bt_ok_insert bt_get_insert)
  then show ?case using step by simp
qed simp

lemma snapshot_nonzero:
  assumes "registry_ok r"
  shows "m \<in> set (ids_ipv4_entries (identity_snapshot epoch r)) \<Longrightarrow> map_identity_id m \<noteq> 0"
    and "n \<in> set (ids_ipv6_entries (identity_snapshot epoch r)) \<Longrightarrow> map_identity_id n \<noteq> 0"
  using snapshot_entries [OF assms] bound_identity_nonzero [OF assms] by blast+

lemma snapshot_accepted:
  assumes "registry_ok r"
  shows "\<exists>d. desired_ipv4_identity_entries (ids_ipv4_entries (identity_snapshot epoch r)) revision = Ok d"
    and "\<exists>d. desired_ipv6_identity_entries (ids_ipv6_entries (identity_snapshot epoch r)) revision = Ok d"
  unfolding desired_ipv4_identity_entries_def desired_ipv6_identity_entries_def
  by (rule mappings_accepted; use snapshot_distinct [OF assms] snapshot_nonzero [OF assms] be_bytes_inj in \<open>simp add: bt_get_def\<close>)+

definition resolved_identity :: "IdentityRegistry \<Rightarrow> IpAddr \<Rightarrow> u32" where
  "resolved_identity r a = (case identity_for_ip r a of Some i \<Rightarrow> i | None \<Rightarrow> 0)"

lemma mapped_identity_set:
  assumes "distinct (map map_address ms)"
  shows "m \<in> set ms \<Longrightarrow> mapped_identity ms (map_address m) = map_identity_id m"
    and "a \<notin> map_address ` set ms \<Longrightarrow> mapped_identity ms a = 0"
proof -
  show "m \<in> set ms \<Longrightarrow> mapped_identity ms (map_address m) = map_identity_id m"
    using assms unfolding mapped_identity_def by (induction ms) (auto simp: image_iff)
  assume "a \<notin> map_address ` set ms"
  then have "find (\<lambda>m. map_address m = a) ms = None" by (auto simp: find_None_iff)
  then show "mapped_identity ms a = 0" by (simp add: mapped_identity_def)
qed

lemma registry_lookup:
  assumes "registry_ok r"
  shows "identity_for_ip r a = Some i \<longleftrightarrow> (\<exists>p as. bindings r p = Some (i, as) \<and> a \<in> as)"
  using registry_okD(4) [OF assms] by (auto simp: identity_for_ip_def)

lemma registry_mapped:
  assumes "registry_ok r"
  shows "mapped_identity (ids_ipv4_entries (identity_snapshot epoch r)) a = resolved_identity r (V4 a)"
    and "mapped_identity (ids_ipv6_entries (identity_snapshot epoch r)) x = resolved_identity r (V6 x)"
proof -
  note e = snapshot_entries [OF assms, where epoch = epoch, folded registry_lookup [OF assms]]
    and d = snapshot_distinct [OF assms, of epoch]
  show "mapped_identity (ids_ipv4_entries (identity_snapshot epoch r)) a = resolved_identity r (V4 a)"
  proof (cases "identity_for_ip r (V4 a)")
    case None
    then have "a \<notin> map_address ` set (ids_ipv4_entries (identity_snapshot epoch r))" by (auto simp: e(1))
    then show ?thesis using mapped_identity_set(2) [OF d(1)] None by (simp add: resolved_identity_def)
  next
    case (Some i)
    then have "\<lparr>map_address = a, map_identity_id = i\<rparr> \<in> set (ids_ipv4_entries (identity_snapshot epoch r))" by (simp add: e(1))
    from mapped_identity_set(1) [OF d(1) this] show ?thesis using Some by (simp add: resolved_identity_def)
  qed
  show "mapped_identity (ids_ipv6_entries (identity_snapshot epoch r)) x = resolved_identity r (V6 x)"
  proof (cases "identity_for_ip r (V6 x)")
    case None
    then have "x \<notin> map_address ` set (ids_ipv6_entries (identity_snapshot epoch r))" by (auto simp: e(2))
    then show ?thesis using mapped_identity_set(2) [OF d(2)] None by (simp add: resolved_identity_def)
  next
    case (Some i)
    then have "\<lparr>map_address = x, map_identity_id = i\<rparr> \<in> set (ids_ipv6_entries (identity_snapshot epoch r))" by (simp add: e(2))
    from mapped_identity_set(1) [OF d(2) this] show ?thesis using Some by (simp add: resolved_identity_def)
  qed
qed

section \<open>Properties\<close>

definition empty_identities :: "bool list \<Rightarrow> ((bytes \<times> bytes) list \<times> bool list, bytes) IdentitySynchronizer" where
  "empty_identities oks = \<lparr>ids_ipv4_maps = [([], []), ([], oks)], ids_ipv6_maps = [([], []), ([], [])],
     ids_config = replicate 24 0, ids_ipv4_banks = [[], []], ids_ipv6_banks = [[], []], ids_active_bank = 0,
     ids_applied_epoch = 0\<rparr>"

definition new_identity_state :: AgentIdentityState where
  "new_identity_state = \<lparr>desired_identity_epoch = 0, desired_identity_revision = 0, applied_identity_epoch = 0,
     applied_identity_revision = 0, identity_map_entries = 0, ipv4_identity_map_entries = 0, ipv6_identity_map_entries = 0\<rparr>"

definition list_calls :: "((bytes \<times> bytes) list \<times> bool list, bytes) identity_calls" where
  "list_calls = \<lparr>ic_ops = flaky_ops, ic_set = (\<lambda>v c. (True, v)), ic_get = Some, ic_iter = (\<lambda>m. map Some (fst m))\<rparr>"

definition no_locality :: locality_answers where
  "no_locality = \<lparr>loc_is_applied = Some True, loc_begin = True, loc_complete = True\<rparr>"

lemma list_calls_contract: "identity_contract list_calls scheduled_view (\<lambda>c. c)"
  by (simp add: identity_contract_def list_calls_def flaky_contract)

lemma empty_identities_inv: "identity_inv scheduled_view (\<lambda>c. c) (empty_identities oks)"
  by (auto simp: identity_inv_def identity_live_def two_banked_def exactly_def unpublished_identities_def empty_identities_def
      scheduled_view_def less_2_cases_iff bt_get_def IDENTITY_BANK_COUNT_def fun_eq_iff)


lemma two_pods_applied:
  "fst (synchronize_identities list_calls no_locality (Some (identity_snapshot 9 two_pods)) (empty_identities [], new_identity_state)) = Ok ()"
  by code_simp




section \<open>Restart\<close>

text \<open>The synchronizer a restarted agent opens on the pinned maps.\<close>

definition restarted_identities :: "('s, 'c) IdentitySynchronizer \<Rightarrow> ('s, 'c) IdentitySynchronizer" where
  "restarted_identities s = s\<lparr>ids_ipv4_banks := [[], []], ids_ipv6_banks := [[], []], ids_active_bank := 0, ids_applied_epoch := 0\<rparr>"

definition identity_reads :: "('s, 'c) identity_calls \<Rightarrow> ('s \<Rightarrow> bytes \<rightharpoonup> bytes) \<Rightarrow> ('c \<Rightarrow> bytes) \<Rightarrow> ('s, 'c) IdentitySynchronizer \<Rightarrow> bool" where
  "identity_reads os vh vc s \<longleftrightarrow> ic_get os (ids_config s) = Some (vc (ids_config s)) \<and>
     (\<forall>b < 2. iterates (ic_iter os (ids_ipv4_maps s ! b)) (vh (ids_ipv4_maps s ! b)) \<and>
       iterates (ic_iter os (ids_ipv6_maps s ! b)) (vh (ids_ipv6_maps s ! b)))"

lemma recover_bank:
  assumes "iterates xs (bt_get d)" "bt_ok d" "list_all valid_entry d"
  shows "recover_identity_bank xs [] = Ok d"
proof -
  from assms(1) obtain es where es: "xs = map Some es" "distinct (map fst es)" "map_of es = bt_get d" by (auto simp: iterates_def)
  have "valid_entry e" if "e \<in> set es" for e
  proof -
    have "bt_get d (fst e) = Some (snd e)" using that es(2) unfolding es(3) [symmetric] by simp
    then have "e \<in> set d" using bt_get_eq_Some [OF assms(2)] by simp
    then show ?thesis using assms(3) by (simp add: list_all_iff)
  qed
  then have "try_fold (\<lambda>bank (key, value). rbind (map_recovery_error InvalidEntry (validate_recovered_identity_value value))
      (\<lambda>_. Ok (bt_insert key value bank))) m es = Ok (fold (\<lambda>(k, v). bt_insert k v) es m)" for m
  proof (induction es arbitrary: m)
    case (Cons e es)
    from Cons.prems [of e] obtain revision where "validate_recovered_identity_value (snd e) = Ok revision"
      by (auto simp: valid_entry_def)
    then show ?case using Cons by (cases e) (simp add: map_recovery_error_def)
  qed simp
  moreover have "fold (\<lambda>(k, v). bt_insert k v) es [] = d"
    using fold_bt_insert [OF bt_ok_Nil es(2)] es(3) by (intro bt_ext [OF _ assms(2)]) (auto simp: fun_eq_iff bt_get_def [of "[]"])
  ultimately show ?thesis by (simp add: recover_identity_bank_def es(1) comp_def list_all_iff)
qed

lemma two_elements: "length xs = 2 \<Longrightarrow> [xs ! 0, xs ! 1] = xs"
  by (cases xs; cases "tl xs") auto

lemma config_read_back:
  assumes "encode_map_config epoch revision entry_count schema bank banks = Ok config" "epoch \<noteq> 0" "revision \<noteq> 0"
  shows "decode_recovered_config config schema banks = Ok (Some (epoch, revision, of_nat entry_count, bank))"
proof -
  note f = config_fields [OF assms(1)]
  have "field (replicate 24 0) 0 8 = (0 :: u64)" by (simp add: field_def numeral_eq_Suc)
  then have "config \<noteq> replicate 24 0" using f(2) assms(2) by auto
  then show ?thesis using f assms(2,3) by (simp add: decode_recovered_config_def)
qed

lemma recovered_identity_banks:
  assumes "identity_inv vh vc s" "identity_reads os vh vc s"
  shows "recover_identity_entries os (restarted_identities s) = Ok (s\<lparr>ids_active_bank := 0, ids_applied_epoch := 0\<rparr>)"
proof -
  have bank: "recover_identity_bank (ic_iter os (ids_ipv4_maps s ! b)) [] = Ok (ids_ipv4_banks s ! b)"
    "recover_identity_bank (ic_iter os (ids_ipv6_maps s ! b)) [] = Ok (ids_ipv6_banks s ! b)" if "b < 2" for b
    by (rule recover_bank; use assms identity_invD(4-6) [OF assms(1) that] that in
      \<open>simp add: identity_inv_def identity_reads_def exactly_def\<close>)+
  have two: "[ids_ipv4_banks s ! 0, ids_ipv4_banks s ! 1] = ids_ipv4_banks s" "[ids_ipv6_banks s ! 0, ids_ipv6_banks s ! 1] = ids_ipv6_banks s"
    by (rule two_elements; use identity_invD(1) [OF assms(1)] in \<open>simp add: two_banked_def\<close>)+
  have "[0..<unat IDENTITY_BANK_COUNT] = [0, 1]" by (simp add: IDENTITY_BANK_COUNT_def upt_rec)
  then show ?thesis using bank [of 0] bank [of 1] two
    by (simp add: recover_identity_entries_def restarted_identities_def)
qed

lemma active_revision_valid:
  assumes "\<forall>v \<in> set vs. \<exists>i. i \<noteq> 0 \<and> v = identity_value i revision" "revision \<noteq> 0"
  shows "try_fold (\<lambda>_ value. rbind (map_recovery_error InvalidEntry (validate_recovered_identity_value value)) (\<lambda>entry_revision.
       if entry_revision \<noteq> revision then Err MixedRevision else Ok ())) () vs = Ok ()"
  using assms(1)
proof (induction vs)
  case (Cons v vs)
  then obtain i where "i \<noteq> 0" "v = identity_value i revision" by auto
  then have "validate_recovered_identity_value v = Ok revision" using assms(2) by simp
  then show ?case using Cons by (simp add: map_recovery_error_def)
qed simp



section \<open>Interrupted publications\<close>

definition address_snapshot :: "u64 \<Rightarrow> u64 \<Rightarrow> (u32 \<times> u32) list \<Rightarrow> IdentityStateSnapshot" where
  "address_snapshot epoch revision addresses = \<lparr>ids_schema_version = IDENTITY_SNAPSHOT_SCHEMA_VERSION, ids_source_epoch = epoch,
     ids_revision = revision, ids_ipv4_entries = map (\<lambda>(a, i). \<lparr>map_address = a, map_identity_id = i\<rparr>) addresses, ids_ipv6_entries = []\<rparr>"



end
