(* ===== verification/Network_Policy.thy ===== *)
theory Network_Policy
  imports Policy_Encoding Policy_Snapshot
begin

text \<open>
  The compiler of Kubernetes \<open>NetworkPolicy\<close> objects (\<^verbatim>\<open>crates/unf-policy/src/network_policy.rs\<close>): policy
  types, peers, address blocks and ports to the intermediate representation.  The records below are the
  fields of the Kubernetes objects that the compiler reads.
\<close>

section \<open>Kubernetes objects\<close>

datatype IntOrString = PortNumber int | PortName string

record LabelSelectorRequirement =
  req_key :: string
  req_operator :: string
  req_values :: "string list option"

record LabelSelector =
  ls_match_labels :: "labels option"
  ls_match_expressions :: "LabelSelectorRequirement list option"

record IPBlock =
  ipb_cidr :: string
  ipb_except :: "string list option"

record NetworkPolicyPeer =
  peer_ip_block :: "IPBlock option"
  peer_namespace_selector :: "LabelSelector option"
  peer_pod_selector :: "LabelSelector option"

record NetworkPolicyPort =
  npp_protocol :: "string option"
  npp_port :: "IntOrString option"
  npp_end_port :: "int option"

text \<open>Ingress and egress rules have the same shape: peers and ports.\<close>

record NetworkPolicyRule =
  npr_peers :: "NetworkPolicyPeer list option"
  npr_ports :: "NetworkPolicyPort list option"

record NetworkPolicySpec =
  nps_pod_selector :: "LabelSelector option"
  nps_policy_types :: "string list option"
  nps_ingress :: "NetworkPolicyRule list option"
  nps_egress :: "NetworkPolicyRule list option"

record NetworkPolicy =
  np_name :: "string option"
  np_namespace :: "string option"
  np_spec :: "NetworkPolicySpec option"

section \<open>Limits and errors\<close>

definition KUBERNETES_NETWORK_POLICY_MAX_PORT_RANGE_WIDTH :: nat where
  "KUBERNETES_NETWORK_POLICY_MAX_PORT_RANGE_WIDTH = 1024"

definition KUBERNETES_NETWORK_POLICY_MAX_IPV6_IP_BLOCK_PREFIXES :: nat where
  "KUBERNETES_NETWORK_POLICY_MAX_IPV6_IP_BLOCK_PREFIXES = 1024"

definition NAMESPACE_NAME_LABEL :: string where
  "NAMESPACE_NAME_LABEL = ''kubernetes.io/metadata.name''"

datatype NetworkPolicyCompileError =
    NpMissingName
  | NpMissingNamespace
  | NpMissingSpec
  | UnsupportedEgress
  | UnsupportedPolicyType string
  | InvalidMatchExpressionOperator string string string
  | InvalidMatchExpressionValues string string string
  | InvalidIpBlockPeerCombination nat nat
  | InvalidIpBlockCidr nat nat string
  | IpBlockExceptOutsideCidr nat nat string string
  | IpBlockTooLarge nat nat nat
  | Ipv6IpBlockTooManyPrefixes nat nat nat
  | IpBlockContainsReservedAddress nat nat
  | InvalidNamedPort nat nat
  | InvalidNamedPortRange nat nat
  | InvalidPortRange nat nat int int
  | PortRangeTooLarge nat nat nat
  | UnsupportedProtocol nat nat string
  | NpInvalidPort nat nat int
  | NpTooManyRules

section \<open>Selectors\<close>

definition default_selector :: IdentitySelector where
  "default_selector = \<lparr>sel_namespace = None, sel_namespace_match_labels = [], sel_namespace_match_expressions = [],
     sel_service_account = None, sel_application = None, sel_match_labels = [], sel_match_expressions = [],
     sel_ipv4_blocks = [], sel_ipv6_blocks = []\<rparr>"

definition label_expression :: "string \<Rightarrow> LabelSelectorRequirement \<Rightarrow> (NetworkPolicyCompileError, LabelExpression) res" where
  "label_expression fld requirement =
     (let values = set (case req_values requirement of None \<Rightarrow> [] | Some vs \<Rightarrow> vs);
          expression = (\<lambda>operator. \<lparr>expr_key = req_key requirement, expr_operator = operator, expr_values = values\<rparr>)
      in if req_operator requirement = ''In'' \<and> values \<noteq> {} then Ok (expression In)
         else if req_operator requirement = ''NotIn'' \<and> values \<noteq> {} then Ok (expression NotIn)
         else if req_operator requirement = ''Exists'' \<and> values = {} then Ok (expression Exists)
         else if req_operator requirement = ''DoesNotExist'' \<and> values = {} then Ok (expression DoesNotExist)
         else if req_operator requirement \<in> {''In'', ''NotIn'', ''Exists'', ''DoesNotExist''}
         then Err (InvalidMatchExpressionValues fld (req_key requirement) (req_operator requirement))
         else Err (InvalidMatchExpressionOperator fld (req_key requirement) (req_operator requirement)))"

text \<open>The set of expressions in the order of \<open>LabelExpression\<close>: key, operator, values.\<close>

fun operator_rank :: "LabelExpressionOperator \<Rightarrow> nat" where
  "operator_rank In = 0"
| "operator_rank NotIn = 1"
| "operator_rank Exists = 2"
| "operator_rank DoesNotExist = 3"

definition expression_set :: "LabelExpression list \<Rightarrow> LabelExpression list" where
  "expression_set es = sort_key (\<lambda>e. (expr_key e, operator_rank (expr_operator e), sorted_list_of_set (expr_values e))) (remdups es)"

definition match_expressions :: "string \<Rightarrow> LabelSelector \<Rightarrow> (NetworkPolicyCompileError, LabelExpression list) res" where
  "match_expressions fld selector =
     rbind (try_map (label_expression fld) (case ls_match_expressions selector of None \<Rightarrow> [] | Some rs \<Rightarrow> rs))
       (\<lambda>es. Ok (expression_set es))"

definition selector_labels :: "LabelSelector \<Rightarrow> labels" where
  "selector_labels selector = (case ls_match_labels selector of None \<Rightarrow> [] | Some ls \<Rightarrow> ls)"

definition pod_identity_selector ::
  "LabelSelector \<Rightarrow> string option \<Rightarrow> string \<Rightarrow> (NetworkPolicyCompileError, IdentitySelector) res" where
  "pod_identity_selector selector namespace fld =
     rbind (match_expressions fld selector) (\<lambda>es.
     Ok (default_selector\<lparr>sel_namespace := namespace, sel_match_labels := selector_labels selector, sel_match_expressions := es\<rparr>))"

definition namespace_identity_selector ::
  "LabelSelector \<Rightarrow> (NetworkPolicyCompileError, string option \<times> labels \<times> LabelExpression list) res" where
  "namespace_identity_selector selector =
     rbind (match_expressions ''peer namespaceSelector'' selector) (\<lambda>es.
     Ok (bt_get (selector_labels selector) NAMESPACE_NAME_LABEL, bt_remove NAMESPACE_NAME_LABEL (selector_labels selector), es))"

section \<open>Address blocks\<close>

definition parse_ipv4_cidr :: "string \<Rightarrow> Ipv4Cidr option" where
  "parse_ipv4_cidr value =
     Option.bind (split_once (CHR ''/'') value) (\<lambda>(address, prefix_len).
     Option.bind (parse_ipv4 address) (\<lambda>address.
     Option.bind (parse_u8 prefix_len) (\<lambda>prefix_len.
     if prefix_len > 32 then None else
     let msk = (if prefix_len = 0 then 0 else push_bit (32 - unat prefix_len) (- 1))
     in Some (Ipv4Cidr (address AND msk) prefix_len))))"

definition parse_ipv6_cidr :: "string \<Rightarrow> Ipv6Cidr option" where
  "parse_ipv6_cidr value =
     Option.bind (split_once (CHR ''/'') value) (\<lambda>(address, prefix_len).
     Option.bind (parse_ipv6 address) (\<lambda>address.
     Option.bind (parse_u8 prefix_len) (\<lambda>prefix_len.
     if prefix_len > 128 then None else
     let msk = (if prefix_len = 0 then 0 else push_bit (128 - unat prefix_len) (- 1))
     in Some (Ipv6Cidr (address AND msk) prefix_len))))"

text \<open>One \<open>except\<close> entry of a block.\<close>

definition except_cidr ::
  "(string \<Rightarrow> 'c option) \<Rightarrow> ('c \<Rightarrow> bool) \<Rightarrow> nat \<Rightarrow> nat \<Rightarrow> string \<Rightarrow> string \<Rightarrow> (NetworkPolicyCompileError, 'c) res" where
  "except_cidr parse inside rule_index peer_index cidr_text except_text =
     (case parse except_text of
        None \<Rightarrow> Err (InvalidIpBlockCidr rule_index peer_index except_text)
      | Some except \<Rightarrow> if \<not> inside except then Err (IpBlockExceptOutsideCidr rule_index peer_index cidr_text except_text)
          else Ok except)"

definition validate_global_ipv4_exceptions ::
  "Ipv4Cidr \<Rightarrow> Ipv4Cidr list \<Rightarrow> nat \<Rightarrow> nat \<Rightarrow> (NetworkPolicyCompileError, unit) res" where
  "validate_global_ipv4_exceptions cidr except rule_index peer_index =
     (if prefix_len4 cidr \<noteq> 0 then Ok () else
      let address_count = sum_list (map cidr4_address_count except) in
      if address_count < 2 ^ 64 \<and> address_count \<le> KUBERNETES_NETWORK_POLICY_MAX_IP_BLOCK_ADDRESSES then Ok ()
      else Err (IpBlockTooLarge rule_index peer_index (if address_count < 2 ^ 64 then address_count else 2 ^ 64 - 1)))"

definition ip_block_selector :: "IPBlock \<Rightarrow> nat \<Rightarrow> nat \<Rightarrow> (NetworkPolicyCompileError, IdentitySelector) res" where
  "ip_block_selector ip_block rule_index peer_index =
     (let cidr_text = ipb_cidr ip_block; excepts = (case ipb_except ip_block of None \<Rightarrow> [] | Some es \<Rightarrow> es) in
      case parse_ipv6_cidr cidr_text of
        Some cidr \<Rightarrow>
          rbind (try_map (except_cidr parse_ipv6_cidr (cidr6_contains_cidr cidr) rule_index peer_index cidr_text) excepts) (\<lambda>except.
          let except = btree_set except; prefix_count = 1 + length except in
          if prefix_count > KUBERNETES_NETWORK_POLICY_MAX_IPV6_IP_BLOCK_PREFIXES
          then Err (Ipv6IpBlockTooManyPrefixes rule_index peer_index prefix_count)
          else Ok (default_selector\<lparr>sel_ipv6_blocks := [\<lparr>block6_cidr = cidr, block6_except = except\<rparr>]\<rparr>))
      | None \<Rightarrow>
        (case parse_ipv4_cidr cidr_text of
           None \<Rightarrow> Err (InvalidIpBlockCidr rule_index peer_index cidr_text)
         | Some cidr \<Rightarrow>
           if prefix_len4 cidr \<noteq> 0 \<and> cidr4_contains cidr 0 then Err (IpBlockContainsReservedAddress rule_index peer_index)
           else if prefix_len4 cidr \<noteq> 0 \<and> cidr4_address_count cidr > KUBERNETES_NETWORK_POLICY_MAX_IP_BLOCK_ADDRESSES
           then Err (IpBlockTooLarge rule_index peer_index (cidr4_address_count cidr)) else
           rbind (try_map (except_cidr parse_ipv4_cidr (cidr4_contains_cidr cidr) rule_index peer_index cidr_text) excepts) (\<lambda>except.
           let except = btree_set except in
           rbind (validate_global_ipv4_exceptions cidr except rule_index peer_index) (\<lambda>_.
           Ok (default_selector\<lparr>sel_ipv4_blocks := [\<lparr>block4_cidr = cidr, block4_except = except\<rparr>]\<rparr>)))))"

section \<open>Peers and ports\<close>

definition peer_selector ::
  "string \<Rightarrow> nat \<Rightarrow> nat \<times> NetworkPolicyPeer \<Rightarrow> (NetworkPolicyCompileError, IdentitySelector) res" where
  "peer_selector policy_namespace rule_index = (\<lambda>(peer_index, peer).
     case peer_ip_block peer of
       Some ip_block \<Rightarrow>
         if peer_namespace_selector peer \<noteq> None \<or> peer_pod_selector peer \<noteq> None
         then Err (InvalidIpBlockPeerCombination rule_index peer_index)
         else ip_block_selector ip_block rule_index peer_index
     | None \<Rightarrow>
         rbind (case peer_namespace_selector peer of
             Some selector \<Rightarrow> namespace_identity_selector selector
           | None \<Rightarrow> Ok (if peer_pod_selector peer \<noteq> None then Some policy_namespace else None, [], [])) (\<lambda>(namespace, labels, expressions).
         rbind (case peer_pod_selector peer of
             None \<Rightarrow> Ok default_selector
           | Some selector \<Rightarrow> pod_identity_selector selector None ''peer podSelector'') (\<lambda>identity_selector.
         Ok (identity_selector\<lparr>sel_namespace := namespace, sel_namespace_match_labels := labels,
           sel_namespace_match_expressions := expressions\<rparr>))))"

text \<open>\<open>sources\<close> and \<open>destinations\<close> have the same body.\<close>

definition sources ::
  "NetworkPolicyPeer list option \<Rightarrow> string \<Rightarrow> nat \<Rightarrow> (NetworkPolicyCompileError, IdentitySelector list) res" where
  "sources peers policy_namespace rule_index =
     (let peers = (case peers of None \<Rightarrow> [] | Some ps \<Rightarrow> ps) in
      if peers = [] then Ok [default_selector]
      else try_map (peer_selector policy_namespace rule_index) (List.enumerate 0 peers))"

definition destinations ::
  "NetworkPolicyPeer list option \<Rightarrow> string \<Rightarrow> nat \<Rightarrow> (NetworkPolicyCompileError, IdentitySelector list) res" where
  "destinations peers policy_namespace rule_index =
     (let peers = (case peers of None \<Rightarrow> [] | Some ps \<Rightarrow> ps) in
      if peers = [] then Ok [default_selector]
      else try_map (peer_selector policy_namespace rule_index) (List.enumerate 0 peers))"

definition u16_try_from :: "int \<Rightarrow> u16 option" where
  "u16_try_from n = (if 0 \<le> n \<and> n < 65536 then Some (of_int n) else None)"

definition port_range_tuple ::
  "Protocol \<Rightarrow> nat \<Rightarrow> nat \<Rightarrow> int \<Rightarrow> u16 \<Rightarrow> int \<Rightarrow> (NetworkPolicyCompileError, Protocol option \<times> DestinationPort) res" where
  "port_range_tuple protocol rule_index port_index value start end_value =
     (case u16_try_from end_value of
        None \<Rightarrow> Err (InvalidPortRange rule_index port_index value end_value)
      | Some end_port \<Rightarrow>
        if end_port < start then Err (InvalidPortRange rule_index port_index value end_value) else
        let width = unat end_port - unat start + 1 in
        if start = 1 \<and> end_port = - 1 then Ok (Some protocol, AnyPort)
        else if width > KUBERNETES_NETWORK_POLICY_MAX_PORT_RANGE_WIDTH then Err (PortRangeTooLarge rule_index port_index width)
        else Ok (Some protocol, if start = end_port then Number start else Range start end_port))"

definition port_tuple ::
  "nat \<Rightarrow> nat \<times> NetworkPolicyPort \<Rightarrow> (NetworkPolicyCompileError, Protocol option \<times> DestinationPort) res" where
  "port_tuple rule_index = (\<lambda>(port_index, port).
     let name = (case npp_protocol port of None \<Rightarrow> ''TCP'' | Some p \<Rightarrow> p) in
     rbind (if name = ''TCP'' then Ok Tcp else if name = ''UDP'' then Ok Udp else if name = ''SCTP'' then Ok Sctp
            else Err (UnsupportedProtocol rule_index port_index name)) (\<lambda>protocol.
     case npp_port port of
       Some (PortNumber value) \<Rightarrow>
         (case u16_try_from value of
            None \<Rightarrow> Err (NpInvalidPort rule_index port_index value)
          | Some start \<Rightarrow>
            if start = 0 then Err (NpInvalidPort rule_index port_index 0) else
            case npp_end_port port of
              None \<Rightarrow> Ok (Some protocol, Number start)
            | Some end_value \<Rightarrow> port_range_tuple protocol rule_index port_index value start end_value)
     | Some (PortName name) \<Rightarrow>
         if name \<noteq> [] then
           (if npp_end_port port \<noteq> None then Err (InvalidNamedPortRange rule_index port_index) else Ok (Some protocol, Named name))
         else Err (InvalidNamedPort rule_index port_index)
     | None \<Rightarrow>
         (case npp_end_port port of None \<Rightarrow> Ok (Some protocol, AnyPort)
          | Some end_value \<Rightarrow> Err (InvalidPortRange rule_index port_index 0 end_value))))"

definition ports ::
  "NetworkPolicyPort list option \<Rightarrow> nat \<Rightarrow> (NetworkPolicyCompileError, (Protocol option \<times> DestinationPort) list) res" where
  "ports policy_ports rule_index =
     (let policy_ports = (case policy_ports of None \<Rightarrow> [] | Some ps \<Rightarrow> ps) in
      if policy_ports = [] then Ok [(None, AnyPort)]
      else try_map (port_tuple rule_index) (List.enumerate 0 policy_ports))"

section \<open>Policies\<close>

definition policy_directions ::
  "string list option \<Rightarrow> NetworkPolicyRule list option \<Rightarrow> (NetworkPolicyCompileError, bool \<times> bool) res" where
  "policy_directions policy_types egress =
     (case policy_types of
        Some (t # ts) \<Rightarrow> try_fold (\<lambda>(ingress, egress) policy_type.
          if policy_type = ''Ingress'' then Ok (True, egress) else if policy_type = ''Egress'' then Ok (ingress, True)
          else Err (UnsupportedPolicyType policy_type)) (False, False) (t # ts)
      | _ \<Rightarrow> Ok (True, case egress of None \<Rightarrow> False | Some rules \<Rightarrow> rules \<noteq> []))"

definition compatibility_policy_ir ::
  "u32 \<Rightarrow> string \<Rightarrow> string \<Rightarrow> PolicyDirection \<Rightarrow> IdentitySelector \<Rightarrow> PolicyRule list \<Rightarrow> PolicyIr" where
  "compatibility_policy_ir policy_id name namespace direction target rules =
     \<lparr>pol_id = policy_id, pol_name = name, pol_namespace = namespace, pol_priority = KUBERNETES_NETWORK_POLICY_PRIORITY,
      pol_origin = KubernetesNetworkPolicy, pol_direction = direction, pol_target = target, pol_default_action = DenyAction,
      pol_enforcement_mode = Enforce, pol_rules = rules\<rparr>"

definition map_rule_error :: "(PolicyCompileError, 'a) res \<Rightarrow> (NetworkPolicyCompileError, 'a) res" where
  "map_rule_error r = (case r of Err _ \<Rightarrow> Err NpTooManyRules | Ok v \<Rightarrow> Ok v)"

text \<open>One rule of a direction: a compiled rule for each peer and port; \<open>ends\<close> puts the peer and the target
  on the sides of the direction.\<close>

definition compile_direction_rule ::
  "u32 \<Rightarrow> string \<Rightarrow> string \<Rightarrow> (IdentitySelector \<Rightarrow> IdentitySelector \<times> IdentitySelector) \<Rightarrow>
   (NetworkPolicyPeer list option \<Rightarrow> string \<Rightarrow> nat \<Rightarrow> (NetworkPolicyCompileError, IdentitySelector list) res) \<Rightarrow>
   PolicyRule list \<Rightarrow> nat \<times> NetworkPolicyRule \<Rightarrow> (NetworkPolicyCompileError, PolicyRule list) res" where
  "compile_direction_rule policy_id name namespace ends peers rules = (\<lambda>(rule_index, rule).
     rbind (peers (npr_peers rule) namespace rule_index) (\<lambda>selectors.
     rbind (ports (npr_ports rule) rule_index) (\<lambda>ports.
     try_fold (\<lambda>rules selector. try_fold (\<lambda>rules (protocol, port).
         map_rule_error (push_rule rules policy_id name namespace (fst (ends selector)) (snd (ends selector)) protocol port
           AllowAction rule_index)) rules ports) rules selectors)))"

definition compile_directions :: "u32 \<Rightarrow> NetworkPolicy \<Rightarrow> (NetworkPolicyCompileError, PolicyIr list) res" where
  "compile_directions policy_id policy =
     (case np_name policy of None \<Rightarrow> Err NpMissingName | Some name \<Rightarrow>
      case np_namespace policy of None \<Rightarrow> Err NpMissingNamespace | Some namespace \<Rightarrow>
      case np_spec policy of None \<Rightarrow> Err NpMissingSpec | Some spec \<Rightarrow>
      rbind (policy_directions (nps_policy_types spec) (nps_egress spec)) (\<lambda>(ingress, egress).
      rbind (pod_identity_selector (case nps_pod_selector spec of None \<Rightarrow> \<lparr>ls_match_labels = None, ls_match_expressions = None\<rparr>
          | Some s \<Rightarrow> s) (Some namespace) ''podSelector'') (\<lambda>target.
      rbind (if \<not> ingress then Ok [] else
        rbind (try_fold (compile_direction_rule policy_id name namespace (\<lambda>source. (source, target)) sources) []
          (List.enumerate 0 (case nps_ingress spec of None \<Rightarrow> [] | Some rs \<Rightarrow> rs))) (\<lambda>rules.
        Ok [compatibility_policy_ir policy_id name namespace Ingress target rules])) (\<lambda>policies.
      rbind (if \<not> egress then Ok policies else
        rbind (try_fold (compile_direction_rule policy_id name namespace (\<lambda>destination. (target, destination)) destinations) []
          (List.enumerate 0 (case nps_egress spec of None \<Rightarrow> [] | Some rs \<Rightarrow> rs))) (\<lambda>rules.
        Ok (policies @ [compatibility_policy_ir policy_id name namespace Egress target rules]))) Ok))))"

definition compile_network_policy :: "u32 \<Rightarrow> NetworkPolicy \<Rightarrow> (NetworkPolicyCompileError, PolicyIr) res" where
  "compile_network_policy policy_id policy =
     rbind (compile_directions policy_id policy) (\<lambda>policies.
     case policies of [p] \<Rightarrow> if pol_direction p = Ingress then Ok p else Err UnsupportedEgress | _ \<Rightarrow> Err UnsupportedEgress)"

end
