(* ===== verification/Network_Policy_Meaning.thy ===== *)
theory Network_Policy_Meaning
  imports Network_Policy
begin

text \<open>
  What Kubernetes \<open>NetworkPolicy\<close> objects mean, and that the compiler of theory \<open>Network_Policy\<close> with the
  evaluator of theory \<open>Policy_Eval\<close> gives them that meaning.  Selectors, blocks, peers, ports and
  directions are treated in turn; the last sections show the enforcement theorem and the
  well-formedness of what is compiled.
\<close>

section \<open>What a policy object means\<close>

text \<open>The semantics the Kubernetes documentation gives to label selectors, peers, ports and policies.\<close>

definition requirement_holds :: "LabelSelectorRequirement \<Rightarrow> labels \<Rightarrow> bool" where
  "requirement_holds r labels \<longleftrightarrow>
     (let values = set (case req_values r of None \<Rightarrow> [] | Some vs \<Rightarrow> vs); v = bt_get labels (req_key r) in
      req_operator r = ''In'' \<and> (\<exists>x \<in> values. v = Some x) \<or> req_operator r = ''NotIn'' \<and> (\<forall>x \<in> values. v \<noteq> Some x) \<or>
      req_operator r = ''Exists'' \<and> v \<noteq> None \<or> req_operator r = ''DoesNotExist'' \<and> v = None)"

abbreviation requirements :: "LabelSelector \<Rightarrow> LabelSelectorRequirement list" where
  "requirements s \<equiv> (case ls_match_expressions s of None \<Rightarrow> [] | Some rs \<Rightarrow> rs)"

definition selects :: "LabelSelector \<Rightarrow> labels \<Rightarrow> bool" where
  "selects s labels \<longleftrightarrow> (\<forall>k v. (k, v) \<in> set (selector_labels s) \<longrightarrow> bt_get labels k = Some v) \<and>
     (\<forall>r \<in> set (requirements s). requirement_holds r labels)"

abbreviation excepts :: "IPBlock \<Rightarrow> string list" where
  "excepts b \<equiv> (case ipb_except b of None \<Rightarrow> [] | Some es \<Rightarrow> es)"

definition block_admits :: "IPBlock \<Rightarrow> u32 option \<Rightarrow> u128 option \<Rightarrow> bool" where
  "block_admits b ipv4 ipv6 \<longleftrightarrow> (case (ipv4, ipv6) of
     (Some a, None) \<Rightarrow> parse_ipv6_cidr (ipb_cidr b) = None \<and> (\<exists>c. parse_ipv4_cidr (ipb_cidr b) = Some c \<and> cidr4_contains c a) \<and>
       (\<forall>t \<in> set (excepts b). \<forall>e. parse_ipv4_cidr t = Some e \<longrightarrow> \<not> cidr4_contains e a)
   | (None, Some a) \<Rightarrow> (\<exists>c. parse_ipv6_cidr (ipb_cidr b) = Some c \<and> cidr6_contains c a) \<and>
       (\<forall>t \<in> set (excepts b). \<forall>e. parse_ipv6_cidr t = Some e \<longrightarrow> \<not> cidr6_contains e a)
   | _ \<Rightarrow> False)"

text \<open>Selectors of a peer select pods only; the identity zero stands for everything that is not a pod.\<close>

definition peer_admits :: "string \<Rightarrow> NetworkPolicyPeer \<Rightarrow> Endpoint \<Rightarrow> u32 option \<Rightarrow> u128 option \<Rightarrow> bool" where
  "peer_admits namespace peer ep ipv4 ipv6 \<longleftrightarrow> (case peer_ip_block peer of
     Some b \<Rightarrow> block_admits b ipv4 ipv6
   | None \<Rightarrow> ep_identity ep \<noteq> 0 \<and>
       (case peer_namespace_selector peer of Some s \<Rightarrow> selects s (ep_namespace_labels ep)
        | None \<Rightarrow> peer_pod_selector peer \<noteq> None \<longrightarrow> ep_namespace ep = namespace) \<and>
       (case peer_pod_selector peer of Some s \<Rightarrow> selects s (ep_labels ep) | None \<Rightarrow> True))"

definition port_admits :: "NetworkPolicyPort \<Rightarrow> Flow \<Rightarrow> bool" where
  "port_admits port f \<longleftrightarrow>
     (case npp_protocol port of None \<Rightarrow> ''TCP'' | Some p \<Rightarrow> p) =
       (case flow_protocol f of Tcp \<Rightarrow> ''TCP'' | Udp \<Rightarrow> ''UDP'' | Sctp \<Rightarrow> ''SCTP'' | Icmp \<Rightarrow> []) \<and>
     (case npp_port port of
        None \<Rightarrow> True
      | Some (PortNumber start) \<Rightarrow> (case npp_end_port port of None \<Rightarrow> uint (flow_destination_port f) = start
          | Some e \<Rightarrow> start \<le> uint (flow_destination_port f) \<and> uint (flow_destination_port f) \<le> e)
      | Some (PortName name) \<Rightarrow>
          resolve_named_port (flow_destination f) name (flow_protocol f) = Some (flow_destination_port f))"

text \<open>The far end of a flow and its addresses.\<close>

fun peer_end :: "PolicyDirection \<Rightarrow> Flow \<Rightarrow> DestinationAddresses \<Rightarrow> Endpoint \<times> u32 option \<times> u128 option" where
  "peer_end Ingress f a = (flow_source f, flow_source_ipv4 f, flow_source_ipv6 f)"
| "peer_end Egress f a = (flow_destination f, dest_ipv4 a, dest_ipv6 a)"

abbreviation listed :: "'a list option \<Rightarrow> 'a list" where
  "listed xs \<equiv> (case xs of None \<Rightarrow> [] | Some ys \<Rightarrow> ys)"

fun direction_rules :: "PolicyDirection \<Rightarrow> NetworkPolicySpec \<Rightarrow> NetworkPolicyRule list" where
  "direction_rules Ingress spec = listed (nps_ingress spec)"
| "direction_rules Egress spec = listed (nps_egress spec)"

fun effective :: "PolicyDirection \<Rightarrow> NetworkPolicySpec \<Rightarrow> bool" where
  "effective Ingress spec \<longleftrightarrow> listed (nps_policy_types spec) = [] \<or> ''Ingress'' \<in> set (listed (nps_policy_types spec))"
| "effective Egress spec \<longleftrightarrow> listed (nps_policy_types spec) = [] \<and> listed (nps_egress spec) \<noteq> [] \<or>
     ''Egress'' \<in> set (listed (nps_policy_types spec))"

definition rule_admits :: "PolicyDirection \<Rightarrow> string \<Rightarrow> NetworkPolicyRule \<Rightarrow> Flow \<Rightarrow> DestinationAddresses \<Rightarrow> bool" where
  "rule_admits d namespace rule f a \<longleftrightarrow>
     (listed (npr_peers rule) = [] \<or> (\<exists>peer \<in> set (listed (npr_peers rule)).
        case peer_end d f a of (ep, ipv4, ipv6) \<Rightarrow> peer_admits namespace peer ep ipv4 ipv6)) \<and>
     (listed (npr_ports rule) = [] \<or> (\<exists>port \<in> set (listed (npr_ports rule)). port_admits port f))"

definition target_selector :: "NetworkPolicySpec \<Rightarrow> LabelSelector" where
  "target_selector spec = (case nps_pod_selector spec of None \<Rightarrow> \<lparr>ls_match_labels = None, ls_match_expressions = None\<rparr> | Some s \<Rightarrow> s)"

definition np_selects :: "PolicyDirection \<Rightarrow> NetworkPolicy \<Rightarrow> Endpoint \<Rightarrow> bool" where
  "np_selects d np ep \<longleftrightarrow> (\<exists>ns spec. np_namespace np = Some ns \<and> np_spec np = Some spec \<and> effective d spec \<and>
     ep_namespace ep = ns \<and> selects (target_selector spec) (ep_labels ep))"

definition np_allows :: "PolicyDirection \<Rightarrow> NetworkPolicy \<Rightarrow> Flow \<Rightarrow> DestinationAddresses \<Rightarrow> bool" where
  "np_allows d np f a \<longleftrightarrow> (\<exists>ns spec. np_namespace np = Some ns \<and> np_spec np = Some spec \<and>
     (\<exists>rule \<in> set (direction_rules d spec). rule_admits d ns rule f a))"

section \<open>Selectors are compiled to their meaning\<close>

lemma label_expression_matches:
  assumes "label_expression fld r = Ok e"
  shows "expression_matches e labels \<longleftrightarrow> requirement_holds r labels"
  using assms
  by (auto simp: label_expression_def Let_def expression_matches_def requirement_holds_def split: if_splits option.splits)

lemma set_expression_set [simp]: "set (expression_set es) = set es"
  by (simp add: expression_set_def)

lemma match_expressions_hold:
  assumes "match_expressions fld s = Ok es"
  shows "list_all (\<lambda>e. expression_matches e labels) es \<longleftrightarrow> (\<forall>r \<in> set (requirements s). requirement_holds r labels)"
proof -
  from assms obtain fs where fs: "try_map (label_expression fld) (requirements s) = Ok fs" "es = expression_set fs"
    by (auto simp: match_expressions_def res_simps)
  then have "list_all2 (\<lambda>r e. label_expression fld r = Ok e) (requirements s) fs" by (simp add: try_map_eq_Inr)
  then have "list_all (\<lambda>e. expression_matches e labels) fs \<longleftrightarrow> (\<forall>r \<in> set (requirements s). requirement_holds r labels)"
    by (induction rule: list_all2_induct) (auto simp: label_expression_matches)
  then show ?thesis by (simp add: fs(2) list_all_iff)
qed

lemma labels_match_iff: "labels_match required labels \<longleftrightarrow> (\<forall>k v. (k, v) \<in> set required \<longrightarrow> bt_get labels k = Some v)"
  by (auto simp: labels_match_def list_all_iff)

lemma pod_selector_selects:
  assumes "pod_identity_selector s ns fld = Ok sel"
  shows "labels_match (sel_match_labels sel) labels \<and> list_all (\<lambda>e. expression_matches e labels) (sel_match_expressions sel)
      \<longleftrightarrow> selects s labels"
    and "\<exists>ls es. sel = default_selector\<lparr>sel_namespace := ns, sel_match_labels := ls, sel_match_expressions := es\<rparr>"
proof -
  from assms obtain es where es: "match_expressions fld s = Ok es"
    and sel: "sel = default_selector\<lparr>sel_namespace := ns, sel_match_labels := selector_labels s, sel_match_expressions := es\<rparr>"
    by (auto simp: pod_identity_selector_def res_simps)
  show "labels_match (sel_match_labels sel) labels \<and> list_all (\<lambda>e. expression_matches e labels) (sel_match_expressions sel)
      \<longleftrightarrow> selects s labels"
    using match_expressions_hold [OF es] by (simp add: sel selects_def labels_match_iff)
  show "\<exists>ls es. sel = default_selector\<lparr>sel_namespace := ns, sel_match_labels := ls, sel_match_expressions := es\<rparr>"
    using sel by blast
qed

text \<open>Namespace labels carry the namespace's name, so requiring that label is requiring the namespace.\<close>

definition labelled :: "Endpoint \<Rightarrow> bool" where
  "labelled ep \<longleftrightarrow> bt_get (ep_namespace_labels ep) NAMESPACE_NAME_LABEL = Some (ep_namespace ep)"

lemma namespace_selector_selects:
  assumes "namespace_identity_selector s = Ok (ns, ls, es)" "labelled ep" "bt_ok (selector_labels s)"
  shows "(case ns of None \<Rightarrow> True | Some expected \<Rightarrow> expected = ep_namespace ep) \<and> labels_match ls (ep_namespace_labels ep) \<and>
      list_all (\<lambda>e. expression_matches e (ep_namespace_labels ep)) es \<longleftrightarrow> selects s (ep_namespace_labels ep)"
proof -
  let ?ls = "selector_labels s"
  from assms(1) have es: "match_expressions ''peer namespaceSelector'' s = Ok es"
    and ns: "ns = bt_get ?ls NAMESPACE_NAME_LABEL" and ls: "ls = bt_remove NAMESPACE_NAME_LABEL ?ls"
    by (auto simp: namespace_identity_selector_def res_simps)
  have mem: "(k, v) \<in> set ?ls \<longleftrightarrow> bt_get ?ls k = Some v" for k v using bt_get_eq_Some [OF assms(3)] by simp
  have removed: "(k, v) \<in> set ls \<longleftrightarrow> k \<noteq> NAMESPACE_NAME_LABEL \<and> (k, v) \<in> set ?ls" for k v by (auto simp: ls bt_remove_def)
  have "(case ns of None \<Rightarrow> True | Some expected \<Rightarrow> expected = ep_namespace ep) \<and> labels_match ls (ep_namespace_labels ep) \<longleftrightarrow>
      (\<forall>k v. (k, v) \<in> set ?ls \<longrightarrow> bt_get (ep_namespace_labels ep) k = Some v)"
    using assms(2) unfolding ns labels_match_iff removed mem labelled_def
    by (cases "bt_get ?ls NAMESPACE_NAME_LABEL"; simp; metis option.inject option.distinct(1))
  then show ?thesis using match_expressions_hold [OF es] by (auto simp: selects_def)
qed

lemma default_fields [simp]:
  "sel_namespace default_selector = None" "sel_namespace_match_labels default_selector = []"
  "sel_namespace_match_expressions default_selector = []" "sel_ipv4_blocks default_selector = []"
  "sel_ipv6_blocks default_selector = []" "sel_match_labels default_selector = []" "sel_match_expressions default_selector = []"
  "sel_service_account default_selector = None" "sel_application default_selector = None"
  by (simp_all add: default_selector_def)

lemma selector_matches_fields:
  "selector_matches (default_selector\<lparr>sel_namespace := ns, sel_match_labels := ls, sel_match_expressions := es\<rparr>) ep \<longleftrightarrow>
     (case ns of None \<Rightarrow> True | Some expected \<Rightarrow> expected = ep_namespace ep) \<and> labels_match ls (ep_labels ep) \<and>
     list_all (\<lambda>e. expression_matches e (ep_labels ep)) es"
  "selector_matches (default_selector\<lparr>sel_ipv4_blocks := b4\<rparr>) ep" "selector_matches (default_selector\<lparr>sel_ipv6_blocks := b6\<rparr>) ep"
  by (simp_all add: selector_matches_def labels_match_def)

section \<open>Address blocks are compiled to their meaning\<close>

lemma excepts_parsed:
  assumes "try_map (except_cidr parse inside i j t) ts = Ok cs"
  shows "set cs = {c. \<exists>t \<in> set ts. parse t = Some c}" "\<forall>c \<in> set cs. inside c"
proof -
  have "list_all2 (\<lambda>x c. except_cidr parse inside i j t x = Ok c) ts cs" using assms by (simp add: try_map_eq_Inr)
  then have "list_all2 (\<lambda>x c. parse x = Some c \<and> inside c) ts cs"
    by (rule list_all2_mono) (auto simp: except_cidr_def split: option.splits if_splits)
  then show "set cs = {c. \<exists>t \<in> set ts. parse t = Some c}" "\<forall>c \<in> set cs. inside c"
    by (induction rule: list_all2_induct) auto
qed

lemma ip_block_selects:
  assumes "ip_block_selector b i j = Ok sel"
  shows "matches_addressed sel ep ipv4 ipv6 \<longleftrightarrow> block_admits b ipv4 ipv6"
proof (cases "parse_ipv6_cidr (ipb_cidr b)")
  case (Some c)
  with assms obtain es where
    es: "try_map (except_cidr parse_ipv6_cidr (cidr6_contains_cidr c) i j (ipb_cidr b)) (excepts b) = Ok es"
    and sel: "sel = default_selector\<lparr>sel_ipv6_blocks := [\<lparr>block6_cidr = c, block6_except = btree_set es\<rparr>]\<rparr>"
    by (auto simp: ip_block_selector_def Let_def res_simps)
  show ?thesis
    using excepts_parsed(1) [OF es] Some unfolding sel
    by (auto simp: matches_addressed_def selector_matches_fields block_admits_def block6_contains_def list_ex_iff set_btree_set
        split: option.splits)
next
  case None
  with assms obtain c es where c: "parse_ipv4_cidr (ipb_cidr b) = Some c"
    and es: "try_map (except_cidr parse_ipv4_cidr (cidr4_contains_cidr c) i j (ipb_cidr b)) (excepts b) = Ok es"
    and sel: "sel = default_selector\<lparr>sel_ipv4_blocks := [\<lparr>block4_cidr = c, block4_except = btree_set es\<rparr>]\<rparr>"
    by (auto simp: ip_block_selector_def Let_def res_simps split: option.splits)
  show ?thesis
    using excepts_parsed(1) [OF es] None c unfolding sel
    by (auto simp: matches_addressed_def selector_matches_fields block_admits_def block4_contains_def list_ex_iff set_btree_set
        split: option.splits)
qed

section \<open>Peers and ports are compiled to their meaning\<close>

text \<open>A peer without any requirement.  The selector it is compiled to also matches what is not a pod.\<close>

definition vacuous_selector :: "LabelSelector \<Rightarrow> bool" where
  "vacuous_selector s \<longleftrightarrow> selector_labels s = [] \<and> requirements s = []"

definition vacuous_peer :: "NetworkPolicyPeer \<Rightarrow> bool" where
  "vacuous_peer peer \<longleftrightarrow> peer_ip_block peer = None \<and>
     (case peer_namespace_selector peer of None \<Rightarrow> peer_pod_selector peer = None
      | Some s \<Rightarrow> vacuous_selector s \<and> (case peer_pod_selector peer of None \<Rightarrow> True | Some t \<Rightarrow> vacuous_selector t))"

definition peer_sorted :: "NetworkPolicyPeer \<Rightarrow> bool" where
  "peer_sorted peer \<longleftrightarrow> (case peer_namespace_selector peer of None \<Rightarrow> True | Some s \<Rightarrow> bt_ok (selector_labels s))"

lemma try_map_Nil: "try_map f xs = Ok [] \<longleftrightarrow> xs = []"
  by (simp add: try_map_eq_Inr)

lemma match_expressions_Nil: "match_expressions fld s = Ok [] \<Longrightarrow> requirements s = []"
proof -
  assume "match_expressions fld s = Ok []"
  then obtain fs where "try_map (label_expression fld) (requirements s) = Ok fs" "expression_set fs = []"
    by (auto simp: match_expressions_def res_simps)
  moreover from this(2) have "set fs = {}" using set_expression_set [of fs] by simp
  ultimately show ?thesis by (simp add: try_map_Nil)
qed

lemma namespace_selector_Nil:
  assumes "namespace_identity_selector s = Ok (None, [], [])"
  shows "vacuous_selector s"
proof -
  from assms have es: "match_expressions ''peer namespaceSelector'' s = Ok []" "bt_get (selector_labels s) NAMESPACE_NAME_LABEL = None"
    "bt_remove NAMESPACE_NAME_LABEL (selector_labels s) = []" by (auto simp: namespace_identity_selector_def res_simps)
  have "e \<notin> set (selector_labels s)" for e
  proof
    assume e: "e \<in> set (selector_labels s)"
    have "fst e = NAMESPACE_NAME_LABEL" using e es(3) by (auto simp: bt_remove_def filter_empty_conv)
    then show False using e es(2) by (metis bt_get_def imageI map_of_eq_None_iff)
  qed
  then have "selector_labels s = []" by (metis list.set_intros(1) neq_Nil_conv)
  then show ?thesis using match_expressions_Nil [OF es(1)] by (simp add: vacuous_selector_def)
qed

abbreviation pod_part :: "LabelSelector option \<Rightarrow> (NetworkPolicyCompileError, IdentitySelector) res" where
  "pod_part pod \<equiv> (case pod of None \<Rightarrow> Ok default_selector
     | Some selector \<Rightarrow> pod_identity_selector selector None ''peer podSelector'')"

abbreviation namespace_part :: "string \<Rightarrow> NetworkPolicyPeer \<Rightarrow>
  (NetworkPolicyCompileError, string option \<times> labels \<times> LabelExpression list) res" where
  "namespace_part ns peer \<equiv> (case peer_namespace_selector peer of Some selector \<Rightarrow> namespace_identity_selector selector
     | None \<Rightarrow> Ok (if peer_pod_selector peer \<noteq> None then Some ns else None, [], []))"

lemma pod_part_selects:
  assumes "pod_part pod = Ok base"
  obtains pl pe where "base = default_selector\<lparr>sel_match_labels := pl, sel_match_expressions := pe\<rparr>"
    "\<And>labels. labels_match pl labels \<and> list_all (\<lambda>e. expression_matches e labels) pe \<longleftrightarrow>
      (case pod of Some s \<Rightarrow> selects s labels | None \<Rightarrow> True)"
    "pl = [] \<and> pe = [] \<Longrightarrow> (case pod of Some s \<Rightarrow> vacuous_selector s | None \<Rightarrow> True)"
proof (cases pod)
  case None
  then have "base = default_selector\<lparr>sel_match_labels := [], sel_match_expressions := []\<rparr>"
    using assms by (auto simp: default_selector_def)
  then show thesis using None by (intro that) (auto simp: labels_match_def)
next
  case (Some s)
  then have "pod_identity_selector s None ''peer podSelector'' = Ok base" using assms by simp
  then obtain es where es: "match_expressions ''peer podSelector'' s = Ok es"
    and base: "base = default_selector\<lparr>sel_namespace := None, sel_match_labels := selector_labels s, sel_match_expressions := es\<rparr>"
    by (auto simp: pod_identity_selector_def res_simps)
  have "base = default_selector\<lparr>sel_match_labels := selector_labels s, sel_match_expressions := es\<rparr>"
    by (simp add: base default_selector_def)
  then show thesis
  proof (rule that)
    show "labels_match (selector_labels s) labels \<and> list_all (\<lambda>e. expression_matches e labels) es \<longleftrightarrow>
        (case pod of Some s \<Rightarrow> selects s labels | None \<Rightarrow> True)" for labels
      using match_expressions_hold [OF es, of labels] Some by (simp add: selects_def labels_match_iff)
    show "case pod of Some s \<Rightarrow> vacuous_selector s | None \<Rightarrow> True" if "selector_labels s = [] \<and> es = []"
      using match_expressions_Nil es that Some by (simp add: vacuous_selector_def)
  qed
qed

lemma namespace_part_selects:
  assumes "namespace_part ns peer = Ok (n, ls, es)" "labelled ep" "peer_sorted peer"
  shows "(case n of None \<Rightarrow> True | Some expected \<Rightarrow> expected = ep_namespace ep) \<and> labels_match ls (ep_namespace_labels ep) \<and>
      list_all (\<lambda>e. expression_matches e (ep_namespace_labels ep)) es \<longleftrightarrow>
    (case peer_namespace_selector peer of Some s \<Rightarrow> selects s (ep_namespace_labels ep)
        | None \<Rightarrow> peer_pod_selector peer \<noteq> None \<longrightarrow> ep_namespace ep = ns)"
    and "n = None \<and> ls = [] \<and> es = [] \<Longrightarrow>
      (case peer_namespace_selector peer of Some s \<Rightarrow> vacuous_selector s | None \<Rightarrow> peer_pod_selector peer = None)"
proof -
  show "(case n of None \<Rightarrow> True | Some expected \<Rightarrow> expected = ep_namespace ep) \<and> labels_match ls (ep_namespace_labels ep) \<and>
      list_all (\<lambda>e. expression_matches e (ep_namespace_labels ep)) es \<longleftrightarrow>
    (case peer_namespace_selector peer of Some s \<Rightarrow> selects s (ep_namespace_labels ep)
        | None \<Rightarrow> peer_pod_selector peer \<noteq> None \<longrightarrow> ep_namespace ep = ns)"
  proof (cases "peer_namespace_selector peer")
    case None
    then show ?thesis using assms(1) by (auto simp: labels_match_def split: if_splits)
  next
    case (Some s)
    then show ?thesis using assms by (simp add: namespace_selector_selects peer_sorted_def)
  qed
  show "n = None \<and> ls = [] \<and> es = [] \<Longrightarrow>
      (case peer_namespace_selector peer of Some s \<Rightarrow> vacuous_selector s | None \<Rightarrow> peer_pod_selector peer = None)"
    using assms(1) namespace_selector_Nil by (auto split: option.splits if_splits)
qed

lemma selector_peer_selects:
  assumes "peer_selector ns i (j, peer) = Ok sel" "peer_ip_block peer = None" "labelled ep" "peer_sorted peer"
    and "ipv4 = None \<or> ipv6 = None" "ep_identity ep \<noteq> 0 \<or> \<not> vacuous_peer peer"
  shows "matches_addressed sel ep ipv4 ipv6 \<longleftrightarrow> peer_admits ns peer ep ipv4 ipv6"
proof -
  from assms(1,2) obtain n ls es base where n: "namespace_part ns peer = Ok (n, ls, es)" and base: "pod_part (peer_pod_selector peer) = Ok base"
    and sel: "sel = base\<lparr>sel_namespace := n, sel_namespace_match_labels := ls, sel_namespace_match_expressions := es\<rparr>"
    by (auto simp: peer_selector_def res_simps)
  obtain pl pe where b: "base = default_selector\<lparr>sel_match_labels := pl, sel_match_expressions := pe\<rparr>"
    and pod: "\<And>labels. labels_match pl labels \<and> list_all (\<lambda>e. expression_matches e labels) pe \<longleftrightarrow>
      (case peer_pod_selector peer of Some s \<Rightarrow> selects s labels | None \<Rightarrow> True)"
      "pl = [] \<and> pe = [] \<Longrightarrow> (case peer_pod_selector peer of Some s \<Rightarrow> vacuous_selector s | None \<Rightarrow> True)"
    by (rule pod_part_selects [OF base]) blast
  note ns = namespace_part_selects [OF n assms(3,4)]
  have "vacuous_peer peer" if "is_unconstrained sel"
    using that assms(2) ns(2) pod(2) by (auto simp: vacuous_peer_def is_unconstrained_def sel b split: option.splits)
  moreover have "matches_addressed sel ep ipv4 ipv6 \<longleftrightarrow> (ep_identity ep \<noteq> 0 \<or> is_unconstrained sel) \<and> selector_matches sel ep"
    using assms(5) by (auto simp: matches_addressed_def sel b Let_def split: option.splits)
  moreover have "selector_matches sel ep \<longleftrightarrow> (case n of None \<Rightarrow> True | Some expected \<Rightarrow> expected = ep_namespace ep) \<and>
      labels_match ls (ep_namespace_labels ep) \<and> list_all (\<lambda>e. expression_matches e (ep_namespace_labels ep)) es \<and>
      labels_match pl (ep_labels ep) \<and> list_all (\<lambda>e. expression_matches e (ep_labels ep)) pe"
    by (simp add: selector_matches_def sel b)
  ultimately show ?thesis using ns(1) pod(1) [of "ep_labels ep"] assms(2,6) by (auto simp: peer_admits_def)
qed

lemma peer_selects:
  assumes "peer_selector ns i (j, peer) = Ok sel" "labelled ep" "peer_sorted peer"
    and "ipv4 = None \<or> ipv6 = None" "ep_identity ep \<noteq> 0 \<or> \<not> vacuous_peer peer"
  shows "matches_addressed sel ep ipv4 ipv6 \<longleftrightarrow> peer_admits ns peer ep ipv4 ipv6"
proof (cases "peer_ip_block peer")
  case None
  then show ?thesis using selector_peer_selects assms by blast
next
  case (Some b)
  then have "ip_block_selector b i j = Ok sel" using assms(1) by (auto simp: peer_selector_def split: if_splits)
  then show ?thesis using ip_block_selects Some by (simp add: peer_admits_def)
qed

lemma sources_destinations: "destinations = sources"
  by (simp add: sources_def destinations_def fun_eq_iff)

lemma set_enumerate_snd: "(\<exists>e \<in> set (List.enumerate n xs). P (snd e)) \<longleftrightarrow> (\<exists>x \<in> set xs. P x)"
  using map_snd_enumerate [of n xs] by (metis (no_types, lifting) imageE image_eqI list.set_map)

lemma list_all2_ex:
  assumes "list_all2 R xs ys" "\<And>x y. R x y \<Longrightarrow> x \<in> set xs \<Longrightarrow> P x \<longleftrightarrow> Q y"
  shows "(\<exists>y \<in> set ys. Q y) \<longleftrightarrow> (\<exists>x \<in> set xs. P x)"
  using assms by (induction rule: list_all2_induct) auto

lemma peers_select:
  assumes "sources peers ns i = Ok sels" "labelled ep" "\<forall>peer \<in> set (listed peers). peer_sorted peer"
    and "ipv4 = None \<or> ipv6 = None" "ep_identity ep \<noteq> 0 \<or> (\<forall>peer \<in> set (listed peers). \<not> vacuous_peer peer)"
  shows "(\<exists>sel \<in> set sels. matches_addressed sel ep ipv4 ipv6) \<longleftrightarrow>
    listed peers = [] \<or> (\<exists>peer \<in> set (listed peers). peer_admits ns peer ep ipv4 ipv6)"
proof (cases "listed peers = []")
  case True
  then have "sels = [default_selector]" using assms(1) by (simp add: sources_def)
  moreover have "matches_addressed default_selector ep ipv4 ipv6"
    using assms(4) by (auto simp: matches_addressed_def is_unconstrained_def selector_matches_def labels_match_def Let_def split: option.splits)
  ultimately show ?thesis using True by simp
next
  case False
  then have all: "list_all2 (\<lambda>e sel. peer_selector ns i e = Ok sel) (List.enumerate 0 (listed peers)) sels"
    using assms(1) by (simp add: sources_def Let_def try_map_eq_Inr)
  have "(\<exists>sel \<in> set sels. matches_addressed sel ep ipv4 ipv6) \<longleftrightarrow>
      (\<exists>e \<in> set (List.enumerate 0 (listed peers)). peer_admits ns (snd e) ep ipv4 ipv6)"
  proof (rule list_all2_ex [OF all])
    fix e sel
    assume e: "peer_selector ns i e = Ok sel" "e \<in> set (List.enumerate 0 (listed peers))"
    have peer: "snd e \<in> set (listed peers)" using e(2) map_snd_enumerate [of 0 "listed peers"] by (metis imageI list.set_map)
    have "peer_selector ns i (fst e, snd e) = Ok sel" using e(1) by simp
    from peer_selects [OF this assms(2) _ assms(4)] show "peer_admits ns (snd e) ep ipv4 ipv6 \<longleftrightarrow> matches_addressed sel ep ipv4 ipv6"
      using assms(3,5) peer by blast
  qed
  then show ?thesis using False set_enumerate_snd [of 0 "listed peers" "\<lambda>peer. peer_admits ns peer ep ipv4 ipv6"] by blast
qed

definition tuple_matches :: "Protocol option \<Rightarrow> DestinationPort \<Rightarrow> Flow \<Rightarrow> bool" where
  "tuple_matches protocol port f \<longleftrightarrow> (case protocol of None \<Rightarrow> True | Some v \<Rightarrow> v = flow_protocol f) \<and>
     (case port of AnyPort \<Rightarrow> True | Number n \<Rightarrow> n = flow_destination_port f
      | Named name \<Rightarrow> resolve_named_port (flow_destination f) name (flow_protocol f) = Some (flow_destination_port f)
      | Range s e \<Rightarrow> s \<le> flow_destination_port f \<and> flow_destination_port f \<le> e)"

lemma u16_try_from_Some: "u16_try_from n = Some w \<longleftrightarrow> uint w = n"
proof
  assume "u16_try_from n = Some w"
  then have "w = of_int n" "0 \<le> n" "n < 2 ^ 16" by (auto simp: u16_try_from_def split: if_splits)
  then show "uint w = n" by (simp add: take_bit_int_eq_self unsigned_of_int)
next
  assume "uint w = n"
  then show "u16_try_from n = Some w" using unsigned_less [of w, where ?'a = int] by (auto simp: u16_try_from_def)
qed

lemma port_range_selects:
  assumes "port_range_tuple protocol i j v start e = Ok (pr, po)" "uint start = v" "flow_destination_port f \<noteq> 0"
  shows "tuple_matches pr po f \<longleftrightarrow> protocol = flow_protocol f \<and>
    v \<le> uint (flow_destination_port f) \<and> uint (flow_destination_port f) \<le> e"
proof -
  from assms(1) obtain w where w: "u16_try_from e = Some w" by (auto simp: port_range_tuple_def split: option.splits)
  then have e: "uint w = e" by (simp add: u16_try_from_Some)
  have range: "start \<le> flow_destination_port f \<and> flow_destination_port f \<le> w \<longleftrightarrow>
      v \<le> uint (flow_destination_port f) \<and> uint (flow_destination_port f) \<le> e"
    using assms(2) e by (simp add: word_le_def)
  have full: "1 \<le> flow_destination_port f" "flow_destination_port f \<le> - 1"
    using assms(3) by (simp add: word_le_nat_alt Suc_le_eq unsigned_eq_0_iff flip: neq0_conv, simp)
  have "pr = Some protocol \<and> (po = AnyPort \<and> start = 1 \<and> w = - 1 \<or> po = (if start = w then Number start else Range start w) \<and> start \<le> w)"
    using assms(1) by (auto simp: port_range_tuple_def w Let_def split: if_splits)
  then show ?thesis using range full by (auto simp: tuple_matches_def split: if_splits)
qed

lemma port_selects:
  assumes "port_tuple i (j, port) = Ok (pr, po)" "flow_destination_port f \<noteq> 0"
  shows "tuple_matches pr po f \<longleftrightarrow> port_admits port f"
proof -
  let ?name = "case npp_protocol port of None \<Rightarrow> ''TCP'' | Some p \<Rightarrow> p"
  obtain protocol where p: "(if ?name = ''TCP'' then Ok Tcp else if ?name = ''UDP'' then Ok Udp else if ?name = ''SCTP'' then Ok Sctp
      else Err (UnsupportedProtocol i j ?name)) = Ok protocol"
    using assms(1) by (auto simp: port_tuple_def Let_def res_simps)
  have name: "?name = (case flow_protocol f of Tcp \<Rightarrow> ''TCP'' | Udp \<Rightarrow> ''UDP'' | Sctp \<Rightarrow> ''SCTP'' | Icmp \<Rightarrow> []) \<longleftrightarrow> protocol = flow_protocol f"
    using p by (cases "flow_protocol f") (auto split: if_splits)
  note run = assms(1) [unfolded port_tuple_def prod.case Let_def p rbind_Inr]
  show ?thesis
  proof (cases "npp_port port")
    case None
    then have "pr = Some protocol" "po = AnyPort" using run by (auto split: option.splits)
    then show ?thesis using None name by (simp add: tuple_matches_def port_admits_def)
  next
    case (Some k)
    show ?thesis
    proof (cases k)
      case (PortName n)
      then have "pr = Some protocol" "po = Named n" using run Some by (auto split: if_splits)
      then show ?thesis using Some PortName name by (auto simp: tuple_matches_def port_admits_def)
    next
      case (PortNumber v)
      obtain start where start: "u16_try_from v = Some start" using run Some PortNumber by (auto split: option.splits)
      then have v: "uint start = v" by (simp add: u16_try_from_Some)
      show ?thesis
      proof (cases "npp_end_port port")
        case None
        then have "pr = Some protocol" "po = Number start" using run Some PortNumber start by (auto split: if_splits)
        then show ?thesis using Some PortNumber None name v
          by (auto simp: tuple_matches_def port_admits_def dest!: unsigned_word_eqI)
      next
        case e: (Some e)
        then have "port_range_tuple protocol i j v start e = Ok (pr, po)" using run Some PortNumber start by (auto split: if_splits)
        from port_range_selects [OF this v assms(2)] show ?thesis using Some PortNumber e name by (simp add: port_admits_def)
      qed
    qed
  qed
qed

lemma ports_select:
  assumes "ports ps i = Ok ts" "flow_destination_port f \<noteq> 0"
  shows "(\<exists>t \<in> set ts. tuple_matches (fst t) (snd t) f) \<longleftrightarrow> listed ps = [] \<or> (\<exists>p \<in> set (listed ps). port_admits p f)"
proof (cases "listed ps = []")
  case True
  then have "ts = [(None, AnyPort)]" using assms(1) by (simp add: ports_def)
  then show ?thesis using True by (simp add: tuple_matches_def)
next
  case False
  then have all: "list_all2 (\<lambda>e t. port_tuple i e = Ok t) (List.enumerate 0 (listed ps)) ts"
    using assms(1) by (simp add: ports_def Let_def try_map_eq_Inr)
  have "(\<exists>t \<in> set ts. tuple_matches (fst t) (snd t) f) \<longleftrightarrow> (\<exists>e \<in> set (List.enumerate 0 (listed ps)). port_admits (snd e) f)"
    by (rule list_all2_ex [OF all]) (metis port_selects [OF _ assms(2)] prod.collapse)
  then show ?thesis using False set_enumerate_snd [of 0 "listed ps" "\<lambda>p. port_admits p f"] by blast
qed

section \<open>Rules and policies are compiled to their meaning\<close>

lemma rule_matches_parts:
  "rule_matches r f a \<longleftrightarrow> matches_addressed (rule_source r) (flow_source f) (flow_source_ipv4 f) (flow_source_ipv6 f) \<and>
     matches_addressed (rule_destination r) (flow_destination f) (dest_ipv4 a) (dest_ipv6 a) \<and>
     tuple_matches (rule_protocol r) (rule_destination_port r) f"
  by (auto simp: rule_matches_def matches_source_def matches_destination_def tuple_matches_def split: option.splits DestinationPort.splits)

lemma map_rule_error_Ok [simp]: "map_rule_error r = Ok v \<longleftrightarrow> r = Ok v"
  by (auto simp: map_rule_error_def split: sum.splits)

definition ends_match :: "IdentitySelector \<times> IdentitySelector \<Rightarrow> Flow \<Rightarrow> DestinationAddresses \<Rightarrow> bool" where
  "ends_match e f a \<longleftrightarrow> matches_addressed (fst e) (flow_source f) (flow_source_ipv4 f) (flow_source_ipv6 f) \<and>
     matches_addressed (snd e) (flow_destination f) (dest_ipv4 a) (dest_ipv6 a)"

lemma pushed_rule:
  assumes "push_rule rules pid name ns src dst pr po action i = Ok rules'"
  shows "\<exists>r. rules' = rules @ [r] \<and> rule_source r = src \<and> rule_destination r = dst \<and> rule_protocol r = pr \<and>
    rule_destination_port r = po \<and> rule_action r = action \<and> prov_policy_id (rule_provenance r) = pid"
  using assms by (auto simp: push_rule_def split: option.splits)

text \<open>The rules a loop over peers and ports appends: one per pair, allowing, and matching what the pair matches.\<close>

lemma pushed_ports:
  assumes "try_fold (\<lambda>rules (protocol, port). map_rule_error (push_rule rules pid name ns src dst protocol port AllowAction i)) rules ts = Ok rules'"
  shows "\<exists>new. rules' = rules @ new \<and> list_all2 (\<lambda>r t. rule_source r = src \<and> rule_destination r = dst \<and> rule_protocol r = fst t \<and>
    rule_destination_port r = snd t \<and> rule_action r = AllowAction \<and> prov_policy_id (rule_provenance r) = pid) new ts"
  using assms
proof (induction ts arbitrary: rules)
  case (Cons t ts)
  obtain pr po where t: "t = (pr, po)" by (cases t)
  from Cons.prems obtain mid where mid: "push_rule rules pid name ns src dst pr po AllowAction i = Ok mid"
    and rest: "try_fold (\<lambda>rules (protocol, port). map_rule_error (push_rule rules pid name ns src dst protocol port AllowAction i)) mid ts = Ok rules'"
    by (auto simp: t res_simps)
  from pushed_rule [OF mid] obtain r where r: "mid = rules @ [r]" "rule_source r = src" "rule_destination r = dst" "rule_protocol r = pr"
    "rule_destination_port r = po" "rule_action r = AllowAction" "prov_policy_id (rule_provenance r) = pid" by blast
  from Cons.IH [OF rest] obtain new where new: "rules' = mid @ new" "list_all2 (\<lambda>r t. rule_source r = src \<and> rule_destination r = dst \<and>
    rule_protocol r = fst t \<and> rule_destination_port r = snd t \<and> rule_action r = AllowAction \<and> prov_policy_id (rule_provenance r) = pid) new ts" by blast
  show ?case using r new by (intro exI [of _ "r # new"]) (simp add: t)
qed simp

definition compiled_from :: "u32 \<Rightarrow> (IdentitySelector \<Rightarrow> IdentitySelector \<times> IdentitySelector) \<Rightarrow> IdentitySelector list \<Rightarrow>
  (Protocol option \<times> DestinationPort) list \<Rightarrow> PolicyRule \<Rightarrow> bool" where
  "compiled_from pid ends sels ts r \<longleftrightarrow> rule_action r = AllowAction \<and> prov_policy_id (rule_provenance r) = pid \<and>
     (\<exists>sel \<in> set sels. (rule_source r, rule_destination r) = ends sel) \<and> (rule_protocol r, rule_destination_port r) \<in> set ts"

lemma pushed_peers:
  assumes "try_fold (\<lambda>rules selector. try_fold (\<lambda>rules (protocol, port).
      map_rule_error (push_rule rules pid name ns (fst (ends selector)) (snd (ends selector)) protocol port AllowAction i)) rules ts)
    rules sels = Ok rules'"
  shows "\<exists>new. rules' = rules @ new \<and> (\<forall>r \<in> set new. compiled_from pid ends sels ts r) \<and>
    (\<forall>sel \<in> set sels. \<forall>t \<in> set ts. \<exists>r \<in> set new. (rule_source r, rule_destination r) = ends sel \<and>
      (rule_protocol r, rule_destination_port r) = t)"
  using assms
proof (induction sels arbitrary: rules)
  case (Cons sel sels)
  from Cons.prems obtain mid where
    mid: "try_fold (\<lambda>rules (protocol, port). map_rule_error (push_rule rules pid name ns (fst (ends sel)) (snd (ends sel)) protocol port
      AllowAction i)) rules ts = Ok mid"
    and rest: "try_fold (\<lambda>rules selector. try_fold (\<lambda>rules (protocol, port).
      map_rule_error (push_rule rules pid name ns (fst (ends selector)) (snd (ends selector)) protocol port AllowAction i)) rules ts)
      mid sels = Ok rules'" by (auto simp: res_simps)
  from pushed_ports [OF mid] obtain here where here: "mid = rules @ here" "list_all2 (\<lambda>r t. rule_source r = fst (ends sel) \<and>
    rule_destination r = snd (ends sel) \<and> rule_protocol r = fst t \<and> rule_destination_port r = snd t \<and> rule_action r = AllowAction \<and>
    prov_policy_id (rule_provenance r) = pid) here ts" by blast
  have h1: "compiled_from pid ends (sel # sels) ts r" if "r \<in> set here" for r
    using that here(2) by (auto simp: compiled_from_def in_set_conv_nth list_all2_conv_all_nth prod_eq_iff)
  have h2: "\<exists>r \<in> set here. (rule_source r, rule_destination r) = ends sel \<and> (rule_protocol r, rule_destination_port r) = t"
    if "t \<in> set ts" for t
    using that here(2) by (fastforce simp: in_set_conv_nth list_all2_conv_all_nth prod_eq_iff)
  from Cons.IH [OF rest] obtain new where new: "rules' = mid @ new" "\<forall>r \<in> set new. compiled_from pid ends sels ts r"
    "\<forall>sel \<in> set sels. \<forall>t \<in> set ts. \<exists>r \<in> set new. (rule_source r, rule_destination r) = ends sel \<and>
      (rule_protocol r, rule_destination_port r) = t" by blast
  have "compiled_from pid ends (sel # sels) ts r" if "r \<in> set new" for r
    using new(2) that by (auto simp: compiled_from_def)
  then show ?case using here(1) new(1,3) h1 h2 by (intro exI [of _ "here @ new"]) fastforce
qed simp

fun ends_of :: "PolicyDirection \<Rightarrow> IdentitySelector \<Rightarrow> IdentitySelector \<Rightarrow> IdentitySelector \<times> IdentitySelector" where
  "ends_of Ingress target sel = (sel, target)"
| "ends_of Egress target sel = (target, sel)"

fun near_matches :: "PolicyDirection \<Rightarrow> IdentitySelector \<Rightarrow> Flow \<Rightarrow> DestinationAddresses \<Rightarrow> bool" where
  "near_matches Ingress target f a = matches_addressed target (flow_destination f) (dest_ipv4 a) (dest_ipv6 a)"
| "near_matches Egress target f a = matches_addressed target (flow_source f) (flow_source_ipv4 f) (flow_source_ipv6 f)"

text \<open>The flows the meaning is claimed for: one address per end, a port, labelled namespaces, and a far end
  that is a pod unless the rules constrain their peers.\<close>

definition plain_rule :: "PolicyDirection \<Rightarrow> Flow \<Rightarrow> DestinationAddresses \<Rightarrow> NetworkPolicyRule \<Rightarrow> bool" where
  "plain_rule d f a rule \<longleftrightarrow> (\<forall>peer \<in> set (listed (npr_peers rule)). peer_sorted peer \<and>
     (ep_identity (fst (peer_end d f a)) \<noteq> 0 \<or> \<not> vacuous_peer peer))"

definition plain_flow :: "Flow \<Rightarrow> DestinationAddresses \<Rightarrow> bool" where
  "plain_flow f a \<longleftrightarrow> labelled (flow_source f) \<and> labelled (flow_destination f) \<and> flow_destination_port f \<noteq> 0 \<and>
     (flow_source_ipv4 f = None \<or> flow_source_ipv6 f = None) \<and> (dest_ipv4 a = None \<or> dest_ipv6 a = None)"

lemma direction_rule_admits:
  assumes "compile_direction_rule pid name ns (ends_of d target) sources rules (i, rule) = Ok rules'"
    and "plain_flow f a" "plain_rule d f a rule" "near_matches d target f a"
  shows "\<exists>new. rules' = rules @ new \<and> (\<forall>r \<in> set new. rule_action r = AllowAction \<and> prov_policy_id (rule_provenance r) = pid) \<and>
    ((\<exists>r \<in> set new. rule_matches r f a) \<longleftrightarrow> rule_admits d ns rule f a)"
proof -
  obtain ep ipv4 ipv6 where far: "peer_end d f a = (ep, ipv4, ipv6)" by (cases "peer_end d f a")
  from assms(1) obtain sels ts where sels: "sources (npr_peers rule) ns i = Ok sels" and ts: "ports (npr_ports rule) i = Ok ts"
    and fold: "try_fold (\<lambda>rules selector. try_fold (\<lambda>rules (protocol, port).
      map_rule_error (push_rule rules pid name ns (fst (ends_of d target selector)) (snd (ends_of d target selector)) protocol port AllowAction i))
      rules ts) rules sels = Ok rules'"
    by (auto simp: compile_direction_rule_def res_simps)
  from pushed_peers [OF fold] obtain new where new: "rules' = rules @ new" "\<forall>r \<in> set new. compiled_from pid (ends_of d target) sels ts r"
    "\<forall>sel \<in> set sels. \<forall>t \<in> set ts. \<exists>r \<in> set new. (rule_source r, rule_destination r) = ends_of d target sel \<and>
      (rule_protocol r, rule_destination_port r) = t" by blast
  have side: "labelled ep" "ipv4 = None \<or> ipv6 = None" using assms(2) far by (cases d; auto simp: plain_flow_def)+
  have parts: "rule_matches r f a \<longleftrightarrow> matches_addressed sel ep ipv4 ipv6 \<and> tuple_matches (rule_protocol r) (rule_destination_port r) f"
    if "(rule_source r, rule_destination r) = ends_of d target sel" for r sel
    using that far assms(4) by (cases d) (auto simp: rule_matches_parts)
  have "(\<exists>r \<in> set new. rule_matches r f a) \<longleftrightarrow>
      (\<exists>sel \<in> set sels. matches_addressed sel ep ipv4 ipv6) \<and> (\<exists>t \<in> set ts. tuple_matches (fst t) (snd t) f)"
  proof
    assume "\<exists>r \<in> set new. rule_matches r f a"
    then obtain r where r: "r \<in> set new" "rule_matches r f a" by blast
    obtain sel where "sel \<in> set sels" "(rule_source r, rule_destination r) = ends_of d target sel"
      "(rule_protocol r, rule_destination_port r) \<in> set ts" using new(2) r(1) by (auto simp: compiled_from_def)
    then show "(\<exists>sel \<in> set sels. matches_addressed sel ep ipv4 ipv6) \<and> (\<exists>t \<in> set ts. tuple_matches (fst t) (snd t) f)"
      using parts [of r sel] r(2) by force
  next
    assume "(\<exists>sel \<in> set sels. matches_addressed sel ep ipv4 ipv6) \<and> (\<exists>t \<in> set ts. tuple_matches (fst t) (snd t) f)"
    then obtain sel t where st: "sel \<in> set sels" "matches_addressed sel ep ipv4 ipv6" "t \<in> set ts" "tuple_matches (fst t) (snd t) f" by blast
    obtain r where r: "r \<in> set new" "(rule_source r, rule_destination r) = ends_of d target sel" "(rule_protocol r, rule_destination_port r) = t"
      using new(3) st(1,3) by blast
    then show "\<exists>r \<in> set new. rule_matches r f a" using parts [OF r(2)] st(2,4) by auto
  qed
  also have "\<dots> \<longleftrightarrow> rule_admits d ns rule f a"
    using peers_select [OF sels side(1) _ side(2)] ports_select [OF ts] assms(2,3) far
    by (auto simp: rule_admits_def plain_rule_def plain_flow_def)
  finally show ?thesis using new(1,2) by (auto simp: compiled_from_def)
qed

lemma direction_rules_admit:
  assumes "try_fold (compile_direction_rule pid name ns (ends_of d target) sources) rules (List.enumerate n rs) = Ok rules'"
    and "plain_flow f a" "\<forall>rule \<in> set rs. plain_rule d f a rule" "near_matches d target f a"
  shows "\<exists>new. rules' = rules @ new \<and> (\<forall>r \<in> set new. rule_action r = AllowAction \<and> prov_policy_id (rule_provenance r) = pid) \<and>
    ((\<exists>r \<in> set new. rule_matches r f a) \<longleftrightarrow> (\<exists>rule \<in> set rs. rule_admits d ns rule f a))"
  using assms(1,3)
proof (induction rs arbitrary: n rules)
  case (Cons rule rs)
  from Cons.prems(1) obtain mid where mid: "compile_direction_rule pid name ns (ends_of d target) sources rules (n, rule) = Ok mid"
    and rest: "try_fold (compile_direction_rule pid name ns (ends_of d target) sources) mid (List.enumerate (Suc n) rs) = Ok rules'"
    by (auto simp: res_simps)
  from direction_rule_admits [OF mid assms(2) _ assms(4)] Cons.prems(2) obtain here where
    here: "mid = rules @ here" "\<forall>r \<in> set here. rule_action r = AllowAction \<and> prov_policy_id (rule_provenance r) = pid"
      "(\<exists>r \<in> set here. rule_matches r f a) \<longleftrightarrow> rule_admits d ns rule f a" by auto
  from Cons.IH [OF rest] Cons.prems(2) obtain new where
    "rules' = mid @ new" "\<forall>r \<in> set new. rule_action r = AllowAction \<and> prov_policy_id (rule_provenance r) = pid"
      "(\<exists>r \<in> set new. rule_matches r f a) \<longleftrightarrow> (\<exists>rule \<in> set rs. rule_admits d ns rule f a)" by auto
  then show ?case using here by (intro exI [of _ "here @ new"]) auto
qed simp

lemma directions_fold:
  assumes "try_fold (\<lambda>(ingress, egress) policy_type. if policy_type = ''Ingress'' then Ok (True, egress)
      else if policy_type = ''Egress'' then Ok (ingress, True) else Err (UnsupportedPolicyType policy_type)) (i, e) ts = Ok (i', e')"
  shows "i' \<longleftrightarrow> i \<or> ''Ingress'' \<in> set ts" "e' \<longleftrightarrow> e \<or> ''Egress'' \<in> set ts"
  using assms by (induction ts arbitrary: i e) (auto simp: res_simps split: if_splits)

lemma directions_effective:
  assumes "policy_directions (nps_policy_types spec) (nps_egress spec) = Ok (i, e)"
  shows "i \<longleftrightarrow> effective Ingress spec" "e \<longleftrightarrow> effective Egress spec"
proof -
  have "(i \<longleftrightarrow> effective Ingress spec) \<and> (e \<longleftrightarrow> effective Egress spec)"
  proof (cases "listed (nps_policy_types spec)")
    case Nil
    then show ?thesis using assms by (auto simp: policy_directions_def split: option.splits list.splits)
  next
    case (Cons t ts)
    then have types: "nps_policy_types spec = Some (t # ts)" by (auto split: option.splits)
    show ?thesis using directions_fold [OF assms [unfolded policy_directions_def types option.case list.case]] by (simp add: types)
  qed
  then show "i \<longleftrightarrow> effective Ingress spec" "e \<longleftrightarrow> effective Egress spec" by auto
qed

lemma compile_directions_Ok:
  assumes "compile_directions pid np = Ok ps"
  obtains name ns spec target where "np_namespace np = Some ns" "np_spec np = Some spec"
    "pod_identity_selector (target_selector spec) (Some ns) ''podSelector'' = Ok target"
    "\<And>p. p \<in> set ps \<Longrightarrow> \<exists>d rules. p = compatibility_policy_ir pid name ns d target rules \<and> effective d spec \<and>
      try_fold (compile_direction_rule pid name ns (ends_of d target) sources) [] (List.enumerate 0 (direction_rules d spec)) = Ok rules"
    "\<And>d. effective d spec \<Longrightarrow> \<exists>p \<in> set ps. pol_direction p = d"
proof -
  from assms obtain name ns spec i e target where np: "np_name np = Some name" "np_namespace np = Some ns" "np_spec np = Some spec"
    and dirs: "policy_directions (nps_policy_types spec) (nps_egress spec) = Ok (i, e)"
    and target: "pod_identity_selector (target_selector spec) (Some ns) ''podSelector'' = Ok target"
    by (auto simp: compile_directions_def target_selector_def res_simps split: option.splits)
  let ?rules = "\<lambda>d. try_fold (compile_direction_rule pid name ns (ends_of d target) sources) [] (List.enumerate 0 (direction_rules d spec))"
  have ends: "(\<lambda>source. (source, target)) = ends_of Ingress target" "(\<lambda>destination. (target, destination)) = ends_of Egress target"
    by (simp_all add: fun_eq_iff)
  note run = assms [unfolded compile_directions_def np option.case dirs rbind_Inr prod.case target [unfolded target_selector_def] ends sources_destinations
    direction_rules.simps [symmetric]]
  note eff = directions_effective [OF dirs]
  obtain p1 p2 where ps: "ps = p1 @ p2"
    and p1: "if i then \<exists>rules. ?rules Ingress = Ok rules \<and> p1 = [compatibility_policy_ir pid name ns Ingress target rules] else p1 = []"
    and p2: "if e then \<exists>rules. ?rules Egress = Ok rules \<and> p2 = [compatibility_policy_ir pid name ns Egress target rules] else p2 = []"
    using run by (cases i; cases e) (auto simp: res_simps)
  show thesis
  proof (rule that [OF np(2,3) target])
    show "\<exists>d rules. p = compatibility_policy_ir pid name ns d target rules \<and> effective d spec \<and> ?rules d = Ok rules" if p: "p \<in> set ps" for p
    proof -
      consider "i" "p \<in> set p1" | "e" "p \<in> set p2" using p p1 p2 unfolding ps set_append by (metis Un_iff empty_iff empty_set)
      then show ?thesis
      proof cases
        case 1
        then obtain rules where "?rules Ingress = Ok rules" "p = compatibility_policy_ir pid name ns Ingress target rules"
          using p1 by (auto simp del: direction_rules.simps)
        then show ?thesis using 1(1) eff(1) by blast
      next
        case 2
        then obtain rules where "?rules Egress = Ok rules" "p = compatibility_policy_ir pid name ns Egress target rules"
          using p2 by (auto simp del: direction_rules.simps)
        then show ?thesis using 2(1) eff(2) by blast
      qed
    qed
    show "\<exists>p \<in> set ps. pol_direction p = d" if "effective d spec" for d
      using that ps p1 p2 eff by (cases d) (auto simp: compatibility_policy_ir_def split: if_splits)
  qed
qed

lemma target_selects:
  assumes "pod_identity_selector s (Some ns) fld = Ok target"
  shows "selector_matches target ep \<longleftrightarrow> ep_namespace ep = ns \<and> selects s (ep_labels ep)"
    and "sel_ipv4_blocks target = []" "sel_ipv6_blocks target = []"
proof -
  from pod_selector_selects(2) [OF assms] obtain ls es where
    t: "target = default_selector\<lparr>sel_namespace := Some ns, sel_match_labels := ls, sel_match_expressions := es\<rparr>" by blast
  show "selector_matches target ep \<longleftrightarrow> ep_namespace ep = ns \<and> selects s (ep_labels ep)"
    using pod_selector_selects(1) [OF assms, of "ep_labels ep"] by (auto simp: t selector_matches_fields)
  show "sel_ipv4_blocks target = []" "sel_ipv6_blocks target = []" by (simp_all add: t)
qed

text \<open>One compiled policy: it is an allow list, it applies where the object selects, and its rules match what the object allows.\<close>

lemma compiled_policy_meaning:
  assumes "compile_directions pid np = Ok ps" "p \<in> set ps" "pol_direction p = d" "plain_flow f a"
    and "ep_identity (selected_endpoint d f) \<noteq> 0"
    and "\<And>spec rule. np_spec np = Some spec \<Longrightarrow> rule \<in> set (direction_rules d spec) \<Longrightarrow> plain_rule d f a rule"
  shows "applicable d f p \<longleftrightarrow> np_selects d np (selected_endpoint d f)"
    and "applicable d f p \<Longrightarrow> (\<exists>r \<in> set (pol_rules p). rule_matches r f a) \<longleftrightarrow> np_allows d np f a"
    and "applicable d f p \<Longrightarrow> allow_list_policy p" "pol_enforcement_mode p = Enforce"
proof -
  obtain name ns spec target where np: "np_namespace np = Some ns" "np_spec np = Some spec"
    and target: "pod_identity_selector (target_selector spec) (Some ns) ''podSelector'' = Ok target"
    and all: "\<And>p. p \<in> set ps \<Longrightarrow> \<exists>d rules. p = compatibility_policy_ir pid name ns d target rules \<and> effective d spec \<and>
      try_fold (compile_direction_rule pid name ns (ends_of d target) sources) [] (List.enumerate 0 (direction_rules d spec)) = Ok rules"
    by (rule compile_directions_Ok [OF assms(1)]) blast
  from all [OF assms(2)] assms(3) obtain rules where p: "p = compatibility_policy_ir pid name ns d target rules" "effective d spec"
    and rules: "try_fold (compile_direction_rule pid name ns (ends_of d target) sources) [] (List.enumerate 0 (direction_rules d spec)) = Ok rules"
    by (auto simp: compatibility_policy_ir_def)
  note t = target_selects [OF target]
  show app: "applicable d f p \<longleftrightarrow> np_selects d np (selected_endpoint d f)"
    using p np by (simp add: applicable_def compatibility_policy_ir_def np_selects_def t(1))
  show "pol_enforcement_mode p = Enforce" by (simp add: p(1) compatibility_policy_ir_def)
  assume "applicable d f p"
  then have "selector_matches target (selected_endpoint d f)" by (simp add: applicable_def p(1) compatibility_policy_ir_def)
  then have "near_matches d target f a"
    using assms(4,5) t(2,3) by (cases d) (auto simp: matches_addressed_def selected_endpoint_def plain_flow_def Let_def split: option.splits)
  from direction_rules_admit [OF rules assms(4) _ this] assms(6) [OF np(2)] show
    "(\<exists>r \<in> set (pol_rules p). rule_matches r f a) \<longleftrightarrow> np_allows d np f a" "allow_list_policy p"
    using np by (auto simp: p(1) compatibility_policy_ir_def np_allows_def allow_list_policy_def list_all_iff)
qed

subsection \<open>A sample object\<close>

definition any_labels :: LabelSelector where
  "any_labels = \<lparr>ls_match_labels = None, ls_match_expressions = None\<rparr>"

definition label_is :: "string \<Rightarrow> string \<Rightarrow> LabelSelector" where
  "label_is k v = \<lparr>ls_match_labels = Some [(k, v)], ls_match_expressions = None\<rparr>"

definition tier_in :: "string list \<Rightarrow> LabelSelector" where
  "tier_in values = \<lparr>ls_match_labels = None,
     ls_match_expressions = Some [\<lparr>req_key = ''tier'', req_operator = ''In'', req_values = Some values\<rparr>]\<rparr>"

definition web_policy_object :: "NetworkPolicyPeer list \<Rightarrow> NetworkPolicyPort list \<Rightarrow> NetworkPolicy" where
  "web_policy_object peers rule_ports = \<lparr>np_name = Some ''web'', np_namespace = Some ''shop'', np_spec = Some
     \<lparr>nps_pod_selector = Some (label_is ''app'' ''web''), nps_policy_types = Some [''Ingress''],
      nps_ingress = Some [\<lparr>npr_peers = Some peers, npr_ports = Some rule_ports\<rparr>],
      nps_egress = None\<rparr>\<rparr>"

definition range_port :: NetworkPolicyPort where
  "range_port = \<lparr>npp_protocol = None, npp_port = Some (PortNumber 8000), npp_end_port = Some 8010\<rparr>"

definition https_port :: NetworkPolicyPort where
  "https_port = \<lparr>npp_protocol = Some ''TCP'', npp_port = Some (PortName ''https''), npp_end_port = None\<rparr>"

definition namespace_peer :: NetworkPolicyPeer where
  "namespace_peer = \<lparr>peer_ip_block = None, peer_namespace_selector = Some any_labels, peer_pod_selector = None\<rparr>"

definition tier_peer :: NetworkPolicyPeer where
  "tier_peer = \<lparr>peer_ip_block = None, peer_namespace_selector = None, peer_pod_selector = Some (tier_in [''front'', ''edge''])\<rparr>"

definition block_peer :: NetworkPolicyPeer where
  "block_peer = \<lparr>peer_ip_block = Some \<lparr>ipb_cidr = ''192.0.2.0/24'', ipb_except = Some [''192.0.2.8/29'']\<rparr>,
     peer_namespace_selector = None, peer_pod_selector = None\<rparr>"

definition shop_endpoint :: "u32 \<Rightarrow> labels \<Rightarrow> Endpoint" where
  "shop_endpoint identity labels = \<lparr>ep_identity = identity, ep_namespace = ''shop'',
     ep_namespace_labels = [(NAMESPACE_NAME_LABEL, ''shop'')], ep_service_account = ''default'', ep_application = None,
     ep_labels = labels, ep_named_ports = [(NamedPort ''https'' Tcp, 443)]\<rparr>"

definition shop_flow :: "Endpoint \<Rightarrow> u32 \<Rightarrow> u16 \<Rightarrow> Flow" where
  "shop_flow source address port = \<lparr>flow_source = source, flow_destination = shop_endpoint 2 [(''app'', ''web'')],
     flow_protocol = Tcp, flow_destination_port = port, flow_source_ipv4 = Some address, flow_source_ipv6 = None\<rparr>"

lemmas text_simps = split_once_def parse_ipv4_def read_ipv4_addr_def read_octet_def read_separator_def read_number_def
  is_digit_def digit_value_def digits_value_def parse_u8_def Let_def mask_eq_exp_minus_1

lemma sample_block_texts:
  "parse_ipv4_cidr ''192.0.2.0/24'' = Some (Ipv4Cidr 0xC0000200 24)" "parse_ipv4_cidr ''192.0.2.8/29'' = Some (Ipv4Cidr 0xC0000208 29)"
  by (simp_all add: parse_ipv4_cidr_def text_simps)

lemma sample_block_not_ipv6: "parse_ipv6_cidr ''192.0.2.0/24'' = None"
  by (simp add: parse_ipv6_cidr_def parse_ipv6_def read_ipv6_addr_def read_groups.simps [of _ 0] text_simps)

lemma sample_ports:
  "port_tuple 0 (0, range_port) = Ok (Some Tcp, Range 8000 8010)" "port_tuple 0 (j, https_port) = Ok (Some Tcp, Named ''https'')"
  by (simp_all add: port_tuple_def port_range_tuple_def range_port_def https_port_def u16_try_from_def KUBERNETES_NETWORK_POLICY_MAX_PORT_RANGE_WIDTH_def)

lemma sample_peers:
  "peer_selector ''shop'' 0 (0, namespace_peer) = Ok default_selector"
  "\<exists>sel. peer_selector ''shop'' 0 (0, tier_peer) = Ok sel"
  "\<exists>sel. peer_selector ''shop'' 0 (1, block_peer) = Ok sel"
proof -
  show "peer_selector ''shop'' 0 (0, namespace_peer) = Ok default_selector"
    by (simp add: peer_selector_def namespace_peer_def namespace_identity_selector_def match_expressions_def any_labels_def
        selector_labels_def expression_set_def bt_get_def bt_remove_def default_selector_def)
  show "\<exists>sel. peer_selector ''shop'' 0 (0, tier_peer) = Ok sel"
    by (simp add: peer_selector_def tier_peer_def pod_identity_selector_def match_expressions_def tier_in_def label_expression_def)
  have "sum_list (map cidr4_address_count (btree_set [Ipv4Cidr 0xC0000208 29])) = 8"
    by (simp add: btree_set_def cidr4_address_count_def)
  then show "\<exists>sel. peer_selector ''shop'' 0 (1, block_peer) = Ok sel"
    by (simp add: peer_selector_def block_peer_def ip_block_selector_def sample_block_texts sample_block_not_ipv6 except_cidr_def Let_def
        cidr4_contains_cidr_def cidr4_contains_def cidr4_address_count_def KUBERNETES_NETWORK_POLICY_MAX_IP_BLOCK_ADDRESSES_def
        validate_global_ipv4_exceptions_def mask_eq_exp_minus_1)
qed

lemma sample_compiles: "\<exists>ps. compile_directions 7 (web_policy_object [tier_peer, block_peer] [range_port, https_port]) = Ok ps"
proof -
  obtain s1 s2 where peers: "peer_selector ''shop'' 0 (0, tier_peer) = Ok s1" "peer_selector ''shop'' 0 (Suc 0, block_peer) = Ok s2"
    using sample_peers(2,3) by auto
  show ?thesis
    by (simp add: compile_directions_def web_policy_object_def policy_directions_def pod_identity_selector_def match_expressions_def
        label_is_def compile_direction_rule_def sources_def ports_def peers sample_ports map_rule_error_def push_rule_def u32_try_from_def)
qed

definition open_target :: IdentitySelector where
  "open_target = default_selector\<lparr>sel_namespace := Some ''shop'', sel_match_labels := [(''app'', ''web'')], sel_match_expressions := []\<rparr>"

definition open_policy :: PolicyIr where
  "open_policy = compatibility_policy_ir 7 ''web'' ''shop'' Ingress open_target
     [\<lparr>rule_id = 0, rule_source = default_selector, rule_destination = open_target, rule_protocol = Some Tcp,
       rule_destination_port = Named ''https'', rule_action = AllowAction, rule_provenance = \<lparr>prov_policy_id = 7,
       prov_policy_name = ''web'', prov_namespace = ''shop'', prov_rule_index = 0\<rparr>\<rparr>]"

lemma open_sample_compiles: "compile_directions 7 (web_policy_object [namespace_peer] [https_port]) = Ok [open_policy]"
  by (simp add: compile_directions_def web_policy_object_def policy_directions_def pod_identity_selector_def match_expressions_def
      label_is_def compile_direction_rule_def sources_def ports_def sample_peers sample_ports map_rule_error_def push_rule_def u32_try_from_def
      selector_labels_def expression_set_def open_policy_def open_target_def)

lemma sample_tier_admits:
  "peer_admits ''shop'' tier_peer (shop_endpoint 1 labels) v4 v6 \<longleftrightarrow> bt_get labels ''tier'' \<in> {Some ''front'', Some ''edge''}"
proof -
  have "selects (tier_in [''front'', ''edge'']) labels \<longleftrightarrow> bt_get labels ''tier'' = Some ''front'' \<or> bt_get labels ''tier'' = Some ''edge''"
    by (simp add: selects_def tier_in_def selector_labels_def requirement_holds_def)
  then show ?thesis by (simp add: peer_admits_def tier_peer_def shop_endpoint_def)
qed

lemma sample_block_admits: "\<not> peer_admits ''shop'' block_peer ep (Some 5) None"
  by (simp add: peer_admits_def block_peer_def block_admits_def sample_block_texts cidr4_contains_def mask_eq_exp_minus_1)

lemma sample_ports_admit:
  "port_admits range_port (shop_flow ep address port) \<longleftrightarrow> 8000 \<le> uint port \<and> uint port \<le> 8010"
  "port_admits https_port (shop_flow ep address port) \<longleftrightarrow> port = 443"
  by (auto simp: port_admits_def range_port_def https_port_def shop_flow_def shop_endpoint_def resolve_named_port_def bt_get_def)

lemma sample_policy_selects:
  "np_selects Ingress (web_policy_object peers rule_ports) (selected_endpoint Ingress (shop_flow ep address port))"
proof -
  have "selects (label_is ''app'' ''web'') [(''app'', ''web'')]"
    by (simp add: selects_def label_is_def selector_labels_def bt_get_def)
  then show ?thesis
    by (simp add: np_selects_def web_policy_object_def target_selector_def selected_endpoint_def shop_flow_def shop_endpoint_def)
qed

lemma sample_policy_allows:
  "np_allows Ingress (web_policy_object peers rule_ports) f a \<longleftrightarrow>
     (peers = [] \<or> (\<exists>peer \<in> set peers. peer_admits ''shop'' peer (flow_source f) (flow_source_ipv4 f) (flow_source_ipv6 f))) \<and>
     (rule_ports = [] \<or> (\<exists>port \<in> set rule_ports. port_admits port f))"
  by (auto simp: np_allows_def web_policy_object_def rule_admits_def)




section \<open>Compiled policies are well formed\<close>

lemma try_map_from:
  assumes "try_map f xs = Ok ys" "y \<in> set ys"
  shows "\<exists>x \<in> set xs. f x = Ok y"
proof -
  have "list_all2 (\<lambda>x y. f x = Ok y) xs ys" using assms(1) by (simp add: try_map_eq_Inr)
  then show ?thesis using assms(2) by (induction rule: list_all2_induct) auto
qed

lemma sum_list_member: "x \<in> set xs \<Longrightarrow> f x \<le> sum_list (map f xs)" for f :: "'a \<Rightarrow> nat"
  by (induction xs) auto

lemma ip_block_excepts:
  assumes "ip_block_selector b i j = Ok sel"
  shows "proper_excepts (sel_ipv4_blocks sel)"
proof (cases "parse_ipv6_cidr (ipb_cidr b)")
  case (Some c)
  with assms show ?thesis by (auto simp: ip_block_selector_def Let_def res_simps proper_excepts_def)
next
  case None
  with assms obtain c es where
    es: "try_map (except_cidr parse_ipv4_cidr (cidr4_contains_cidr c) i j (ipb_cidr b)) (excepts b) = Ok es"
      "validate_global_ipv4_exceptions c (btree_set es) i j = Ok ()"
    and sel: "sel = default_selector\<lparr>sel_ipv4_blocks := [\<lparr>block4_cidr = c, block4_except = btree_set es\<rparr>]\<rparr>"
    by (auto simp: ip_block_selector_def Let_def res_simps split: option.splits)
  have "prefix_len4 e \<noteq> 0" if e: "e \<in> set es" for e
  proof (cases "prefix_len4 c = 0")
    case True
    have "cidr4_address_count e \<le> sum_list (map cidr4_address_count (btree_set es))"
      using e by (simp add: sum_list_member set_btree_set)
    also have "\<dots> \<le> 1024" using es(2) True
      by (auto simp: validate_global_ipv4_exceptions_def KUBERNETES_NETWORK_POLICY_MAX_IP_BLOCK_ADDRESSES_def Let_def split: if_splits)
    finally show ?thesis by (auto simp: cidr4_address_count_def)
  next
    case False
    have "cidr4_contains_cidr c e" using excepts_parsed(2) [OF es(1)] e by blast
    then show ?thesis using False by (auto simp: cidr4_contains_cidr_def)
  qed
  then show ?thesis by (auto simp: sel proper_excepts_def list_all_iff set_btree_set)
qed

lemma peer_excepts:
  assumes "peer_selector ns i (j, peer) = Ok sel"
  shows "proper_excepts (sel_ipv4_blocks sel)"
proof (cases "peer_ip_block peer")
  case (Some b)
  then have "ip_block_selector b i j = Ok sel" using assms by (auto simp: peer_selector_def split: if_splits)
  then show ?thesis by (rule ip_block_excepts)
next
  case None
  then obtain n ls es base where base: "pod_part (peer_pod_selector peer) = Ok base"
    and sel: "sel = base\<lparr>sel_namespace := n, sel_namespace_match_labels := ls, sel_namespace_match_expressions := es\<rparr>"
    using assms by (auto simp: peer_selector_def res_simps)
  show ?thesis by (rule pod_part_selects [OF base]) (simp add: sel proper_excepts_def)
qed

lemma sources_excepts:
  assumes "sources peers ns i = Ok sels" "sel \<in> set sels"
  shows "proper_excepts (sel_ipv4_blocks sel)"
proof (cases "listed peers = []")
  case True
  then show ?thesis using assms by (auto simp: sources_def proper_excepts_def)
next
  case False
  then have "try_map (peer_selector ns i) (List.enumerate 0 (listed peers)) = Ok sels"
    using assms(1) by (simp add: sources_def Let_def)
  from try_map_from [OF this assms(2)] obtain j peer where "peer_selector ns i (j, peer) = Ok sel" by (auto simp del: in_set_enumerate_eq)
  then show ?thesis by (rule peer_excepts)
qed

definition tuple_wf :: "Protocol option \<times> DestinationPort \<Rightarrow> bool" where
  "tuple_wf t \<longleftrightarrow> fst t \<noteq> Some Icmp \<and> (case snd t of AnyPort \<Rightarrow> True | Number p \<Rightarrow> fst t \<noteq> None \<and> p \<noteq> 0
     | Named _ \<Rightarrow> fst t \<noteq> None | Range s _ \<Rightarrow> fst t \<noteq> None \<and> s \<noteq> 0)"

lemma port_range_wf:
  assumes "port_range_tuple protocol i j v start e = Ok t" "start \<noteq> 0" "protocol \<noteq> Icmp"
  shows "tuple_wf t"
  using assms by (auto simp: port_range_tuple_def tuple_wf_def Let_def split: option.splits if_splits)

lemma port_tuple_wf:
  assumes "port_tuple i (j, port) = Ok t"
  shows "tuple_wf t"
proof -
  let ?name = "case npp_protocol port of None \<Rightarrow> ''TCP'' | Some p \<Rightarrow> p"
  from assms obtain protocol where protocol: "(if ?name = ''TCP'' then Ok Tcp else if ?name = ''UDP'' then Ok Udp
      else if ?name = ''SCTP'' then Ok Sctp else Err (UnsupportedProtocol i j ?name)) = Ok protocol"
    and run: "(case npp_port port of
       Some (PortNumber value) \<Rightarrow>
         (case u16_try_from value of
            None \<Rightarrow> Err (NpInvalidPort i j value)
          | Some start \<Rightarrow>
            if start = 0 then Err (NpInvalidPort i j 0) else
            case npp_end_port port of
              None \<Rightarrow> Ok (Some protocol, Number start)
            | Some end_value \<Rightarrow> port_range_tuple protocol i j value start end_value)
     | Some (PortName name) \<Rightarrow>
         if name \<noteq> [] then
           (if npp_end_port port \<noteq> None then Err (InvalidNamedPortRange i j) else Ok (Some protocol, Named name))
         else Err (InvalidNamedPort i j)
     | None \<Rightarrow>
         (case npp_end_port port of None \<Rightarrow> Ok (Some protocol, AnyPort)
          | Some end_value \<Rightarrow> Err (InvalidPortRange i j 0 end_value))) = Ok t"
    unfolding port_tuple_def Let_def prod.case rbind_eq_Inr by (elim exE conjE)
  have "protocol \<noteq> Icmp" using protocol by (simp split: if_splits; blast)
  with run show ?thesis
    by (cases "npp_port port") (auto simp: tuple_wf_def [of "(_, _)"] port_range_wf split: option.splits if_splits IntOrString.splits)
qed

lemma ports_wf:
  assumes "ports policy_ports i = Ok ts" "t \<in> set ts"
  shows "tuple_wf t"
proof (cases "listed policy_ports = []")
  case True
  then show ?thesis using assms by (auto simp: ports_def tuple_wf_def)
next
  case False
  then have "try_map (port_tuple i) (List.enumerate 0 (listed policy_ports)) = Ok ts"
    using assms(1) by (simp add: ports_def Let_def)
  from try_map_from [OF this assms(2)] obtain j port where "port_tuple i (j, port) = Ok t" by (auto simp del: in_set_enumerate_eq)
  then show ?thesis by (rule port_tuple_wf)
qed

definition rule_sound :: "u32 \<Rightarrow> PolicyRule \<Rightarrow> bool" where
  "rule_sound pid r \<longleftrightarrow> rule_wf r \<and> rule_protocol r \<noteq> Some Icmp \<and> rule_action r = AllowAction \<and>
     prov_policy_id (rule_provenance r) = pid \<and> proper_excepts (sel_ipv4_blocks (rule_source r)) \<and>
     proper_excepts (sel_ipv4_blocks (rule_destination r))"

lemma direction_rules_sound:
  assumes "try_fold (compile_direction_rule pid name ns (ends_of d target) sources) rules (List.enumerate n rs) = Ok rules'"
    and "sel_ipv4_blocks target = []" "\<forall>r \<in> set rules. rule_sound pid r"
  shows "\<forall>r \<in> set rules'. rule_sound pid r"
  using assms(1,3)
proof (induction rs arbitrary: n rules)
  case (Cons rule rs)
  from Cons.prems(1) obtain mid where mid: "compile_direction_rule pid name ns (ends_of d target) sources rules (n, rule) = Ok mid"
    and rest: "try_fold (compile_direction_rule pid name ns (ends_of d target) sources) mid (List.enumerate (Suc n) rs) = Ok rules'"
    by (auto simp: res_simps)
  from mid obtain sels ts where sels: "sources (npr_peers rule) ns n = Ok sels" and ts: "ports (npr_ports rule) n = Ok ts"
    and fold: "try_fold (\<lambda>rules selector. try_fold (\<lambda>rules (protocol, port).
      map_rule_error (push_rule rules pid name ns (fst (ends_of d target selector)) (snd (ends_of d target selector)) protocol port AllowAction n))
      rules ts) rules sels = Ok mid"
    by (auto simp: compile_direction_rule_def res_simps)
  from pushed_peers [OF fold] obtain new where new: "mid = rules @ new" "\<forall>r \<in> set new. compiled_from pid (ends_of d target) sels ts r" by blast
  have "rule_sound pid r" if r: "r \<in> set new" for r
  proof -
    obtain sel where sel: "sel \<in> set sels" "(rule_source r, rule_destination r) = ends_of d target sel"
      "(rule_protocol r, rule_destination_port r) \<in> set ts" "rule_action r = AllowAction" "prov_policy_id (rule_provenance r) = pid"
      using new(2) r by (auto simp: compiled_from_def)
    then show ?thesis using sources_excepts [OF sels sel(1)] ports_wf [OF ts sel(3)] assms(2)
      by (cases d) (auto simp: rule_sound_def tuple_wf_def rule_wf_def proper_excepts_def split: DestinationPort.splits)
  qed
  then show ?case using Cons.IH [OF rest] Cons.prems(2) new(1) by auto
qed simp



end
