(* ===== verification/Spec2Isabelle.thy ===== *)
theory Spec2Isabelle
  imports Ipam Tc_Connections Tc_Enforce Identity_Sync Network_Policy_Meaning
begin

text \<open>
  A verification library for the policy path of the Universal Network Fabric in \<^verbatim>\<open>src/\<close>: from the pods
  and policies the controller knows to the verdict a packet meets in the kernel.

  \<^bold>\<open>The program.\<close>  The controller (\<^verbatim>\<open>bins/unf-controller\<close>) admits pods into an identity registry
  (\<^verbatim>\<open>crates/unf-state\<close>), compiles policies into an intermediate representation and the representation into
  entries of five dataplane maps (\<^verbatim>\<open>crates/unf-policy\<close>), and serves two snapshots, of identities and of
  policy entries, each with an epoch (one per controller run) and a revision.  The agent of each node
  (\<^verbatim>\<open>bins/unf-agent\<close>) fetches the snapshots, encodes them and publishes them in kernel maps that have two
  banks: it stages the bank the program does not read, reads it back, flips a configuration entry, and
  rolls back when a call fails; after a restart it recovers its records from the pinned maps.  The
  traffic-control program (\<^verbatim>\<open>ebpf/unf-ebpf-tc\<close>) resolves the addresses of a packet to identities, looks the
  flow up in the active policy bank and tracks connections so that replies of allowed flows pass.  The
  addresses of pods come from the node-block address manager (\<^verbatim>\<open>crates/unf-ipam\<close>).

  \<^bold>\<open>Theories, in the order data flows.\<close>

  \<^item> \<open>Unf_Prelude\<close>, \<open>Addr_Prefix\<close>: machine integers, results (\<open>Err\<close>, \<open>Ok\<close>) with \<open>rbind\<close> for the question-mark
    operator and \<open>try_fold\<close> for loops that may return early, \<open>BTreeMap\<close> as a strictly sorted association
    list (the locale \<open>ordered_map\<close>, interpreted on it), and prefixes as words under a mask.
  \<^item> \<open>Ipam\<close>: node blocks, leases and the usage snapshot (\<^verbatim>\<open>unf-ipam/src/lib.rs\<close>).  Allocation returns a free
    address of the block, the first one, and fails only when none is left; overlap tests are exact.  The
    contract is the locale \<open>ipam_provider\<close>, interpreted on the node-block provider.
  \<^item> \<open>Policy_Ir\<close>, \<open>Policy_Eval\<close>: selectors, rules and policies, the compiler of \<open>SecurityPolicy\<close> objects and the
    evaluator (\<^verbatim>\<open>unf-policy/src/lib.rs\<close>).  The evaluator returns the least candidate, whatever the order of
    the policies; shadow policies never change the enforced decision.
  \<^item> \<open>Policy_Dataplane\<close>, \<open>Policy_Lowering\<close>, \<open>Policy_Addresses\<close>, \<open>Policy_Prefixes\<close>: the five compilers from policies
    to map entries and their correctness: looking a flow up in the entries (exact port, protocol, wildcard;
    exact address or longest prefix) gives the evaluator's decision.
  \<^item> \<open>Policy_Snapshot\<close>: the controller's state as far as the snapshot reads it, the endpoints, the rows added
    for host-network pods, nodes and gateway replies, and the cache (\<^verbatim>\<open>unf-controller/src/main.rs\<close>).
  \<^item> \<open>Identity_Registry\<close>: admission, removal and reset of pods, the canonical key, the identity snapshot.
    The key determines the workload; address index and reference counts are exact in every reachable registry.
  \<^item> \<open>Policy_Encoding\<close>: byte layouts of keys, values and configuration.  The five map kinds share the locale
    \<open>entry_kind\<close> (and the two tries its extension \<open>lpm_kind\<close>), interpreted on each of them.
  \<^item> \<open>Policy_Banks\<close>, \<open>Policy_Sync\<close>: publication and recovery of policies (\<^verbatim>\<open>unf-agent/src/main.rs\<close>) over kernel maps
    whose calls may fail.  The relation \<open>agent_reach\<close> has the states an agent reaches by synchronizations
    and restarts, with a flag that no rollback failed; invariants are proved by rule induction on it.
  \<^item> \<open>Identity_Sync\<close>: publication and recovery of identities and the identity lookups of the program.
  \<^item> \<open>Tc_Policy\<close>, \<open>Tc_Connections\<close>: policy lookups, decoding and the connection table of the program
    (\<^verbatim>\<open>unf-ebpf-tc/src/main.rs\<close>).
  \<^item> \<open>Tc_Lookup\<close>, \<open>Tc_Published\<close>, \<open>Tc_Enforce\<close>, \<open>Small_Cluster\<close>: the composition, from the controller's state over
    encoding, publication and lookup to the verdict, and a concrete cluster at which it is instantiated.

  \<^bold>\<open>Parameters.\<close>  Kernel maps are not part of the sources.  Their calls are arguments (\<open>map_ops\<close>,
  \<open>identity_calls\<close>, \<open>connection_ops\<close>, \<open>lpm\<close> lookups), any of which may fail at any time; what the code relies on
  is stated by \<open>map_contract\<close>, \<open>kernel_contract\<close>, \<open>identity_contract\<close>, \<open>connection_contract\<close>, \<open>lpm_contract\<close>: a call
  that reports success had its documented effect, one that fails had none.  Witnesses instantiate them with
  maps kept in lists whose calls fail as a schedule says.  The answers of the locality component are an
  argument of the identity synchronization.

  \<^bold>\<open>Loops and bounds.\<close>  Every loop of the modelled code is bounded by its input, so all definitions are total
  functions and no fuel is used; the recursion of \<open>uncovered_ipv6_address\<close> ends because the prefix length
  grows.  Integers keep their width; revisions saturate, entry counts are checked against 32 bits as in the
  source, and addresses are words.

  \<^bold>\<open>Not modelled.\<close>  The text forms of addresses and the wire forms of snapshots (JSON); Kubernetes watches,
  HTTP handlers, checkpoints and metrics; packet parsing and the service, egress and encryption paths of the
  program; the CNI plugin with its journal; services, load balancing, egress gateways, encryption, routing and
  the command line.  They are input and output around the modelled functions, rely on libraries that are not
  part of the sources, or are separate subsystems that do not decide policy.
\<close>

end
